(* ===== verification/Sip_Prelude.thy ===== *)
theory Sip_Prelude
  imports Main "HOL-Library.Word" "HOL-Library.AList" "HOL-Library.Sublist"
begin

text \<open>
  Shared vocabulary of the development: the outcome of a Rust computation that may return an
  error or panic, machine integers at their width, the contract of a \<open>HashMap\<close> as a locale and
  its interpretation on association lists, and the contract of a step-preserved invariant.
\<close>

unbundle bit_operations_syntax

named_theorems str_simps \<open>rewrite rules on the Rust string operations\<close>
named_theorems word_simps \<open>rewrite rules on machine integers\<close>
named_theorems frame_simps \<open>which parts of a state an operation leaves alone\<close>

type_synonym u8 = "8 word"
type_synonym u16 = "16 word"
type_synonym u32 = "32 word"
type_synonym u64 = "64 word"
type_synonym i16 = "16 word"

text \<open>
  \<open>Result\<close> of a fallible function, with a third outcome for a Rust panic (an out-of-range slice,
  an arithmetic overflow under overflow checks, \<open>unwrap\<close> on \<open>None\<close>).
\<close>

datatype ('e, 'a) outcome = Ok 'a | Err 'e | Panic

fun is_ok :: "('e, 'a) outcome \<Rightarrow> bool" where
  "is_ok (Ok a) = True"
| "is_ok _ = False"

section \<open>Hash maps\<close>

text \<open>
  A \<open>HashMap\<close> is an association list with distinct keys; the list order is the (unspecified)
  iteration order, so a statement over every such list covers every order.
\<close>

type_synonym ('k, 'v) hmap = "('k \<times> 'v) list"

locale keyed_store =
  fixes get :: "'m \<Rightarrow> 'k \<Rightarrow> 'v option"
    and put :: "'k \<Rightarrow> 'v \<Rightarrow> 'm \<Rightarrow> 'm"
    and del :: "'k \<Rightarrow> 'm \<Rightarrow> 'm"
    and new :: "'m"
    and wf :: "'m \<Rightarrow> bool"
  assumes get_new: "get new k = None"
    and get_put: "get (put k v m) k' = (if k' = k then Some v else get m k')"
    and get_del: "get (del k m) k' = (if k' = k then None else get m k')"
    and wf_new: "wf new"
    and wf_put: "wf m \<Longrightarrow> wf (put k v m)"
    and wf_del: "wf m \<Longrightarrow> wf (del k m)"
begin

lemma put_same [simp]: "get (put k v m) k = Some v"
  by (simp add: get_put)

lemma put_other [simp]: "k' \<noteq> k \<Longrightarrow> get (put k v m) k' = get m k'"
  by (simp add: get_put)

lemma del_same [simp]: "get (del k m) k = None"
  by (simp add: get_del)

lemma del_other [simp]: "k' \<noteq> k \<Longrightarrow> get (del k m) k' = get m k'"
  by (simp add: get_del)

lemma del_put_same: "get (del k (put k v m)) = get (del k m)"
  by (rule ext) (simp add: get_put get_del)

lemma del_idem: "get (del k (del k m)) = get (del k m)"
  by (rule ext) (simp add: get_del)

lemma fold_del_get: "get (fold del ks m) k = (if k \<in> set ks then None else get m k)"
  by (induction ks arbitrary: m) (auto simp: get_del)

lemma wf_fold_del: "wf m \<Longrightarrow> wf (fold del ks m)"
  by (induction ks arbitrary: m) (auto simp: wf_del)

end

abbreviation hm_wf :: "('k, 'v) hmap \<Rightarrow> bool" where
  "hm_wf m \<equiv> distinct (map fst m)"

abbreviation hm_get :: "('k, 'v) hmap \<Rightarrow> 'k \<Rightarrow> 'v option" where
  "hm_get \<equiv> map_of"

abbreviation hm_put :: "'k \<Rightarrow> 'v \<Rightarrow> ('k, 'v) hmap \<Rightarrow> ('k, 'v) hmap" where
  "hm_put \<equiv> AList.update"

abbreviation hm_del :: "'k \<Rightarrow> ('k, 'v) hmap \<Rightarrow> ('k, 'v) hmap" where
  "hm_del \<equiv> AList.delete"

interpretation hm: keyed_store map_of AList.update AList.delete "[]" hm_wf
  by unfold_locales
    (auto simp: update_conv' delete_conv' distinct_update distinct_delete)

text \<open>\<open>HashMap::retain\<close> keeps the entries a predicate accepts.\<close>

definition hm_retain :: "('k \<Rightarrow> 'v \<Rightarrow> bool) \<Rightarrow> ('k, 'v) hmap \<Rightarrow> ('k, 'v) hmap" where
  "hm_retain P m = filter (\<lambda>(k, v). P k v) m"

lemma hm_retain_Nil [simp]: "hm_retain P [] = []"
  by (simp add: hm_retain_def)

lemma hm_retain_wf [simp]: "hm_wf m \<Longrightarrow> hm_wf (hm_retain P m)"
  unfolding hm_retain_def by (induction m) auto

lemma hm_get_retain:
  assumes "hm_wf m"
  shows "hm_get (hm_retain P m) k =
    (case hm_get m k of Some v \<Rightarrow> if P k v then Some v else None | None \<Rightarrow> None)"
  using assms
proof (induction m)
  case Nil
  then show ?case by (simp add: hm_retain_def)
next
  case (Cons e m)
  obtain k' v' where e: "e = (k', v')" by (cases e)
  from Cons.prems have m: "hm_wf m" and k': "k' \<notin> set (map fst m)"
    by (auto simp: e)
  have "hm_get m k' = None"
    using k' by (simp add: map_of_eq_None_iff)
  with Cons.IH [OF m] show ?case
    by (auto simp: hm_retain_def e split: option.splits)
qed

text \<open>An update in place of the value under a key, as through \<open>get_mut\<close>.\<close>

definition hm_adjust :: "'k \<Rightarrow> ('v \<Rightarrow> 'v) \<Rightarrow> ('k, 'v) hmap \<Rightarrow> ('k, 'v) hmap" where
  "hm_adjust k f m = map (\<lambda>(j, v). (j, if j = k then f v else v)) m"

lemma hm_adjust_keys [simp]: "map fst (hm_adjust k f m) = map fst m"
  by (auto simp: hm_adjust_def)

lemma hm_adjust_get [simp]:
  "hm_get (hm_adjust k f m) j = (if j = k then map_option f (hm_get m j) else hm_get m j)"
  by (induction m) (auto simp: hm_adjust_def)

section \<open>Invariants kept by every step\<close>

text \<open>
  The contract of a state machine that keeps an invariant: a step function on commands, an
  initial state and the two laws; every run then keeps the invariant.
\<close>

locale kept_invariant =
  fixes step :: "'c \<Rightarrow> 's \<Rightarrow> 's"
    and inv :: "'s \<Rightarrow> bool"
  assumes step_inv: "inv s \<Longrightarrow> inv (step c s)"
begin

lemma run_inv: "inv s \<Longrightarrow> inv (fold step cs s)"
  by (induction cs arbitrary: s) (auto simp: step_inv)

lemma run_append_inv: "inv s \<Longrightarrow> inv (fold step (cs @ ds) s)"
  by (rule run_inv)

end

section \<open>Lists\<close>

lemma takeWhile_all [str_simps]: "(\<And>x. x \<in> set xs \<Longrightarrow> P x) \<Longrightarrow> takeWhile P (xs @ ys) = xs @ takeWhile P ys"
  by (induction xs) auto

lemma dropWhile_all [str_simps]: "(\<And>x. x \<in> set xs \<Longrightarrow> P x) \<Longrightarrow> dropWhile P (xs @ ys) = dropWhile P ys"
  by (induction xs) auto

lemma sorted_dropWhile_filter:
  fixes xs :: "'a::linorder list"
  assumes "sorted xs"
  shows "dropWhile (\<lambda>x. x < t) xs = filter (\<lambda>x. t \<le> x) xs"
  using assms by (induction xs) (auto simp: not_less intro!: filter_True [symmetric])

end
