(* ===== verification/Rust_Str.thy ===== *)
theory Rust_Str
  imports Sip_Prelude
begin

text \<open>
  The part of Rust's \<open>str\<close> and integer parsing/printing the sources use. A \<open>str\<close> is its byte
  sequence (\<open>string\<close>, one \<open>char\<close> per byte), so \<open>len\<close> is \<open>length\<close>. Case mapping and white space are
  exact on ASCII text, which is what the grammars of SIP and SDP use; bytes above 127 are neither
  white space nor changed by case mapping.
\<close>

section \<open>Characters\<close>

abbreviation cr :: char where "cr \<equiv> CHR 0x0D"
abbreviation lf :: char where "lf \<equiv> CHR 0x0A"
abbreviation tab :: char where "tab \<equiv> CHR 0x09"
abbreviation quote :: char where "quote \<equiv> CHR 0x22"
abbreviation backslash :: char where "backslash \<equiv> CHR 0x5C"
abbreviation crlf :: string where "crlf \<equiv> [CHR 0x0D, CHR 0x0A]"

definition is_whitespace :: "char \<Rightarrow> bool" where
  "is_whitespace c = (c = CHR '' '' \<or> c = tab \<or> c = lf \<or> c = CHR 0x0B \<or> c = CHR 0x0C \<or> c = cr)"

definition is_ascii_digit :: "char \<Rightarrow> bool" where
  "is_ascii_digit c = (48 \<le> (of_char c :: nat) \<and> (of_char c :: nat) \<le> 57)"

definition lower_char :: "char \<Rightarrow> char" where
  "lower_char c = (let n = (of_char c :: nat) in if 65 \<le> n \<and> n \<le> 90 then char_of (n + 32) else c)"

definition upper_char :: "char \<Rightarrow> char" where
  "upper_char c = (let n = (of_char c :: nat) in if 97 \<le> n \<and> n \<le> 122 then char_of (n - 32) else c)"

definition to_lower :: "string \<Rightarrow> string" where
  "to_lower s = map lower_char s"

definition to_upper :: "string \<Rightarrow> string" where
  "to_upper s = map upper_char s"

lemma of_char_lower: "(of_char (lower_char c) :: nat) =
    (let n = (of_char c :: nat) in if 65 \<le> n \<and> n \<le> 90 then n + 32 else n)"
  by (simp add: lower_char_def Let_def)

lemma lower_char_idem [simp]: "lower_char (lower_char c) = lower_char c"
  by (simp add: lower_char_def Let_def)

lemma to_lower_idem [simp]: "to_lower (to_lower s) = to_lower s"
  by (simp add: to_lower_def)

lemma length_to_lower [simp]: "length (to_lower s) = length s"
  by (simp add: to_lower_def)

lemma to_lower_append [simp]: "to_lower (s @ t) = to_lower s @ to_lower t"
  by (simp add: to_lower_def)

lemma to_lower_Nil_iff [simp]: "to_lower s = [] \<longleftrightarrow> s = []"
  by (simp add: to_lower_def)

section \<open>Trimming and affixes\<close>

definition trim_start :: "string \<Rightarrow> string" where
  "trim_start s = dropWhile is_whitespace s"

definition trim_end :: "string \<Rightarrow> string" where
  "trim_end s = rev (dropWhile is_whitespace (rev s))"

definition trim :: "string \<Rightarrow> string" where
  "trim s = trim_end (trim_start s)"

definition trim_matches :: "char \<Rightarrow> string \<Rightarrow> string" where
  "trim_matches c s = rev (dropWhile ((=) c) (rev (dropWhile ((=) c) s)))"

definition strip_prefix :: "string \<Rightarrow> string \<Rightarrow> string option" where
  "strip_prefix p s = (if prefix p s then Some (drop (length p) s) else None)"

text \<open>\<open>trim_start_matches\<close> removes the pattern as long as it is a prefix.\<close>

function trim_start_matches :: "string \<Rightarrow> string \<Rightarrow> string" where
  "trim_start_matches p s =
     (if p \<noteq> [] \<and> prefix p s then trim_start_matches p (drop (length p) s) else s)"
  by pat_completeness auto
termination
  by (relation "measure (\<lambda>(p, s). length s)") (auto simp: prefix_def)

declare trim_start_matches.simps [simp del]

text \<open>A string with no white space at either end, as every trimmed value is.\<close>

definition trimmed :: "string \<Rightarrow> bool" where
  "trimmed s = (s = [] \<or> (\<not> is_whitespace (hd s) \<and> \<not> is_whitespace (last s)))"

lemma trim_trimmed [str_simps]:
  assumes "trimmed s"
  shows "trim s = s"
proof (cases "s = []")
  case False
  with assms have "dropWhile is_whitespace s = s" and "\<not> is_whitespace (last s)"
    by (cases s; auto simp: trimmed_def)+
  moreover from this False have "dropWhile is_whitespace (rev s) = rev s"
    by (cases s rule: rev_cases) auto
  ultimately show ?thesis
    by (simp add: trim_def trim_start_def trim_end_def)
qed (simp add: trim_def trim_start_def trim_end_def)

lemma trim_space_trimmed [str_simps]: "trimmed s \<Longrightarrow> trim (CHR '' '' # s) = s"
  using trim_trimmed [of s] by (simp add: trim_def trim_start_def is_whitespace_def)

lemma trim_space [simp]: "trim (CHR '' '' # v) = trim v"
  by (simp add: trim_def trim_start_def is_whitespace_def)

lemma trim_end_append:
  "trim_end t \<noteq> [] \<Longrightarrow> trim_end (s @ t) = s @ trim_end t"
  by (auto simp: trim_end_def dropWhile_append1 dropWhile_append)

lemma last_trim_suffix:
  assumes "trim t \<noteq> []"
  shows "trim (s @ t) \<noteq> [] \<and> last (trim (s @ t)) = last (trim t)"
proof -
  obtain w where w: "w \<in> set t" "\<not> is_whitespace w"
    using assms by (auto simp: trim_def trim_start_def trim_end_def dest: set_dropWhileD)
  have e: "trim_end u \<noteq> []" if "w \<in> set u" for u
    using that w by (auto simp: trim_end_def)
  obtain p where p: "t = p @ trim_start t" by (metis takeWhile_dropWhile_id trim_start_def)
  have ws: "w \<in> set (trim_start t)"
    using w by (metis UnE p set_append set_takeWhileD takeWhile_dropWhile_id trim_start_def append_same_eq)
  show ?thesis
  proof (cases "\<forall>x \<in> set s. is_whitespace x")
    case True
    then show ?thesis using assms by (simp add: trim_def trim_start_def dropWhile_all)
  next
    case False
    then have "trim_start (s @ t) = trim_start s @ t"
      by (auto simp: trim_start_def dropWhile_append1)
    moreover have "trim_end t = p @ trim_end (trim_start t)"
      using trim_end_append [OF e [OF ws], of p] p by simp
    ultimately show ?thesis using trim_end_append [OF e [OF w(1)], of "trim_start s"] e [OF ws]
      by (simp add: trim_def)
  qed
qed

lemma trimmed_trim [simp]: "trimmed (trim s)"
proof (cases "trim s = []")
  case False
  let ?t = "dropWhile is_whitespace s"
  from False have ne: "dropWhile is_whitespace (rev ?t) \<noteq> []"
    by (simp add: trim_def trim_end_def trim_start_def)
  then have last: "\<not> is_whitespace (hd (dropWhile is_whitespace (rev ?t)))"
    by (rule hd_dropWhile)
  have eq: "trim s = rev (dropWhile is_whitespace (rev ?t))"
    by (simp add: trim_def trim_end_def trim_start_def)
  obtain ys where "rev ?t = ys @ dropWhile is_whitespace (rev ?t)"
    by (metis takeWhile_dropWhile_id)
  then have pre: "?t = trim s @ rev ys"
    by (metis eq rev_append rev_rev_ident)
  then have "hd ?t = hd (trim s)" and "?t \<noteq> []"
    using False by (metis hd_append2, auto)
  then have "\<not> is_whitespace (hd (trim s))"
    by (metis hd_dropWhile)
  moreover have "\<not> is_whitespace (last (trim s))"
    using last ne by (simp add: eq last_rev)
  ultimately show ?thesis by (simp add: trimmed_def)
qed (simp add: trimmed_def)

lemma trim_idem [simp]: "trim (trim s) = trim s"
  by (simp add: str_simps)

lemma strip_prefix_append [simp]: "strip_prefix p (p @ s) = Some s"
  by (simp add: strip_prefix_def)

lemma strip_prefix_SomeD: "strip_prefix p s = Some t \<Longrightarrow> s = p @ t"
  by (auto simp: strip_prefix_def prefix_def split: if_splits)

section \<open>Searching and splitting\<close>

fun find_char :: "char \<Rightarrow> string \<Rightarrow> nat option" where
  "find_char c [] = None"
| "find_char c (x # xs) = (if x = c then Some 0 else map_option Suc (find_char c xs))"

fun find_str :: "string \<Rightarrow> string \<Rightarrow> nat option" where
  "find_str p [] = (if p = [] then Some 0 else None)"
| "find_str p (x # xs) = (if prefix p (x # xs) then Some 0 else map_option Suc (find_str p xs))"

definition contains_str :: "string \<Rightarrow> string \<Rightarrow> bool" where
  "contains_str p s = (find_str p s \<noteq> None)"

lemma find_char_None_iff: "find_char c s = None \<longleftrightarrow> c \<notin> set s"
  by (induction s) auto

lemma find_char_append: "c \<notin> set s \<Longrightarrow> find_char c (s @ c # t) = Some (length s)"
  by (induction s) auto

lemma find_char_SomeD:
  "find_char c s = Some i \<Longrightarrow> i < length s \<and> s ! i = c \<and> c \<notin> set (take i s)"
proof (induction s arbitrary: i)
  case (Cons x xs)
  then show ?case by (cases i) (auto split: if_splits)
qed simp

lemma find_char_split:
  assumes "find_char c s = Some i"
  shows "s = take i s @ c # drop (Suc i) s"
  using find_char_SomeD [OF assms] by (metis id_take_nth_drop)

lemma find_str_None_iff: "find_str p s = None \<longleftrightarrow> \<not> sublist p s"
proof (induction s)
  case (Cons x xs)
  then show ?case by (auto simp: sublist_Cons_right)
qed simp

lemma contains_str_iff: "contains_str p s \<longleftrightarrow> sublist p s"
  by (simp add: contains_str_def find_str_None_iff)

lemma find_str_SomeD: "find_str p s = Some i \<Longrightarrow> i + length p \<le> length s \<and> take (length p) (drop i s) = p"
proof (induction s arbitrary: i)
  case Nil
  then show ?case by (auto split: if_splits)
next
  case (Cons x xs)
  show ?case
  proof (cases "prefix p (x # xs)")
    case True
    with Cons.prems have i: "i = 0" by simp
    from True have "p = take (length p) (x # xs)"
      by (auto simp: prefix_def)
    moreover from True have "length p \<le> length (x # xs)"
      by (rule prefix_length_le)
    ultimately have "take (length p) (x # xs) = p" "length p \<le> length (x # xs)"
      by simp_all
    with i show ?thesis by simp
  next
    case False
    with Cons show ?thesis by auto
  qed
qed

fun split_on :: "char \<Rightarrow> string \<Rightarrow> string list" where
  "split_on c [] = [[]]"
| "split_on c (x # xs) =
     (if x = c then [] # split_on c xs
      else (case split_on c xs of p # ps \<Rightarrow> (x # p) # ps | [] \<Rightarrow> [[x]]))"

fun join :: "string \<Rightarrow> string list \<Rightarrow> string" where
  "join sep [] = []"
| "join sep [p] = p"
| "join sep (p # q # ps) = p @ sep @ join sep (q # ps)"

text \<open>\<open>splitn(n, c)\<close>: at most \<open>n\<close> pieces, the last one holding the rest.\<close>

fun splitn :: "nat \<Rightarrow> char \<Rightarrow> string \<Rightarrow> string list" where
  "splitn 0 c s = []"
| "splitn (Suc 0) c s = [s]"
| "splitn (Suc (Suc n)) c s =
     (case find_char c s of
        None \<Rightarrow> [s]
      | Some i \<Rightarrow> take i s # splitn (Suc n) c (drop (Suc i) s))"

definition split_once :: "char \<Rightarrow> string \<Rightarrow> (string \<times> string) option" where
  "split_once c s =
     (case find_char c s of None \<Rightarrow> None | Some i \<Rightarrow> Some (take i s, drop (Suc i) s))"

text \<open>\<open>split("\<backslash>r\<backslash>n")\<close>.\<close>

fun split_crlf :: "string \<Rightarrow> string list" where
  "split_crlf [] = [[]]"
| "split_crlf [x] = [[x]]"
| "split_crlf (x # y # s) =
     (if x = cr \<and> y = lf then [] # split_crlf s
      else (case split_crlf (y # s) of p # ps \<Rightarrow> (x # p) # ps | [] \<Rightarrow> [[x]]))"

fun split_whitespace_aux :: "string \<Rightarrow> string \<Rightarrow> string list" where
  "split_whitespace_aux acc [] = (if acc = [] then [] else [rev acc])"
| "split_whitespace_aux acc (x # xs) =
     (if is_whitespace x
      then (if acc = [] then split_whitespace_aux [] xs else rev acc # split_whitespace_aux [] xs)
      else split_whitespace_aux (x # acc) xs)"

definition split_whitespace :: "string \<Rightarrow> string list" where
  "split_whitespace s = split_whitespace_aux [] s"

definition nth_opt :: "nat \<Rightarrow> 'a list \<Rightarrow> 'a option" where
  "nth_opt i xs = (if i < length xs then Some (xs ! i) else None)"

lemma split_on_ne [simp]: "split_on c s \<noteq> []"
  by (cases s) (auto split: list.splits)

lemma split_on_no_sep [str_simps]: "c \<notin> set s \<Longrightarrow> split_on c s = [s]"
  by (induction s) auto

lemma split_on_append [str_simps]: "c \<notin> set s \<Longrightarrow> split_on c (s @ c # t) = s # split_on c t"
  by (induction s) auto

lemma join_split_on: "join [c] (split_on c s) = s"
proof (induction s)
  case (Cons x xs)
  obtain p ps where ps: "split_on c xs = p # ps"
    by (meson list.exhaust split_on_ne)
  with Cons show ?case by (cases ps) auto
qed simp

lemma split_on_pieces: "p \<in> set (split_on c s) \<Longrightarrow> c \<notin> set p"
proof (induction s arbitrary: p)
  case (Cons x xs)
  obtain q qs where qs: "split_on c xs = q # qs"
    by (meson list.exhaust split_on_ne)
  with Cons show ?case by (auto split: if_splits)
qed simp

lemma hd_split_on: "hd (split_on c s) = takeWhile (\<lambda>x. x \<noteq> c) s"
proof (induction s)
  case (Cons x xs)
  obtain q qs where qs: "split_on c xs = q # qs"
    by (meson list.exhaust split_on_ne)
  with Cons show ?case by auto
qed simp

lemma split_crlf_ne [simp]: "split_crlf s \<noteq> []"
  by (cases s rule: split_crlf.cases) (auto split: list.splits)

lemma join_split_crlf: "join crlf (split_crlf s) = s"
proof (induction s rule: split_crlf.induct)
  case (3 x y s)
  obtain p ps where "split_crlf s = p # ps" by (meson list.exhaust split_crlf_ne)
  moreover obtain q qs where "split_crlf (y # s) = q # qs" by (meson list.exhaust split_crlf_ne)
  ultimately show ?case using 3 by (cases ps; cases qs) auto
qed auto

lemma split_crlf_append [str_simps]:
  assumes "lf \<notin> set s"
  shows "split_crlf (s @ cr # lf # t) = s # split_crlf t"
  using assms
proof (induction s)
  case (Cons x s)
  then show ?case by (cases s) auto
qed simp

lemma split_crlf_single [str_simps]: "lf \<notin> set s \<Longrightarrow> split_crlf s = [s]"
  by (induction s rule: split_crlf.induct) auto

lemma splitn2 [str_simps]: "c \<notin> set s \<Longrightarrow> splitn (Suc (Suc n)) c (s @ c # t) = s # splitn (Suc n) c t"
  by (simp add: find_char_append)

section \<open>Lines\<close>

definition strip_cr :: "string \<Rightarrow> string" where
  "strip_cr l = (if l \<noteq> [] \<and> last l = cr then butlast l else l)"

text \<open>
  \<open>str::lines\<close>: the pieces ended by a line feed lose it and one carriage return before it; a last
  piece without line feed is kept as it is when it is not empty.
\<close>

definition lines :: "string \<Rightarrow> string list" where
  "lines s = (let ps = split_on lf s
     in map strip_cr (butlast ps) @ (if last ps = [] then [] else [last ps]))"

lemma lines_Nil [simp]: "lines [] = []"
  by (simp add: lines_def)

lemma strip_cr_snoc [simp]: "strip_cr (l @ [cr]) = l"
  by (simp add: strip_cr_def)

lemma lines_lf: "lf \<notin> set l \<Longrightarrow> lines (l @ lf # t) = strip_cr l # lines t"
  by (auto simp: lines_def split_on_append Let_def)

lemma lines_crlf [str_simps]:
  assumes "lf \<notin> set l"
  shows "lines (l @ cr # lf # t) = l # lines t"
  using lines_lf [of "l @ [cr]" t] assms by simp

lemma lines_single [str_simps]: "lf \<notin> set l \<Longrightarrow> l \<noteq> [] \<Longrightarrow> lines l = [l]"
  by (simp add: lines_def split_on_no_sep)

lemma lines_blank [str_simps]: "lines (cr # lf # t) = [] # lines t"
  using lines_crlf [of "[]" t] by simp

lemma lines_concat_crlf [str_simps]:
  assumes "\<And>l. l \<in> set ls \<Longrightarrow> lf \<notin> set l"
  shows "lines (concat (map (\<lambda>l. l @ crlf) ls) @ t) = ls @ lines t"
  using assms by (induction ls) (auto simp: lines_crlf)

lemma lines_no_lf: "l \<in> set (lines s) \<Longrightarrow> lf \<notin> set l"
proof -
  assume "l \<in> set (lines s)"
  then consider p where "p \<in> set (butlast (split_on lf s))" "l = strip_cr p"
    | "l = last (split_on lf s)"
    by (auto simp: lines_def Let_def split: if_splits)
  then show ?thesis
  proof cases
    case 1
    then have "lf \<notin> set p" by (meson in_set_butlastD split_on_pieces)
    then show ?thesis using 1 by (auto simp: strip_cr_def dest: in_set_butlastD)
  next
    case 2
    then show ?thesis using last_in_set [OF split_on_ne] split_on_pieces by blast
  qed
qed

end
