(* ===== verification/Rust_Num.thy ===== *)
theory Rust_Num
  imports Rust_Str
begin

text \<open>
  Integers of the sources: decimal and hexadecimal parsing and printing as \<open>FromStr\<close>,
  \<open>from_str_radix\<close> and \<open>format!\<close> do them, and the big- and little-endian byte conversions.
\<close>

section \<open>Digits\<close>

definition digit_value :: "nat \<Rightarrow> char \<Rightarrow> nat option" where
  "digit_value r c =
     (let n = (of_char c :: nat);
          d = (if 48 \<le> n \<and> n \<le> 57 then n - 48
               else if 97 \<le> n \<and> n \<le> 122 then n - 87
               else if 65 \<le> n \<and> n \<le> 90 then n - 55 else 255)
      in if d < r \<and> d < 36 then Some d else None)"

definition digit_char :: "nat \<Rightarrow> char" where
  "digit_char d = (if d < 10 then char_of (48 + d) else char_of (87 + d))"

lemma digit_value_char: "d < r \<Longrightarrow> r \<le> 36 \<Longrightarrow> digit_value r (digit_char d) = Some d"
  by (simp add: digit_value_def digit_char_def Let_def)

section \<open>Parsing\<close>

fun parse_radix_acc :: "nat \<Rightarrow> nat \<Rightarrow> string \<Rightarrow> nat option" where
  "parse_radix_acc r acc [] = Some acc"
| "parse_radix_acc r acc (c # cs) =
     (case digit_value r c of None \<Rightarrow> None | Some d \<Rightarrow> parse_radix_acc r (acc * r + d) cs)"

text \<open>
  \<open>from_str_radix\<close> of an unsigned type with greatest value \<open>m\<close>: an optional plus sign, at least one
  digit, and no overflow.
\<close>

definition parse_radix :: "nat \<Rightarrow> nat \<Rightarrow> string \<Rightarrow> nat option" where
  "parse_radix r m s =
     (let t = (case s of c # cs \<Rightarrow> if c = CHR ''+'' then cs else s | [] \<Rightarrow> [])
      in if t = [] then None
         else (case parse_radix_acc r 0 t of
                 None \<Rightarrow> None
               | Some n \<Rightarrow> if n \<le> m then Some n else None))"

definition parse_uint :: "string \<Rightarrow> 'a::len word option" where
  "parse_uint s = map_option of_nat (parse_radix 10 (2 ^ LENGTH('a) - 1) s)"

abbreviation parse_u8 :: "string \<Rightarrow> u8 option" where "parse_u8 \<equiv> parse_uint"
abbreviation parse_u16 :: "string \<Rightarrow> u16 option" where "parse_u16 \<equiv> parse_uint"
abbreviation parse_u32 :: "string \<Rightarrow> u32 option" where "parse_u32 \<equiv> parse_uint"

section \<open>Printing\<close>

function show_radix :: "nat \<Rightarrow> nat \<Rightarrow> string" where
  "show_radix r n =
     (if n < r \<or> r < 2 then [digit_char n] else show_radix r (n div r) @ [digit_char (n mod r)])"
  by pat_completeness auto
termination
  by (relation "measure snd") auto

declare show_radix.simps [simp del]

abbreviation show_nat :: "nat \<Rightarrow> string" where "show_nat \<equiv> show_radix 10"

definition show_uint :: "'a::len word \<Rightarrow> string" where
  "show_uint w = show_nat (unat w)"

text \<open>\<open>{:0kx}\<close>: lower-case hexadecimal, zero-padded on the left to \<open>k\<close> characters.\<close>

definition show_hex_pad :: "nat \<Rightarrow> nat \<Rightarrow> string" where
  "show_hex_pad k n =
     (let s = show_radix 16 n in replicate (k - length s) (CHR ''0'') @ s)"

lemma show_radix_ne [simp]: "show_radix r n \<noteq> []"
  by (subst show_radix.simps) simp

lemma parse_radix_acc_append:
  "parse_radix_acc r acc (s @ t) =
     (case parse_radix_acc r acc s of None \<Rightarrow> None | Some a \<Rightarrow> parse_radix_acc r a t)"
  by (induction s arbitrary: acc) (auto split: option.splits)

lemma parse_show_acc:
  assumes "2 \<le> r" "r \<le> 36"
  shows "parse_radix_acc r 0 (show_radix r n) = Some n"
proof (induction n rule: less_induct)
  case (less n)
  show ?case
  proof (cases "n < r")
    case True
    with assms show ?thesis
      by (subst show_radix.simps) (simp add: digit_value_char)
  next
    case False
    with assms have "n div r < n" by simp
    from less [OF this] show ?thesis using assms False
      by (subst show_radix.simps) (simp add: parse_radix_acc_append digit_value_char)
  qed
qed

lemma show_radix_digits:
  assumes "2 \<le> r"
  shows "set (show_radix r n) \<subseteq> digit_char ` {..<r}"
proof (induction n rule: less_induct)
  case (less n)
  show ?case
  proof (cases "n < r")
    case True
    then show ?thesis by (subst show_radix.simps) auto
  next
    case False
    with assms have "n div r < n" by simp
    from less [OF this] show ?thesis using assms False
      by (subst show_radix.simps) auto
  qed
qed

text \<open>A digit character is none of the separators of SIP and SDP.\<close>

lemma digit_char_plain:
  assumes "d < 16"
  shows "\<not> is_whitespace (digit_char d)" "digit_char d \<noteq> CHR '':''" "digit_char d \<noteq> CHR ''+''"
    "digit_char d \<noteq> CHR ''.''" "digit_char d \<noteq> CHR ''/''" "digit_char d \<noteq> CHR '';''"
proof -
  have *: "(of_char (digit_char d) :: nat) = (if d < 10 then 48 + d else 87 + d)"
    using assms by (simp add: digit_char_def)
  have ne: "digit_char d \<noteq> c" if "(of_char c :: nat) < 48 \<or> (of_char c :: nat) \<in> {58, 59}" for c
    using * that by (auto split: if_splits)
  show "\<not> is_whitespace (digit_char d)" "digit_char d \<noteq> CHR '':''" "digit_char d \<noteq> CHR ''+''"
    "digit_char d \<noteq> CHR ''.''" "digit_char d \<noteq> CHR ''/''" "digit_char d \<noteq> CHR '';''"
    using ne [of "CHR '' ''"] ne [of tab] ne [of lf] ne [of "CHR 0x0B"] ne [of "CHR 0x0C"]
      ne [of cr] ne [of "CHR '':''"] ne [of "CHR ''+''"] ne [of "CHR ''.''"] ne [of "CHR ''/''"]
      ne [of "CHR '';''"]
    by (simp_all add: is_whitespace_def)
qed

lemma show_radix_plain:
  assumes "2 \<le> r" "r \<le> 16" "c \<in> set (show_radix r n)"
  shows "\<not> is_whitespace c \<and> c \<noteq> CHR '':'' \<and> c \<noteq> CHR ''+'' \<and> c \<noteq> CHR ''.'' \<and> c \<noteq> CHR ''/'' \<and> c \<noteq> CHR '';''"
proof -
  obtain d where "d < r" "c = digit_char d"
    using show_radix_digits [of r n] assms by auto
  then show ?thesis using assms digit_char_plain [of d] by simp
qed

lemma show_radix_no_ws [str_simps]:
  assumes "2 \<le> r" "r \<le> 16"
  shows "lf \<notin> set (show_radix r n)" "CHR '' '' \<notin> set (show_radix r n)" "cr \<notin> set (show_radix r n)"
    "CHR '':'' \<notin> set (show_radix r n)" "CHR ''/'' \<notin> set (show_radix r n)"
    "CHR ''.'' \<notin> set (show_radix r n)" "CHR '';'' \<notin> set (show_radix r n)" "tab \<notin> set (show_radix r n)"
  using show_radix_plain [OF assms] by (auto simp: is_whitespace_def)

lemma show_radix_trimmed [str_simps]:
  assumes "2 \<le> r" "r \<le> 16"
  shows "trimmed (show_radix r n)"
  using show_radix_plain [OF assms, of "hd (show_radix r n)" n]
    show_radix_plain [OF assms, of "last (show_radix r n)" n] by (simp add: trimmed_def)

lemma parse_show_radix:
  assumes "2 \<le> r" "r \<le> 16" "n \<le> m"
  shows "parse_radix r m (show_radix r n) = Some n"
proof -
  obtain c cs where s: "show_radix r n = c # cs"
    by (meson list.exhaust show_radix_ne)
  then have "c \<noteq> CHR ''+''"
    using show_radix_plain [of r c n] assms by simp
  then have "parse_radix r m (show_radix r n) =
      (case parse_radix_acc r 0 (show_radix r n) of None \<Rightarrow> None | Some n \<Rightarrow> if n \<le> m then Some n else None)"
    by (simp add: parse_radix_def s)
  with assms show ?thesis by (simp add: parse_show_acc)
qed

lemma parse_show_uint [simp]: "parse_uint (show_uint w) = Some (w :: 'a::len word)"
proof -
  have "unat w < 2 ^ LENGTH('a)" by (rule unsigned_less)
  then have "unat w \<le> 2 ^ LENGTH('a) - 1" by linarith
  then show ?thesis
    by (simp add: parse_uint_def show_uint_def parse_show_radix)
qed

lemma show_uint_plain [str_simps]:
  "lf \<notin> set (show_uint w)" "CHR '' '' \<notin> set (show_uint w)" "cr \<notin> set (show_uint w)"
  "CHR '':'' \<notin> set (show_uint w)" "CHR ''/'' \<notin> set (show_uint w)" "tab \<notin> set (show_uint w)"
  "CHR '';'' \<notin> set (show_uint w)" "show_uint w \<noteq> []" "trimmed (show_uint w)"
  by (simp_all add: show_uint_def show_radix_no_ws show_radix_trimmed)

lemma length_show_radix_le:
  assumes "2 \<le> r" "n < r ^ k" "0 < k"
  shows "length (show_radix r n) \<le> k"
  using assms
proof (induction k arbitrary: n)
  case (Suc k)
  show ?case
  proof (cases "n < r")
    case True
    then show ?thesis by (subst show_radix.simps) simp
  next
    case False
    have k: "0 < k" using Suc.prems False by (cases k) auto
    have "n div r < r ^ k"
      using Suc.prems by (simp add: less_mult_imp_div_less mult.commute)
    from Suc.IH [OF Suc.prems(1) this k] show ?thesis using False
      by (subst show_radix.simps) simp
  qed
qed simp

lemma length_show_hex_pad: "n < 16 ^ k \<Longrightarrow> 0 < k \<Longrightarrow> length (show_hex_pad k n) = k"
  using length_show_radix_le [of 16 n k] by (simp add: show_hex_pad_def Let_def)

lemma parse_radix_acc_zeros: "0 < r \<Longrightarrow> parse_radix_acc r 0 (replicate i (CHR ''0'') @ s) = parse_radix_acc r 0 s"
  by (induction i) (auto simp: digit_value_def)

lemma parse_show_hex_pad:
  assumes "n \<le> m"
  shows "parse_radix 16 m (show_hex_pad k n) = Some n"
proof -
  let ?s = "show_hex_pad k n"
  have acc: "parse_radix_acc 16 0 ?s = Some n"
    by (simp add: show_hex_pad_def Let_def parse_radix_acc_zeros parse_show_acc)
  obtain c cs where s: "?s = c # cs"
    by (metis append_is_Nil_conv list.exhaust show_hex_pad_def show_radix_ne)
  then have "c \<in> set ?s" by simp
  then have "c = CHR ''0'' \<or> c \<in> set (show_radix 16 n)"
    by (auto simp: show_hex_pad_def Let_def)
  then have "c \<noteq> CHR ''+''"
    using show_radix_plain [of 16 c n] by auto
  then show ?thesis using acc assms by (simp add: parse_radix_def s)
qed

section \<open>Bytes\<close>

definition be_bytes16 :: "u16 \<Rightarrow> u8 list" where
  "be_bytes16 w = [ucast (drop_bit 8 w), ucast w]"

definition be_bytes32 :: "u32 \<Rightarrow> u8 list" where
  "be_bytes32 w = [ucast (drop_bit 24 w), ucast (drop_bit 16 w), ucast (drop_bit 8 w), ucast w]"

definition le_bytes16 :: "u16 \<Rightarrow> u8 list" where
  "le_bytes16 w = rev (be_bytes16 w)"

definition le_bytes32 :: "u32 \<Rightarrow> u8 list" where
  "le_bytes32 w = rev (be_bytes32 w)"

definition from_be16 :: "u8 \<Rightarrow> u8 \<Rightarrow> u16" where
  "from_be16 a b = push_bit 8 (ucast a) OR ucast b"

definition from_be32 :: "u8 \<Rightarrow> u8 \<Rightarrow> u8 \<Rightarrow> u8 \<Rightarrow> u32" where
  "from_be32 a b c d =
     push_bit 24 (ucast a) OR push_bit 16 (ucast b) OR push_bit 8 (ucast c) OR ucast d"

definition from_le16 :: "u8 \<Rightarrow> u8 \<Rightarrow> u16" where
  "from_le16 a b = from_be16 b a"

definition from_le32 :: "u8 \<Rightarrow> u8 \<Rightarrow> u8 \<Rightarrow> u8 \<Rightarrow> u32" where
  "from_le32 a b c d = from_be32 d c b a"

lemma from_be16_bytes [word_simps]: "from_be16 (ucast (drop_bit 8 w)) (ucast w) = w"
  by (rule bit_word_eqI)
    (auto simp: from_be16_def bit_simps)

lemma from_be32_bytes [word_simps]:
  "from_be32 (ucast (drop_bit 24 w)) (ucast (drop_bit 16 w)) (ucast (drop_bit 8 w)) (ucast w) = w"
proof (rule bit_word_eqI)
  fix n
  assume "n < LENGTH(32)"
  then consider "n < 8" | "8 \<le> n" "n < 16" | "16 \<le> n" "n < 24" | "24 \<le> n" "n < 32"
    by fastforce
  then show "bit (from_be32 (ucast (drop_bit 24 w)) (ucast (drop_bit 16 w))
      (ucast (drop_bit 8 w)) (ucast w)) n = bit w n"
    by cases (simp_all add: from_be32_def bit_simps less_diff_conv2)
qed

lemma length_bytes [simp]:
  "length (be_bytes16 w) = 2" "length (le_bytes16 w) = 2"
  "length (be_bytes32 v) = 4" "length (le_bytes32 v) = 4"
  by (simp_all add: be_bytes16_def le_bytes16_def be_bytes32_def le_bytes32_def)

end
