(* ===== verification/Sip_Message.thy ===== *)
theory Sip_Message
  imports Rust_Num
begin

text \<open>
  \<open>backend/src/sip/message.rs\<close>: the parsed SIP message, the line-by-line parser with header
  folding and compact names, the URI helpers, the parser of digest-authentication parameters
  (which can panic) and the removal of the proxy's own Via line.
\<close>

section \<open>Messages and header names\<close>

definition SIP_ALLOW_METHODS :: string where
  "SIP_ALLOW_METHODS =
     ''REGISTER, INVITE, ACK, BYE, CANCEL, OPTIONS, INFO, REFER, NOTIFY, SUBSCRIBE, MESSAGE''"

record sip_message =
  m_method :: "string option"
  m_request_uri :: "string option"
  m_status_code :: "u16 option"
  m_headers :: "(string, string list) hmap"
  m_body :: string
  m_raw :: string

definition normalize_header_name :: "string \<Rightarrow> string" where
  "normalize_header_name name =
     (let lower = to_lower (trim name) in
      if lower = ''f'' then ''from''
      else if lower = ''t'' then ''to''
      else if lower = ''v'' then ''via''
      else if lower = ''c'' then ''content-type''
      else if lower = ''l'' then ''content-length''
      else if lower = ''i'' then ''call-id''
      else if lower = ''m'' then ''contact''
      else if lower = ''e'' then ''content-encoding''
      else lower)"

section \<open>The parser\<close>

record parse_state =
  ps_headers :: "(string, string list) hmap"
  ps_in_headers :: bool
  ps_body_lines :: "string list"
  ps_last_key :: "string option"

definition header_values :: "(string, string list) hmap \<Rightarrow> string \<Rightarrow> string list" where
  "header_values hs k = (case hm_get hs k of None \<Rightarrow> [] | Some vs \<Rightarrow> vs)"

definition push_header :: "string \<Rightarrow> string \<Rightarrow> (string, string list) hmap \<Rightarrow> (string, string list) hmap" where
  "push_header name value hs = hm_put name (header_values hs name @ [value]) hs"

definition parse_line :: "string \<Rightarrow> parse_state \<Rightarrow> parse_state" where
  "parse_line line st =
     (if ps_in_headers st then
        (if line = [] then st\<lparr>ps_in_headers := False\<rparr>
         else if prefix '' '' line \<or> prefix [tab] line then
           (case ps_last_key st of
              None \<Rightarrow> st
            | Some key \<Rightarrow>
                (case hm_get (ps_headers st) key of
                   None \<Rightarrow> st
                 | Some vals \<Rightarrow>
                     if vals = [] then st
                     else st\<lparr>ps_headers :=
                       hm_put key (butlast vals @ [last vals @ '' '' @ trim line]) (ps_headers st)\<rparr>))
         else (case find_char (CHR '':'') line of
                 None \<Rightarrow> st
               | Some i \<Rightarrow>
                   (let name = normalize_header_name (take i line);
                        value = trim (drop (i + 1) line)
                    in st\<lparr>ps_headers := push_header name value (ps_headers st),
                          ps_last_key := Some name\<rparr>)))
      else st\<lparr>ps_body_lines := ps_body_lines st @ [line]\<rparr>)"

definition parse :: "string \<Rightarrow> (string, sip_message) outcome" where
  "parse raw =
     (case lines raw of
        [] \<Rightarrow> Err ''Empty SIP message''
      | first_line # rest \<Rightarrow>
          (let parts = splitn 3 (CHR '' '') first_line in
           if length parts < 2 then Err (''Invalid SIP first line: '' @ first_line)
           else
             (let response = prefix ''SIP/2.0'' first_line;
                  st = fold parse_line rest
                    \<lparr>ps_headers = [], ps_in_headers = True, ps_body_lines = [], ps_last_key = None\<rparr>
              in Ok \<lparr>m_method = (if response then None else Some (parts ! 0)),
                     m_request_uri = (if response then None else Some (parts ! 1)),
                     m_status_code = (if response then parse_u16 (parts ! 1) else None),
                     m_headers = ps_headers st,
                     m_body = join crlf (ps_body_lines st),
                     m_raw = raw\<rparr>)))"

section \<open>Header access\<close>

definition header :: "sip_message \<Rightarrow> string \<Rightarrow> string option" where
  "header msg name =
     (case hm_get (m_headers msg) (normalize_header_name name) of
        None \<Rightarrow> None
      | Some vs \<Rightarrow> (case vs of [] \<Rightarrow> None | v # _ \<Rightarrow> Some v))"

definition all_headers_vec :: "sip_message \<Rightarrow> string \<Rightarrow> string list" where
  "all_headers_vec msg name =
     (case hm_get (m_headers msg) (normalize_header_name name) of None \<Rightarrow> [] | Some vs \<Rightarrow> vs)"

definition call_id :: "sip_message \<Rightarrow> string option" where
  "call_id msg = header msg ''call-id''"

definition from_header :: "sip_message \<Rightarrow> string option" where
  "from_header msg = header msg ''from''"

definition to_header :: "sip_message \<Rightarrow> string option" where
  "to_header msg = header msg ''to''"

definition contact :: "sip_message \<Rightarrow> string option" where
  "contact msg = header msg ''contact''"

definition via_headers :: "sip_message \<Rightarrow> string list" where
  "via_headers msg = all_headers_vec msg ''via''"

definition cseq :: "sip_message \<Rightarrow> string option" where
  "cseq msg = header msg ''cseq''"

definition expires :: "sip_message \<Rightarrow> u32 option" where
  "expires msg = (case header msg ''expires'' of None \<Rightarrow> None | Some s \<Rightarrow> parse_u32 s)"

definition user_agent :: "sip_message \<Rightarrow> string option" where
  "user_agent msg = header msg ''user-agent''"

definition authorization :: "sip_message \<Rightarrow> string option" where
  "authorization msg = header msg ''authorization''"

section \<open>URIs\<close>

definition extract_uri :: "string \<Rightarrow> string option" where
  "extract_uri addr =
     (let bracketed =
        (case find_char (CHR ''<'') addr of
           None \<Rightarrow> None
         | Some start \<Rightarrow>
             (case find_char (CHR ''>'') (drop start addr) of
                None \<Rightarrow> None
              | Some end_rel \<Rightarrow> Some (trim (take (end_rel - 1) (drop (start + 1) addr)))))
      in case bracketed of
           Some u \<Rightarrow> Some u
         | None \<Rightarrow>
             (let uri = trim (hd (split_on (CHR '';'') addr)) in
              if prefix ''sip:'' uri \<or> prefix ''sips:'' uri \<or> prefix ''tel:'' uri then Some uri else None))"

definition without_scheme :: "string \<Rightarrow> string" where
  "without_scheme uri = trim_start_matches ''sips:'' (trim_start_matches ''sip:'' uri)"

definition uri_username :: "string \<Rightarrow> string option" where
  "uri_username uri =
     (let w = without_scheme uri in
      if CHR ''@'' \<in> set w then Some (hd (split_on (CHR ''@'') w)) else None)"

definition uri_host :: "string \<Rightarrow> string option" where
  "uri_host uri =
     (let w = without_scheme uri;
          part = (if CHR ''@'' \<in> set w then split_on (CHR ''@'') w ! 1 else w);
          host = hd (split_on (CHR '';'') part)
      in Some (hd (split_on (CHR ''?'') host)))"

section \<open>Digest parameters\<close>

definition is_auth_sep :: "char \<Rightarrow> bool" where
  "is_auth_sep c = (c = CHR '','' \<or> c = CHR '' '' \<or> c = tab)"

text \<open>
  The scan of a quoted value: the value and what follows the closing quote. A backslash skips the
  byte after it; when it is the last byte the position runs past the end of the text and the slice
  of the value panics, which is \<open>None\<close>.
\<close>

fun scan_quoted :: "string \<Rightarrow> (string \<times> string) option" where
  "scan_quoted [] = Some ([], [])"
| "scan_quoted [c] =
     (if c = quote then Some ([], []) else if c = backslash then None else Some ([c], []))"
| "scan_quoted (c # d # s) =
     (if c = quote then Some ([], d # s)
      else if c = backslash
      then (case scan_quoted s of None \<Rightarrow> None | Some (v, r) \<Rightarrow> Some (c # d # v, r))
      else (case scan_quoted (d # s) of None \<Rightarrow> None | Some (v, r) \<Rightarrow> Some (c # v, r)))"

lemma scan_quoted_suffix: "scan_quoted s = Some (v, r) \<Longrightarrow> suffix r s"
  by (induction s arbitrary: v r rule: scan_quoted.induct)
    (auto split: if_splits option.splits intro: suffix_ConsI)

function auth_params_loop :: "string \<Rightarrow> (string, string) hmap \<Rightarrow> (string, string) hmap option" where
  "auth_params_loop s params =
     (let s1 = dropWhile is_auth_sep s in
      case find_char (CHR ''='') s1 of
        None \<Rightarrow> Some params
      | Some i \<Rightarrow>
          (let key = to_lower (trim (take i s1));
               s2 = drop (i + 1) s1
           in if s2 \<noteq> [] \<and> hd s2 = quote
              then (case scan_quoted (tl s2) of
                      None \<Rightarrow> None
                    | Some (val, s3) \<Rightarrow> auth_params_loop s3 (hm_put key val params))
              else auth_params_loop (dropWhile (\<lambda>c. c \<noteq> CHR '','') s2)
                     (hm_put key (trim (takeWhile (\<lambda>c. c \<noteq> CHR '','') s2)) params)))"
  by pat_completeness auto
termination
proof (relation "measure (\<lambda>(s, params). length s)", goal_cases)
  case (2 s params s1 i key s2 p val s3)
  then have "i < length s1" "length s1 \<le> length s"
    by (auto dest: find_char_SomeD simp: length_dropWhile_le)
  moreover have "length s3 \<le> length (tl s2)"
    using 2 by (metis scan_quoted_suffix suffix_length_le)
  ultimately show ?case using 2 by auto
next
  case (3 s params s1 i key s2)
  then have "i < length s1" "length s1 \<le> length s"
    by (auto dest: find_char_SomeD simp: length_dropWhile_le)
  moreover have "length (dropWhile (\<lambda>c. c \<noteq> CHR '','') s2) \<le> length s2"
    by (rule length_dropWhile_le)
  ultimately show ?case using 3 by auto
qed simp

declare auth_params_loop.simps [simp del]

text \<open>The result is \<open>None\<close> when the function panics.\<close>

definition parse_auth_params :: "string \<Rightarrow> (string, string) hmap option" where
  "parse_auth_params header_value =
     (case find_char (CHR '' '') header_value of
        None \<Rightarrow> Some []
      | Some pos \<Rightarrow> auth_params_loop (trim (drop (pos + 1) header_value)) [])"

definition make_www_authenticate :: "string \<Rightarrow> string \<Rightarrow> string" where
  "make_www_authenticate realm nonce =
     ''Digest realm='' @ [quote] @ realm @ [quote] @ '', nonce='' @ [quote] @ nonce @ [quote] @
     '', algorithm=MD5, qop='' @ [quote] @ ''auth'' @ [quote]"

section \<open>Removing the proxy's Via\<close>

definition is_proxy_via_line :: "string \<Rightarrow> string \<Rightarrow> bool" where
  "is_proxy_via_line sip_domain line =
     (let lower = to_lower (trim_start line) in
      (prefix ''via:'' lower \<or> prefix ''v:'' lower) \<and> contains_str sip_domain line)"

fun strip_via_lines :: "string \<Rightarrow> string list \<Rightarrow> string list" where
  "strip_via_lines sip_domain [] = []"
| "strip_via_lines sip_domain (line # rest) =
     (if is_proxy_via_line sip_domain line then rest else line # strip_via_lines sip_domain rest)"

definition strip_proxy_via :: "string \<Rightarrow> string \<Rightarrow> string" where
  "strip_proxy_via raw sip_domain = join crlf (strip_via_lines sip_domain (split_crlf raw))"

section \<open>Parsing what was printed\<close>

text \<open>
  A message as every builder of the program prints it: first line, header lines, blank line, body.
\<close>

definition render :: "string \<Rightarrow> (string \<times> string) list \<Rightarrow> string \<Rightarrow> string" where
  "render first_line hs bd =
     first_line @ crlf @ concat (map (\<lambda>(n, v). n @ '': '' @ v @ crlf) hs) @ crlf @ bd"

definition wf_header :: "string \<times> string \<Rightarrow> bool" where
  "wf_header h =
     (fst h \<noteq> [] \<and> hd (fst h) \<noteq> CHR '' '' \<and> hd (fst h) \<noteq> tab \<and> CHR '':'' \<notin> set (fst h) \<and>
      lf \<notin> set (fst h) \<and> lf \<notin> set (snd h))"

definition values_of :: "(string \<times> string) list \<Rightarrow> string \<Rightarrow> string list" where
  "values_of hs k = map snd (filter (\<lambda>(n, v). normalize_header_name n = k) hs)"

lemma values_of_simps [simp]:
  "values_of [] k = []"
  "values_of ((n, v) # hs) k = (if normalize_header_name n = k then v # values_of hs k else values_of hs k)"
  "values_of (hs @ hs') k = values_of hs k @ values_of hs' k"
  by (simp_all add: values_of_def)

lemma header_values_push:
  "header_values (push_header n v hs) k = header_values hs k @ (if k = n then [v] else [])"
  by (simp add: header_values_def push_header_def hm.get_put)

lemma hm_wf_push [simp]: "hm_wf hs \<Longrightarrow> hm_wf (push_header n v hs)"
  by (simp add: push_header_def hm.wf_put)

lemma parse_line_header:
  assumes "wf_header (n, v)" "ps_in_headers st"
  shows "parse_line (n @ '': '' @ v) st =
    st\<lparr>ps_headers := push_header (normalize_header_name n) (trim v) (ps_headers st),
       ps_last_key := Some (normalize_header_name n)\<rparr>"
proof -
  have n: "n \<noteq> []" "hd n \<noteq> CHR '' ''" "hd n \<noteq> tab" "CHR '':'' \<notin> set n"
    using assms(1) by (auto simp: wf_header_def)
  have f: "find_char (CHR '':'') (n @ '': '' @ v) = Some (length n)"
    using find_char_append [of "CHR '':''" n "CHR '' '' # v"] n by simp
  have "\<not> prefix '' '' (n @ '': '' @ v)" "\<not> prefix [tab] (n @ '': '' @ v)"
    using n by (cases n; simp)+
  then show ?thesis
    using assms(2) n f by (simp add: parse_line_def Let_def trim_space)
qed

lemma parse_lines_headers:
  assumes "\<forall>h \<in> set hs. wf_header h" "ps_in_headers st"
  shows "\<exists>st'. fold parse_line (map (\<lambda>(n, v). n @ '': '' @ v) hs) st = st' \<and>
    ps_in_headers st' \<and> ps_body_lines st' = ps_body_lines st \<and>
    (hm_wf (ps_headers st) \<longrightarrow> hm_wf (ps_headers st')) \<and>
    (\<forall>k. header_values (ps_headers st') k = header_values (ps_headers st) k @ map trim (values_of hs k))"
  using assms
proof (induction hs arbitrary: st)
  case (Cons h hs)
  obtain n v where h: "h = (n, v)" by (cases h)
  let ?st = "st\<lparr>ps_headers := push_header (normalize_header_name n) (trim v) (ps_headers st),
       ps_last_key := Some (normalize_header_name n)\<rparr>"
  have "parse_line (n @ '': '' @ v) st = ?st"
    using Cons.prems h by (intro parse_line_header) auto
  then show ?case
    using Cons.IH [of ?st] Cons.prems by (auto simp: h header_values_push)
qed auto

lemma parse_lines_body:
  "\<not> ps_in_headers st \<Longrightarrow>
   fold parse_line ls st = st\<lparr>ps_body_lines := ps_body_lines st @ ls\<rparr>"
  by (induction ls arbitrary: st) (auto simp: parse_line_def)

lemma lines_render:
  assumes "lf \<notin> set first_line" "\<forall>h \<in> set hs. wf_header h"
  shows "lines (render first_line hs bd) =
    first_line # map (\<lambda>(n, v). n @ '': '' @ v) hs @ [] # lines bd"
proof -
  let ?ls = "map (\<lambda>(n, v). n @ '': '' @ v) hs"
  have "concat (map (\<lambda>(n, v). n @ '': '' @ v @ crlf) hs) = concat (map (\<lambda>l. l @ crlf) ?ls)"
    by (induction hs) auto
  then have "render first_line hs bd =
      first_line @ cr # lf # (concat (map (\<lambda>l. l @ crlf) ?ls) @ cr # lf # bd)"
    by (simp add: render_def)
  moreover have "lines (concat (map (\<lambda>l. l @ crlf) ?ls) @ cr # lf # bd) = ?ls @ [] # lines bd"
    using assms(2) lines_concat_crlf [of ?ls "cr # lf # bd"] lines_blank [of bd]
    by (fastforce simp: wf_header_def simp del: map_map)
  ultimately show ?thesis
    using assms(1) by (simp add: lines_crlf del: map_map)
qed

text \<open>The parser reads back every message a builder prints, header by header.\<close>

lemma parse_render:
  assumes "lf \<notin> set first_line" "CHR '' '' \<in> set first_line" "\<forall>h \<in> set hs. wf_header h"
  obtains msg where "parse (render first_line hs bd) = Ok msg"
    "\<And>name. all_headers_vec msg name = map trim (values_of hs (normalize_header_name name))"
    "m_body msg = join crlf (lines bd)"
    "m_raw msg = render first_line hs bd"
    "hm_wf (m_headers msg)"
    "m_method msg = (if prefix ''SIP/2.0'' first_line then None
       else Some (splitn 3 (CHR '' '') first_line ! 0))"
    "m_request_uri msg = (if prefix ''SIP/2.0'' first_line then None
       else Some (splitn 3 (CHR '' '') first_line ! 1))"
    "m_status_code msg = (if prefix ''SIP/2.0'' first_line
       then parse_u16 (splitn 3 (CHR '' '') first_line ! 1) else None)"
proof -
  let ?st = "\<lparr>ps_headers = [], ps_in_headers = True, ps_body_lines = [], ps_last_key = None\<rparr>"
  obtain i where "find_char (CHR '' '') first_line = Some i"
    using assms(2) by (metis find_char_None_iff not_None_eq)
  then have len: "\<not> length (splitn 3 (CHR '' '') first_line) < 2"
    by (auto simp: numeral_3_eq_3 split: option.splits)
  obtain st' where st': "fold parse_line (map (\<lambda>(n, v). n @ '': '' @ v) hs) ?st = st'"
    "ps_in_headers st'" "ps_body_lines st' = []" "hm_wf (ps_headers st')"
    "\<forall>k. header_values (ps_headers st') k = map trim (values_of hs k)"
    using parse_lines_headers [OF assms(3), of ?st] by (auto simp: header_values_def)
  let ?res = "\<lparr>m_method = if prefix ''SIP/2.0'' first_line then None
       else Some (splitn 3 (CHR '' '') first_line ! 0),
     m_request_uri = if prefix ''SIP/2.0'' first_line then None
       else Some (splitn 3 (CHR '' '') first_line ! 1),
     m_status_code = if prefix ''SIP/2.0'' first_line
       then parse_u16 (splitn 3 (CHR '' '') first_line ! 1) else None,
     m_headers = ps_headers st', m_body = join crlf (lines bd), m_raw = render first_line hs bd\<rparr>"
  have "parse_line [] st' = st'\<lparr>ps_in_headers := False\<rparr>"
    using st' by (simp add: parse_line_def)
  then have "parse (render first_line hs bd) = Ok ?res"
    using len st' by (simp add: parse_def lines_render [OF assms(1,3)] Let_def parse_lines_body)
  moreover have "all_headers_vec ?res name = map trim (values_of hs (normalize_header_name name))" for name
    using st' by (simp add: all_headers_vec_def header_values_def)
  ultimately show ?thesis using that [of ?res] st' by simp
qed

lemma header_eq_hd:
  "header msg name = (case all_headers_vec msg name of [] \<Rightarrow> None | v # _ \<Rightarrow> Some v)"
  by (simp add: header_def all_headers_vec_def split: option.splits)

section \<open>Lemmas on digest parameters\<close>

lemma scan_quoted_panics: "scan_quoted s = None \<Longrightarrow> s \<noteq> [] \<and> last s = backslash"
  by (induction s rule: scan_quoted.induct) (auto split: if_splits option.splits)

lemma scan_quoted_plain:
  "quote \<notin> set v \<Longrightarrow> backslash \<notin> set v \<Longrightarrow> scan_quoted (v @ quote # t) = Some (v, t)"
proof (induction v)
  case Nil
  then show ?case by (cases t) auto
next
  case (Cons c v)
  then show ?case by (cases "v @ quote # t") auto
qed

lemma scan_quoted_dangling:
  "quote \<notin> set v \<Longrightarrow> backslash \<notin> set v \<Longrightarrow> scan_quoted (v @ [backslash]) = None"
proof (induction v)
  case (Cons c v)
  then show ?case by (cases "v @ [backslash]") auto
qed simp

definition clean_end :: "string \<Rightarrow> bool" where
  "clean_end s = (s = [] \<or> last s \<noteq> backslash)"

lemma clean_end_suffix: "clean_end s \<Longrightarrow> suffix t s \<Longrightarrow> clean_end t"
  by (auto simp: clean_end_def suffix_def)

lemma auth_params_loop_total:
  "clean_end s \<Longrightarrow> auth_params_loop s params \<noteq> None"
proof (induction s params rule: auth_params_loop.induct)
  case (1 s params)
  let ?s1 = "dropWhile is_auth_sep s"
  have s1: "suffix ?s1 s" by (rule suffix_dropWhile)
  show ?case
  proof (cases "find_char (CHR ''='') ?s1")
    case None
    then show ?thesis by (subst auth_params_loop.simps) (simp add: Let_def)
  next
    case (Some i)
    let ?s2 = "drop (i + 1) ?s1"
    have s2: "suffix ?s2 s" using s1 suffix_drop suffix_order.trans by blast
    show ?thesis
    proof (cases "?s2 \<noteq> [] \<and> hd ?s2 = quote")
      case True
      have tl: "suffix (tl ?s2) s" using s2 suffix_tl suffix_order.trans by blast
      have "scan_quoted (tl ?s2) \<noteq> None"
        using scan_quoted_panics [of "tl ?s2"] clean_end_suffix [OF 1(3) tl]
        unfolding clean_end_def by blast
      then obtain v s3 where v: "scan_quoted (tl ?s2) = Some (v, s3)" by auto
      then have "suffix s3 s" using scan_quoted_suffix tl suffix_order.trans by blast
      then have "clean_end s3" by (rule clean_end_suffix [OF 1(3)])
      with 1(1) [OF refl Some refl refl True v] show ?thesis
        using Some True v by (subst auth_params_loop.simps) (simp add: Let_def)
    next
      case False
      let ?s3 = "dropWhile (\<lambda>c. c \<noteq> CHR '','') ?s2"
      have "suffix ?s3 s" using s2 suffix_dropWhile suffix_order.trans by blast
      then have "clean_end ?s3" by (rule clean_end_suffix [OF 1(3)])
      with 1(2) [OF refl Some refl refl False] show ?thesis
        using Some False by (subst auth_params_loop.simps) (auto simp: Let_def)
    qed
  qed
qed

text \<open>A parameter name as the loop reads it: no separator in front, no equals sign.\<close>

definition wf_param_key :: "string \<Rightarrow> bool" where
  "wf_param_key k = (k \<noteq> [] \<and> \<not> is_auth_sep (hd k) \<and> CHR ''='' \<notin> set k \<and> trimmed k)"

definition wf_param_value :: "string \<Rightarrow> bool" where
  "wf_param_value v = (quote \<notin> set v \<and> backslash \<notin> set v)"

lemma auth_params_skip:
  assumes "list_all is_auth_sep seps" "wf_param_key k"
  shows "dropWhile is_auth_sep (seps @ k @ CHR ''='' # t) = k @ CHR ''='' # t"
    "find_char (CHR ''='') (k @ CHR ''='' # t) = Some (length k)"
proof -
  have "dropWhile is_auth_sep (k @ CHR ''='' # t) = k @ CHR ''='' # t"
    using assms(2) by (cases k) (auto simp: wf_param_key_def)
  then show "dropWhile is_auth_sep (seps @ k @ CHR ''='' # t) = k @ CHR ''='' # t"
    using assms(1) by (simp add: dropWhile_all list_all_iff)
  show "find_char (CHR ''='') (k @ CHR ''='' # t) = Some (length k)"
    using assms(2) by (simp add: find_char_append wf_param_key_def)
qed

lemma auth_params_quoted:
  assumes "list_all is_auth_sep seps" "wf_param_key k" "wf_param_value v"
  shows "auth_params_loop (seps @ k @ CHR ''='' # quote # v @ quote # t) params =
    auth_params_loop t (hm_put (to_lower k) v params)"
  using assms auth_params_skip [OF assms(1,2), of "quote # v @ quote # t"]
  by (subst auth_params_loop.simps)
    (simp add: Let_def scan_quoted_plain wf_param_value_def wf_param_key_def trim_trimmed)

lemma auth_params_unquoted:
  assumes "list_all is_auth_sep seps" "wf_param_key k" "trimmed v" "quote \<notin> set v" "CHR '','' \<notin> set v"
  shows "auth_params_loop (seps @ k @ CHR ''='' # v @ CHR '','' # t) params =
    auth_params_loop (CHR '','' # t) (hm_put (to_lower k) v params)"
proof -
  have "hd (v @ CHR '','' # t) \<noteq> quote" using assms(4) by (cases v) auto
  moreover have "takeWhile (\<lambda>c. c \<noteq> CHR '','') (v @ CHR '','' # t) = v"
    using assms(5) by (subst takeWhile_all) auto
  moreover have "dropWhile (\<lambda>c. c \<noteq> CHR '','') (v @ CHR '','' # t) = CHR '','' # t"
    using assms(5) by (subst dropWhile_all) auto
  ultimately show ?thesis
    using assms auth_params_skip [OF assms(1,2), of "v @ CHR '','' # t"]
    by (subst auth_params_loop.simps) (simp add: Let_def wf_param_key_def trim_trimmed)
qed

lemma auth_params_end [simp]: "auth_params_loop [] params = Some params"
  by (subst auth_params_loop.simps) (simp add: Let_def)

definition show_param :: "string \<times> string \<Rightarrow> string" where
  "show_param p = fst p @ ''='' @ [quote] @ snd p @ [quote]"

lemma auth_params_join:
  assumes "\<forall>p \<in> set ps. wf_param_key (fst p) \<and> wf_param_value (snd p)" "list_all is_auth_sep seps"
  shows "auth_params_loop (seps @ join '', '' (map show_param ps)) params =
    Some (fold (\<lambda>p. hm_put (to_lower (fst p)) (snd p)) ps params)"
  using assms
proof (induction ps arbitrary: seps params)
  case Nil
  then have "dropWhile is_auth_sep seps = []" by (simp add: list_all_iff)
  then show ?case by (subst auth_params_loop.simps) (simp add: Let_def del: dropWhile_eq_Nil_conv)
next
  case (Cons p ps)
  have sep: "list_all is_auth_sep '', ''" by (simp add: is_auth_sep_def)
  show ?case
  proof (cases ps)
    case Nil
    then show ?thesis
      using Cons.prems auth_params_quoted [of seps "fst p" "snd p" "[]" params]
      by (simp add: show_param_def)
  next
    case (Cons q qs)
    have "auth_params_loop (seps @ join '', '' (map show_param (p # ps))) params =
        auth_params_loop ('', '' @ join '', '' (map show_param ps)) (hm_put (to_lower (fst p)) (snd p) params)"
      using Cons.prems Cons auth_params_quoted [of seps "fst p" "snd p" "'', '' @ join '', '' (map show_param ps)" params]
      by (simp add: show_param_def)
    then show ?thesis
      using Cons.IH [of "'', ''" "hm_put (to_lower (fst p)) (snd p) params"] Cons.prems sep by simp
  qed
qed

section \<open>Lemmas on the removal of the Via\<close>

lemma strip_via_lines_first:
  assumes "list_all (\<lambda>l. \<not> is_proxy_via_line d l) pre" "is_proxy_via_line d l"
  shows "strip_via_lines d (pre @ l # post) = pre @ post"
  using assms by (induction pre) auto

lemma strip_via_lines_none:
  "list_all (\<lambda>l. \<not> is_proxy_via_line d l) ls \<Longrightarrow> strip_via_lines d ls = ls"
  by (induction ls) auto

lemma join_crlf_blocks:
  "ts \<noteq> [] \<Longrightarrow> join crlf (ls @ ts) = concat (map (\<lambda>l. l @ crlf) ls) @ join crlf ts"
proof (induction ls)
  case (Cons l ls)
  then show ?case by (cases "ls @ ts") auto
qed simp

definition header_line :: "string \<times> string \<Rightarrow> string" where
  "header_line h = fst h @ '': '' @ snd h"

lemma render_blocks:
  "render first hs bd = concat (map (\<lambda>l. l @ crlf) (first # map header_line hs @ [[]])) @ bd"
  by (simp add: render_def header_line_def split_def comp_def)

lemma split_crlf_blocks:
  assumes "\<forall>l \<in> set ls. lf \<notin> set l"
  shows "split_crlf (concat (map (\<lambda>l. l @ crlf) ls) @ t) = ls @ split_crlf t"
  using assms
proof (induction ls)
  case (Cons l ls)
  then show ?case using split_crlf_append [of l "concat (map (\<lambda>l. l @ crlf) ls) @ t"] by simp
qed simp

lemma strip_proxy_via_render:
  assumes "list_all (\<lambda>l. \<not> is_proxy_via_line d l) (first # map header_line pre)"
    and "is_proxy_via_line d (header_line v)"
    and "\<forall>l \<in> set (first # map header_line (pre @ v # post)). lf \<notin> set l"
  shows "strip_proxy_via (render first (pre @ v # post) bd) d = render first (pre @ post) bd"
proof -
  let ?ls = "first # map header_line (pre @ v # post) @ [[]]"
  have "split_crlf (render first (pre @ v # post) bd) = ?ls @ split_crlf bd"
    unfolding render_blocks using assms(3) by (intro split_crlf_blocks) auto
  also have "\<dots> = (first # map header_line pre) @ header_line v # (map header_line post @ [] # split_crlf bd)"
    by simp
  finally have "strip_via_lines d (split_crlf (render first (pre @ v # post) bd)) =
      (first # map header_line (pre @ post) @ [[]]) @ split_crlf bd"
    using strip_via_lines_first [OF assms(1,2)] by simp
  then show ?thesis
    unfolding strip_proxy_via_def render_blocks
    by (simp only: join_crlf_blocks [OF split_crlf_ne] join_split_crlf)
qed

lemma join_params_last:
  "ps \<noteq> [] \<Longrightarrow> join '', '' (map show_param ps) \<noteq> [] \<and> last (join '', '' (map show_param ps)) = quote"
proof (induction ps)
  case (Cons p ps)
  then show ?case by (cases ps) (auto simp: show_param_def)
qed simp

lemma trimmed_join_params:
  assumes "ps \<noteq> []" "\<forall>p \<in> set ps. wf_param_key (fst p)"
  shows "trimmed (join '', '' (map show_param ps))"
proof -
  have "hd (join '', '' (map show_param ps)) = hd (fst (hd ps))"
    using assms by (cases ps; cases "tl ps") (auto simp: show_param_def wf_param_key_def)
  moreover have "\<not> is_whitespace (hd (fst (hd ps)))"
    using assms by (cases ps) (auto simp: wf_param_key_def trimmed_def)
  ultimately show ?thesis
    using join_params_last [OF assms(1)] by (auto simp: trimmed_def is_whitespace_def)
qed

section \<open>The properties\<close>

text \<open>
  reading digest parameters returns the list a client printed. Any list of parameters with
  quoted values (no quote and no backslash inside), printed behind the scheme and separated by
  commas as RFC 2617 writes them, is read back under its lower-cased names, a later parameter
  replacing an earlier one of the same name.
\<close>

theorem parse_auth_params_roundtrip:
  assumes "CHR '' '' \<notin> set scheme" "ps \<noteq> []"
    and "\<forall>p \<in> set ps. wf_param_key (fst p) \<and> wf_param_value (snd p)"
  shows "parse_auth_params (scheme @ '' '' @ join '', '' (map show_param ps)) =
    Some (fold (\<lambda>p. hm_put (to_lower (fst p)) (snd p)) ps [])"
proof -
  let ?t = "join '', '' (map show_param ps)"
  have "trimmed ?t" by (rule trimmed_join_params) (use assms(2,3) in auto)
  moreover have "find_char (CHR '' '') (scheme @ CHR '' '' # ?t) = Some (length scheme)"
    using assms(1) by (rule find_char_append)
  ultimately show ?thesis
    using auth_params_join [of ps "[]" "[]"] assms(3)
    by (simp add: parse_auth_params_def trim_trimmed)
qed

theorem parse_auth_params_roundtrip_witness:
  "parse_auth_params (''Digest '' @ join '', '' (map show_param [(''Username'', ''bob''), (''nonce'', ''a=b'')])) =
     Some (fold (\<lambda>p. hm_put (to_lower (fst p)) (snd p)) [(''Username'', ''bob''), (''nonce'', ''a=b'')] [])"
  using parse_auth_params_roundtrip [of "''Digest''" "[(''Username'', ''bob''), (''nonce'', ''a=b'')]"]
  by (simp add: wf_param_key_def wf_param_value_def is_auth_sep_def trimmed_def is_whitespace_def)

text \<open>
  the challenge the server prints can be read by its own parameter parser: realm and nonce
  come back as they were given, with the MD5 algorithm and quality of protection \<open>auth\<close>.
\<close>

theorem make_www_authenticate_roundtrip:
  assumes "wf_param_value realm" "wf_param_value nonce"
  shows "\<exists>m. parse_auth_params (make_www_authenticate realm nonce) = Some m \<and>
    hm_get m ''realm'' = Some realm \<and> hm_get m ''nonce'' = Some nonce \<and>
    hm_get m ''algorithm'' = Some ''MD5'' \<and> hm_get m ''qop'' = Some ''auth''"
proof -
  let ?t3 = "'', qop='' @ [quote] @ ''auth'' @ [quote]"
  let ?t2 = "'', algorithm='' @ ''MD5'' @ ?t3"
  let ?t1 = "'', nonce='' @ [quote] @ nonce @ [quote] @ ?t2"
  let ?t = "''realm='' @ [quote] @ realm @ [quote] @ ?t1"
  note wf = wf_param_key_def wf_param_value_def is_auth_sep_def trimmed_def is_whitespace_def
  have l: "to_lower ''realm'' = ''realm''" "to_lower ''nonce'' = ''nonce''"
    "to_lower ''algorithm'' = ''algorithm''" "to_lower ''qop'' = ''qop''"
    by code_simp+
  have 1: "auth_params_loop ?t [] = auth_params_loop ?t1 (hm_put ''realm'' realm [])"
    using auth_params_quoted [of "[]" "''realm''" realm ?t1 "[]"] assms by (simp add: wf l)
  have 2: "auth_params_loop ?t1 p = auth_params_loop ?t2 (hm_put ''nonce'' nonce p)" for p
    using auth_params_quoted [of "'', ''" "''nonce''" nonce ?t2 p] assms by (simp add: wf l)
  have 3: "auth_params_loop ?t2 p = auth_params_loop ?t3 (hm_put ''algorithm'' ''MD5'' p)" for p
    using auth_params_unquoted [of "'', ''" "''algorithm''" "''MD5''" "tl ?t3" p] by (simp add: wf l)
  have 4: "auth_params_loop ?t3 p = Some (hm_put ''qop'' ''auth'' p)" for p
    using auth_params_quoted [of "'', ''" "''qop''" "''auth''" "[]" p] by (simp add: wf l)
  have "trimmed ?t" by (simp add: trimmed_def is_whitespace_def)
  then have "parse_auth_params (make_www_authenticate realm nonce) = auth_params_loop ?t []"
    using find_char_append [of "CHR '' ''" "''Digest''" ?t]
    by (simp add: parse_auth_params_def make_www_authenticate_def trim_trimmed)
  also have "\<dots> = Some (hm_put ''qop'' ''auth'' (hm_put ''algorithm'' ''MD5''
      (hm_put ''nonce'' nonce (hm_put ''realm'' realm []))))"
    using 1 2 3 4 by simp
  finally show ?thesis by (simp add: hm.get_put)
qed

theorem make_www_authenticate_roundtrip_witness:
  "\<exists>m. parse_auth_params (make_www_authenticate ''sip.example.com'' ''0123abcd'') = Some m \<and>
    hm_get m ''realm'' = Some ''sip.example.com'' \<and> hm_get m ''nonce'' = Some ''0123abcd''"
  using make_www_authenticate_roundtrip [of "''sip.example.com''" "''0123abcd''"]
  by (auto simp: wf_param_value_def)

text \<open>
  the parameter parser returns normally whenever the header value, cut of trailing blanks,
  does not end in a backslash.
\<close>

theorem parse_auth_params_total:
  assumes "trim v = [] \<or> last (trim v) \<noteq> backslash"
  shows "\<exists>m. parse_auth_params v = Some m"
proof (cases "find_char (CHR '' '') v")
  case None
  then show ?thesis by (simp add: parse_auth_params_def)
next
  case (Some pos)
  then have v: "v = take pos v @ CHR '' '' # drop (Suc pos) v"
    by (metis find_char_split)
  have "clean_end (trim (drop (Suc pos) v))"
    using assms last_trim_suffix [where s = "take pos v @ '' ''" and t = "drop (Suc pos) v"]
    by (subst (asm) (1 2) v) (auto simp: clean_end_def)
  then show ?thesis
    using Some auth_params_loop_total [of "trim (drop (Suc pos) v)" "[]"]
    by (simp add: parse_auth_params_def)
qed

theorem parse_auth_params_total_witness:
  "\<exists>m. parse_auth_params (''Digest response='' @ [quote] @ ''a'' @ [backslash] @ ''b'' @ [quote]) = Some m"
  by (rule parse_auth_params_total) code_simp

text \<open>
  a header value whose last parameter is a quoted text ending in a lone backslash makes the
  parser panic (the slice end is one past the end of the text), so a remote peer can panic the task
  that handles its request.
\<close>

theorem parse_auth_params_panics:
  assumes "CHR '' '' \<notin> set scheme" "wf_param_key k" "wf_param_value v"
  shows "parse_auth_params (scheme @ '' '' @ k @ ''='' @ [quote] @ v @ [backslash]) = None"
proof -
  let ?t = "k @ ''='' @ [quote] @ v @ [backslash]"
  have "trimmed ?t"
    using assms(2) by (auto simp: trimmed_def wf_param_key_def is_whitespace_def)
  then have "parse_auth_params (scheme @ '' '' @ ?t) = auth_params_loop ?t []"
    using find_char_append [OF assms(1), of ?t] by (simp add: parse_auth_params_def trim_trimmed)
  also have "\<dots> = None"
    using auth_params_skip [of "[]" k "quote # v @ [backslash]"] assms(2,3)
    by (subst auth_params_loop.simps) (simp add: Let_def scan_quoted_dangling wf_param_value_def)
  finally show ?thesis .
qed

theorem parse_auth_params_panics_witness:
  "parse_auth_params (''Digest '' @ ''username'' @ ''='' @ [quote] @ ''bob'' @ [backslash]) = None"
  using parse_auth_params_panics [of "''Digest''" "''username''" "''bob''"]
  by (simp add: wf_param_key_def wf_param_value_def is_auth_sep_def trimmed_def is_whitespace_def)

text \<open>
  removing the proxy's Via from a response takes out exactly the topmost Via line that names
  the proxy's domain: the status line, every other header (a second matching Via included), their
  order and the body, whatever it holds, are unchanged.
\<close>

theorem strip_proxy_via_removes_one:
  assumes "list_all (\<lambda>l. \<not> is_proxy_via_line d l) (first # map header_line pre)"
    and "is_proxy_via_line d (header_line v)"
    and "\<forall>l \<in> set (first # map header_line (pre @ v # post)). lf \<notin> set l"
  shows "strip_proxy_via (render first (pre @ v # post) bd) d = render first (pre @ post) bd"
  by (rule strip_proxy_via_render [OF assms])

theorem strip_proxy_via_removes_one_witness:
  "strip_proxy_via (render ''SIP/2.0 200 OK'' ([] @ (''Via'', ''SIP/2.0/UDP sip.air32.cn:5060'') #
      [(''Via'', ''SIP/2.0/UDP 10.0.0.1''), (''To'', ''<sip:a@b>'')]) ''v=0'') ''sip.air32.cn'' =
   render ''SIP/2.0 200 OK'' ([] @ [(''Via'', ''SIP/2.0/UDP 10.0.0.1''), (''To'', ''<sip:a@b>'')]) ''v=0''"
  by (rule strip_proxy_via_removes_one) code_simp+

end
