(* ===== verification/Sip_Response.thy ===== *)
theory Sip_Response
  imports Sip_Message
begin

text \<open>
  \<open>backend/src/sip/response.rs\<close>: the response builder, the skeleton response that copies the
  dialog headers of a request, and the conversion of a handler's error into a 500 response. The
  properties relate the printer to the parser of \<open>Sip_Message\<close>.
\<close>

section \<open>The builder\<close>

record response_builder =
  rb_status_code :: u16
  rb_reason :: string
  rb_headers :: "(string \<times> string) list"
  rb_body :: string

definition response_new :: "u16 \<Rightarrow> string \<Rightarrow> response_builder" where
  "response_new status_code reason =
     \<lparr>rb_status_code = status_code, rb_reason = reason, rb_headers = [], rb_body = []\<rparr>"

definition add_header :: "string \<Rightarrow> string \<Rightarrow> response_builder \<Rightarrow> response_builder" where
  "add_header name val b = b\<lparr>rb_headers := rb_headers b @ [(name, val)]\<rparr>"

definition set_body :: "string \<Rightarrow> response_builder \<Rightarrow> response_builder" where
  "set_body bd b = b\<lparr>rb_body := bd\<rparr>"

definition build :: "response_builder \<Rightarrow> string" where
  "build b =
     (let content_len = length (rb_body b);
          start = ''SIP/2.0 '' @ show_uint (rb_status_code b) @ '' '' @ rb_reason b @ crlf;
          msg = foldl (\<lambda>acc (name, val). acc @ name @ '': '' @ val @ crlf) start (rb_headers b)
      in msg @ ''Content-Length: '' @ show_nat content_len @ crlf @ crlf @ rb_body b)"

definition add_opt :: "string \<Rightarrow> string option \<Rightarrow> response_builder \<Rightarrow> response_builder" where
  "add_opt name v b = (case v of None \<Rightarrow> b | Some x \<Rightarrow> add_header name x b)"

definition base_response :: "sip_message \<Rightarrow> u16 \<Rightarrow> string \<Rightarrow> response_builder" where
  "base_response req status_code reason =
     (let b0 = response_new status_code reason;
          b1 = fold (add_header ''Via'') (via_headers req) b0;
          b2 = add_opt ''From'' (from_header req) b1;
          b3 = add_opt ''To'' (to_header req) b2;
          b4 = add_opt ''Call-ID'' (call_id req) b3;
          b5 = add_opt ''CSeq'' (cseq req) b4
      in add_header ''Server'' ''SIP3/0.1.0'' b5)"

definition finalize_response ::
  "sip_message \<Rightarrow> (string, string) outcome \<Rightarrow> (string, string option) outcome" where
  "finalize_response msg response =
     (case response of
        Ok resp \<Rightarrow> Ok (Some resp)
      | Err e \<Rightarrow> Ok (Some (build (base_response msg 500 ''Internal Server Error'')))
      | Panic \<Rightarrow> Panic)"

section \<open>Building is rendering\<close>

lemma build_render:
  "build b = render (''SIP/2.0 '' @ show_uint (rb_status_code b) @ '' '' @ rb_reason b)
     (rb_headers b @ [(''Content-Length'', show_nat (length (rb_body b)))]) (rb_body b)"
proof -
  have "foldl (\<lambda>acc (name, val). acc @ name @ '': '' @ val @ crlf) s hs =
      s @ concat (map (\<lambda>(n, v). n @ '': '' @ v @ crlf) hs)" for s hs
    by (induction hs arbitrary: s) (auto simp: split_def)
  from this [of "''SIP/2.0 '' @ show_uint (rb_status_code b) @ '' '' @ rb_reason b @ crlf"]
  show ?thesis by (simp add: build_def render_def Let_def)
qed

lemma builder_fields [simp]:
  "rb_status_code (add_header n v b) = rb_status_code b" "rb_reason (add_header n v b) = rb_reason b"
  "rb_body (add_header n v b) = rb_body b" "rb_headers (add_header n v b) = rb_headers b @ [(n, v)]"
  "rb_status_code (add_opt n w b) = rb_status_code b" "rb_reason (add_opt n w b) = rb_reason b"
  "rb_body (add_opt n w b) = rb_body b"
  "rb_headers (add_opt n w b) = rb_headers b @ (case w of None \<Rightarrow> [] | Some v \<Rightarrow> [(n, v)])"
  by (simp_all add: add_header_def add_opt_def split: option.splits)

lemma fold_add_header [simp]:
  "rb_status_code (fold (add_header n) vs b) = rb_status_code b"
  "rb_reason (fold (add_header n) vs b) = rb_reason b"
  "rb_body (fold (add_header n) vs b) = rb_body b"
  "rb_headers (fold (add_header n) vs b) = rb_headers b @ map (Pair n) vs"
  by (induction vs arbitrary: b) auto

definition dialog_headers :: "sip_message \<Rightarrow> (string \<times> string) list" where
  "dialog_headers req =
     map (Pair ''Via'') (via_headers req) @
     (case from_header req of None \<Rightarrow> [] | Some v \<Rightarrow> [(''From'', v)]) @
     (case to_header req of None \<Rightarrow> [] | Some v \<Rightarrow> [(''To'', v)]) @
     (case call_id req of None \<Rightarrow> [] | Some v \<Rightarrow> [(''Call-ID'', v)]) @
     (case cseq req of None \<Rightarrow> [] | Some v \<Rightarrow> [(''CSeq'', v)])"

lemma base_response_fields [simp]:
  "rb_status_code (base_response req code reason) = code"
  "rb_reason (base_response req code reason) = reason"
  "rb_body (base_response req code reason) = []"
  "rb_headers (base_response req code reason) = dialog_headers req @ [(''Server'', ''SIP3/0.1.0'')]"
  by (simp_all add: base_response_def response_new_def dialog_headers_def Let_def)

lemma status_line_parts:
  "splitn 3 (CHR '' '') (''SIP/2.0 '' @ show_uint code @ '' '' @ reason) = [''SIP/2.0'', show_uint code, reason]"
  using splitn2 [of "CHR '' ''" "''SIP/2.0''" 1 "show_uint code @ '' '' @ reason"]
    splitn2 [of "CHR '' ''" "show_uint code" 0 reason]
  by (simp add: numeral_3_eq_3 str_simps)

text \<open>The parser reads a built response back: status, every header in order, no method.\<close>

lemma parse_build:
  assumes "lf \<notin> set (rb_reason b)" "\<forall>h \<in> set (rb_headers b). wf_header h"
  obtains msg where "parse (build b) = Ok msg" "m_status_code msg = Some (rb_status_code b)"
    "m_method msg = None" "m_body msg = join crlf (lines (rb_body b))" "hm_wf (m_headers msg)"
    "\<And>name. all_headers_vec msg name =
       map trim (values_of (rb_headers b @ [(''Content-Length'', show_nat (length (rb_body b)))])
         (normalize_header_name name))"
proof -
  let ?first = "''SIP/2.0 '' @ show_uint (rb_status_code b) @ '' '' @ rb_reason b"
  let ?hs = "rb_headers b @ [(''Content-Length'', show_nat (length (rb_body b)))]"
  have "lf \<notin> set ?first" "CHR '' '' \<in> set ?first"
    using assms(1) by (auto simp: str_simps)
  moreover have "\<forall>h \<in> set ?hs. wf_header h"
    using assms(2) by (auto simp: wf_header_def str_simps)
  ultimately obtain msg where "parse (render ?first ?hs (rb_body b)) = Ok msg"
    "\<And>name. all_headers_vec msg name = map trim (values_of ?hs (normalize_header_name name))"
    "m_body msg = join crlf (lines (rb_body b))" "hm_wf (m_headers msg)"
    "m_method msg = None"
    "m_status_code msg = parse_u16 (splitn 3 (CHR '' '') ?first ! 1)"
    by (rule parse_render) auto
  moreover from this(6) have "m_status_code msg = Some (rb_status_code b)"
    unfolding status_line_parts by simp
  ultimately show ?thesis by (intro that [of msg]) (simp_all add: build_render)
qed

section \<open>What a parsed request holds\<close>

definition lf_free :: "(string, string list) hmap \<Rightarrow> bool" where
  "lf_free hs = (\<forall>k vs. hm_get hs k = Some vs \<longrightarrow> (\<forall>v \<in> set vs. lf \<notin> set v))"

lemma lf_free_Nil [simp]: "lf_free []"
  by (simp add: lf_free_def)

lemma lf_trim: "lf \<notin> set s \<Longrightarrow> lf \<notin> set (trim s)"
  by (metis set_dropWhileD set_rev trim_def trim_end_def trim_start_def)

lemma lf_free_put: "lf_free hs \<Longrightarrow> (\<forall>v \<in> set vs. lf \<notin> set v) \<Longrightarrow> lf_free (hm_put k vs hs)"
  by (simp add: lf_free_def hm.get_put)

lemma parse_line_lf_free:
  assumes "lf \<notin> set line" "lf_free (ps_headers st)"
  shows "lf_free (ps_headers (parse_line line st))"
proof -
  have fold_case: "lf_free (hm_put key (butlast vals @ [last vals @ '' '' @ trim line]) (ps_headers st))"
    if "hm_get (ps_headers st) key = Some vals" "vals \<noteq> []" for key vals
    using assms that lf_trim [OF assms(1)] last_in_set [of vals]
    by (intro lf_free_put) (auto simp: lf_free_def dest: in_set_butlastD)
  have push_case: "lf_free (push_header name (trim (drop i line)) (ps_headers st))" for name i
  proof -
    have "lf \<notin> set (trim (drop i line))" using assms(1) by (meson in_set_dropD lf_trim)
    then show ?thesis
      using assms(2) unfolding push_header_def header_values_def
      by (intro lf_free_put) (auto simp: lf_free_def dest: sym split: option.splits)
  qed
  show ?thesis
    using assms fold_case push_case
    by (auto simp: parse_line_def Let_def split: option.splits)
qed

lemma parse_lf_free: "parse raw = Ok msg \<Longrightarrow> lf_free (m_headers msg)"
proof -
  have *: "(\<forall>l \<in> set ls. lf \<notin> set l) \<Longrightarrow> lf_free (ps_headers st) \<Longrightarrow> lf_free (ps_headers (fold parse_line ls st))"
    for ls st by (induction ls arbitrary: st) (auto intro: parse_line_lf_free)
  assume "parse raw = Ok msg"
  then obtain l ls where ls: "lines raw = l # ls" and
    "m_headers msg = ps_headers (fold parse_line ls
       \<lparr>ps_headers = [], ps_in_headers = True, ps_body_lines = [], ps_last_key = None\<rparr>)"
    by (auto simp: parse_def Let_def split: list.splits if_splits)
  moreover have "\<forall>x \<in> set ls. lf \<notin> set x" using lines_no_lf [of _ raw] ls by simp
  ultimately show ?thesis using * by simp
qed

lemma lf_free_headers:
  assumes "lf_free (m_headers msg)"
  shows "v \<in> set (all_headers_vec msg n) \<Longrightarrow> lf \<notin> set v" "header msg n = Some v \<Longrightarrow> lf \<notin> set v"
  using assms by (auto simp: lf_free_def all_headers_vec_def header_def dest: sym split: option.splits list.splits)

lemma dialog_headers_wf:
  assumes "lf_free (m_headers req)" "h \<in> set (dialog_headers req)"
  shows "wf_header h"
  using assms lf_free_headers [OF assms(1)]
  by (auto simp: dialog_headers_def wf_header_def via_headers_def from_header_def to_header_def
      call_id_def cseq_def split: option.splits)

lemma normalize_dialog_names [simp]:
  "normalize_header_name ''Via'' = ''via''" "normalize_header_name ''From'' = ''from''"
  "normalize_header_name ''To'' = ''to''" "normalize_header_name ''Call-ID'' = ''call-id''"
  "normalize_header_name ''CSeq'' = ''cseq''" "normalize_header_name ''Server'' = ''server''"
  "normalize_header_name ''Content-Length'' = ''content-length''"
  "normalize_header_name ''via'' = ''via''" "normalize_header_name ''from'' = ''from''"
  "normalize_header_name ''to'' = ''to''" "normalize_header_name ''call-id'' = ''call-id''"
  "normalize_header_name ''cseq'' = ''cseq''" "normalize_header_name ''content-length'' = ''content-length''"
  by code_simp+

section \<open>The properties\<close>

lemma values_of_Pair [simp]:
  "values_of (map (Pair n) vs) k = (if normalize_header_name n = k then vs else [])"
  by (induction vs) auto

lemma dialog_values:
  "values_of (dialog_headers req) ''via'' = via_headers req"
  "values_of (dialog_headers req) ''from'' = (case from_header req of None \<Rightarrow> [] | Some v \<Rightarrow> [v])"
  "values_of (dialog_headers req) ''to'' = (case to_header req of None \<Rightarrow> [] | Some v \<Rightarrow> [v])"
  "values_of (dialog_headers req) ''call-id'' = (case call_id req of None \<Rightarrow> [] | Some v \<Rightarrow> [v])"
  "values_of (dialog_headers req) ''cseq'' = (case cseq req of None \<Rightarrow> [] | Some v \<Rightarrow> [v])"
  "values_of (dialog_headers req) ''content-length'' = []"
  by (auto simp: dialog_headers_def split: option.splits)

text \<open>
  C25: the response the server builds for any request it could parse parses again, has the status
  it was built with and no method, and carries the request's Via stack in the same order, its
  From, To, Call-ID and CSeq (up to surrounding blanks) and the content length zero.
\<close>

theorem base_response_parses_back:
  assumes "parse raw = Ok req" "lf \<notin> set reason"
  shows "\<exists>msg. parse (build (base_response req code reason)) = Ok msg \<and>
    m_status_code msg = Some code \<and> m_method msg = None \<and>
    via_headers msg = map trim (via_headers req) \<and>
    from_header msg = map_option trim (from_header req) \<and>
    to_header msg = map_option trim (to_header req) \<and>
    call_id msg = map_option trim (call_id req) \<and>
    cseq msg = map_option trim (cseq req) \<and>
    all_headers_vec msg ''content-length'' = [''0'']"
proof -
  let ?b = "base_response req code reason"
  have hs: "\<forall>h \<in> set (rb_headers ?b). wf_header h"
    using dialog_headers_wf [OF parse_lf_free [OF assms(1)]] by (auto simp: wf_header_def)
  have reason: "lf \<notin> set (rb_reason ?b)" using assms(2) by simp
  obtain msg where msg: "parse (build ?b) = Ok msg" "m_status_code msg = Some (rb_status_code ?b)"
    "m_method msg = None"
    "\<And>name. all_headers_vec msg name =
       map trim (values_of (rb_headers ?b @ [(''Content-Length'', show_nat (length (rb_body ?b)))])
         (normalize_header_name name))"
    by (rule parse_build [OF reason hs]) blast
  have zero: "show_radix 10 0 = ''0''" by code_simp
  show ?thesis
    using msg(1-3)
    by (intro exI [of _ msg]) (simp add: via_headers_def from_header_def to_header_def call_id_def
        cseq_def header_eq_hd msg(4) dialog_values [unfolded via_headers_def from_header_def
          to_header_def call_id_def cseq_def] zero trim_trimmed trimmed_def is_whitespace_def
        split: option.splits list.splits)
qed

definition example_options :: string where
  "example_options = ''OPTIONS sip:a@b SIP/2.0'' @ crlf @ ''v: SIP/2.0/UDP h1;branch=1'' @ crlf @
     ''Via: SIP/2.0/UDP h2'' @ crlf @ ''f:  <sip:x@y>;tag=1'' @ crlf @ ''To: <sip:a@b>'' @ crlf @
     ''i: abc'' @ crlf @ ''CSeq: 7'' @ crlf @ '' OPTIONS'' @ crlf @ crlf"

theorem base_response_parses_back_witness:
  "\<exists>req msg. parse example_options = Ok req \<and> parse (build (base_response req 200 ''OK'')) = Ok msg \<and>
     via_headers req = [''SIP/2.0/UDP h1;branch=1'', ''SIP/2.0/UDP h2''] \<and>
     via_headers msg = map trim (via_headers req) \<and> cseq msg = map_option trim (cseq req)"
proof -
  have "case parse example_options of Ok req \<Rightarrow>
      via_headers req = [''SIP/2.0/UDP h1;branch=1'', ''SIP/2.0/UDP h2''] | _ \<Rightarrow> False"
    by code_simp
  then obtain req where "parse example_options = Ok req"
    "via_headers req = [''SIP/2.0/UDP h1;branch=1'', ''SIP/2.0/UDP h2'']"
    by (auto split: outcome.splits)
  moreover have "lf \<notin> set ''OK''" by simp
  ultimately show ?thesis using base_response_parses_back [of example_options req "''OK''" 200] by blast
qed

end
