(* ===== verification/Security_Guard.thy ===== *)
theory Security_Guard
  imports Rust_Str
begin

text \<open>
  \<open>backend/src/security_guard.rs\<close> and \<open>backend/src/api/rate_limit.rs\<close>: the login guard that counts
  authentication failures per address and per address and user in a sliding window and blocks an
  address for a while, and the request limiter of the HTTP interface. An \<open>Instant\<close> is a number of
  nanoseconds, read from a monotonic clock and therefore an argument of every operation that reads
  it. The two window prunings share the interface \<open>sliding_window\<close>.
\<close>

section \<open>Sliding windows\<close>

locale sliding_window =
  fixes prune :: "nat \<Rightarrow> nat list \<Rightarrow> nat list"
    and live :: "nat \<Rightarrow> nat \<Rightarrow> bool"
  assumes prune_filter: "sorted ts \<Longrightarrow> prune now ts = filter (live now) ts"
    and live_mono: "live now t \<Longrightarrow> now' \<le> now \<Longrightarrow> live now' t"
begin

lemma prune_sorted: "sorted ts \<Longrightarrow> sorted (prune now ts)"
  by (simp add: prune_filter sorted_wrt_filter)

lemma prune_again:
  assumes "sorted ts" "now \<le> now'"
  shows "prune now' (prune now ts) = prune now' ts"
  using assms live_mono [of now' _ now]
  by (auto simp: prune_filter sorted_wrt_filter intro!: filter_cong)

text \<open>What is kept at one instant and what was dropped before never differ for a later instant.\<close>

lemma prune_snoc:
  assumes "sorted (ts @ [now'])" "now \<le> now'"
  shows "prune now' (prune now ts @ [now']) = filter (live now') (ts @ [now'])"
proof -
  have s: "sorted ts" "sorted (prune now ts @ [now'])"
    using assms(1) prune_sorted [of ts now] by (auto simp: sorted_append prune_filter)
  have "filter (live now') (prune now ts) = filter (live now') ts"
    using prune_again [OF s(1) assms(2)] s(1) prune_sorted [OF s(1)] by (simp add: prune_filter)
  then show ?thesis using s(2) by (simp add: prune_filter)
qed

end

definition secs :: "nat \<Rightarrow> nat" where
  "secs n = n * 1000000000"

section \<open>The login guard\<close>

datatype auth_surface = SipRegister | SipInvite | ApiLogin

primrec surface_db_value :: "auth_surface \<Rightarrow> string" where
  "surface_db_value SipRegister = ''sip_register''"
| "surface_db_value SipInvite = ''sip_invite''"
| "surface_db_value ApiLogin = ''api_login''"

datatype security_event_type = AuthFailed | InviteRejected | IpBlocked | AuthSucceeded | IpUnblocked

primrec event_db_value :: "security_event_type \<Rightarrow> string" where
  "event_db_value AuthFailed = ''auth_failed''"
| "event_db_value InviteRejected = ''invite_rejected''"
| "event_db_value IpBlocked = ''ip_blocked''"
| "event_db_value AuthSucceeded = ''auth_succeeded''"
| "event_db_value IpUnblocked = ''ip_unblocked''"

record guard_limits =
  window_secs :: nat
  ip_fail_threshold :: nat
  user_ip_fail_threshold :: nat
  block_secs :: nat

record active_block =
  ab_ip :: string
  ab_until :: nat
  ab_surface :: auth_surface
  ab_username :: "string option"

record security_guard =
  g_limits :: guard_limits
  g_ip_failures :: "(string, nat list) hmap"
  g_user_ip_failures :: "(string \<times> string, nat list) hmap"
  g_blocks :: "(string, active_block) hmap"

definition guard_new :: "guard_limits \<Rightarrow> security_guard" where
  "guard_new limits =
     \<lparr>g_limits = limits, g_ip_failures = [], g_user_ip_failures = [], g_blocks = []\<rparr>"

definition prune_expired_blocks :: "nat \<Rightarrow> security_guard \<Rightarrow> security_guard" where
  "prune_expired_blocks now g = g\<lparr>g_blocks := hm_retain (\<lambda>_ b. now < ab_until b) (g_blocks g)\<rparr>"

text \<open>\<open>saturating_duration_since\<close> is the truncated subtraction of naturals.\<close>

fun prune_old :: "nat list \<Rightarrow> nat \<Rightarrow> nat \<Rightarrow> nat list" where
  "prune_old [] now window = []"
| "prune_old (front # rest) now window =
     (if window < now - front then prune_old rest now window else front # rest)"

definition is_blocked :: "nat \<Rightarrow> string \<Rightarrow> security_guard \<Rightarrow> bool \<times> security_guard" where
  "is_blocked now ip g =
     (let g' = prune_expired_blocks now g in (hm_get (g_blocks g') ip \<noteq> None, g'))"

text \<open>\<open>entry(key).or_default()\<close> followed by the push and the pruning of that entry.\<close>

definition push_failure :: "'k \<Rightarrow> nat \<Rightarrow> nat \<Rightarrow> ('k, nat list) hmap \<Rightarrow> ('k, nat list) hmap" where
  "push_failure key now window m =
     hm_put key (prune_old ((case hm_get m key of None \<Rightarrow> [] | Some ts \<Rightarrow> ts) @ [now]) now window) m"

definition failure_count :: "'k \<Rightarrow> ('k, nat list) hmap \<Rightarrow> nat" where
  "failure_count key m = (case hm_get m key of None \<Rightarrow> 0 | Some ts \<Rightarrow> length ts)"

text \<open>
  The clock is read twice: at \<open>t0\<close> for the expired blocks and at \<open>now\<close> for the failure itself.
\<close>

definition record_failure ::
  "nat \<Rightarrow> nat \<Rightarrow> auth_surface \<Rightarrow> string \<Rightarrow> string option \<Rightarrow> security_guard \<Rightarrow> bool \<times> security_guard" where
  "record_failure t0 now surface ip username g =
     (let g0 = prune_expired_blocks t0 g;
          window = secs (window_secs (g_limits g0));
          ips = push_failure ip now window (g_ip_failures g0);
          ip_count = failure_count ip ips;
          users = (case username of
             None \<Rightarrow> g_user_ip_failures g0
           | Some user \<Rightarrow> push_failure (ip, user) now window (g_user_ip_failures g0));
          user_ip_count = (case username of None \<Rightarrow> 0 | Some user \<Rightarrow> failure_count (ip, user) users);
          g1 = g0\<lparr>g_ip_failures := ips, g_user_ip_failures := users\<rparr>
      in if ip_fail_threshold (g_limits g0) \<le> ip_count
            \<or> user_ip_fail_threshold (g_limits g0) \<le> user_ip_count
         then (True, g1\<lparr>g_blocks := hm_put ip
                 \<lparr>ab_ip = ip, ab_until = now + secs (block_secs (g_limits g0)),
                  ab_surface = surface, ab_username = username\<rparr> (g_blocks g1)\<rparr>)
         else (False, g1))"

definition record_success :: "string \<Rightarrow> string option \<Rightarrow> security_guard \<Rightarrow> security_guard" where
  "record_success ip username g =
     (case username of
        None \<Rightarrow> g
      | Some user \<Rightarrow> g\<lparr>g_user_ip_failures := hm_del (ip, user) (g_user_ip_failures g)\<rparr>)"

definition unblock :: "string \<Rightarrow> security_guard \<Rightarrow> security_guard" where
  "unblock ip g = g\<lparr>g_blocks := hm_del ip (g_blocks g)\<rparr>"

definition list_active_blocks :: "nat \<Rightarrow> security_guard \<Rightarrow> active_block list \<times> security_guard" where
  "list_active_blocks now g = (let g' = prune_expired_blocks now g in (map snd (g_blocks g'), g'))"

section \<open>Histories of the guard\<close>

datatype guard_op =
    Fail nat auth_surface string "string option"
  | Success string "string option"
  | Unblock string
  | IsBlocked string
  | ListBlocks

type_synonym guard_event = "nat \<times> guard_op"

fun guard_step :: "guard_event \<Rightarrow> security_guard \<Rightarrow> security_guard" where
  "guard_step (now, Fail t0 surface ip user) g = snd (record_failure t0 now surface ip user g)"
| "guard_step (now, Success ip user) g = record_success ip user g"
| "guard_step (now, Unblock ip) g = unblock ip g"
| "guard_step (now, IsBlocked ip) g = snd (is_blocked now ip g)"
| "guard_step (now, ListBlocks) g = snd (list_active_blocks now g)"

definition guard_run :: "guard_limits \<Rightarrow> guard_event list \<Rightarrow> security_guard" where
  "guard_run limits h = fold guard_step h (guard_new limits)"

text \<open>The specification: the failures of an address, and those of a user since the last success.\<close>

fun ip_fail_times :: "string \<Rightarrow> guard_event list \<Rightarrow> nat list" where
  "ip_fail_times ip [] = []"
| "ip_fail_times ip ((t, Fail t0 s ip' u) # h) =
     (if ip' = ip then t # ip_fail_times ip h else ip_fail_times ip h)"
| "ip_fail_times ip (_ # h) = ip_fail_times ip h"

fun user_fail_step :: "string \<Rightarrow> string \<Rightarrow> guard_event \<Rightarrow> nat list \<Rightarrow> nat list" where
  "user_fail_step ip user (t, Fail t0 s ip' (Some u)) ts = (if ip' = ip \<and> u = user then ts @ [t] else ts)"
| "user_fail_step ip user (t, Success ip' (Some u)) ts = (if ip' = ip \<and> u = user then [] else ts)"
| "user_fail_step ip user _ ts = ts"

definition user_fail_times :: "string \<Rightarrow> string \<Rightarrow> guard_event list \<Rightarrow> nat list" where
  "user_fail_times ip user h = fold (user_fail_step ip user) h []"

definition in_window :: "nat \<Rightarrow> nat \<Rightarrow> nat \<Rightarrow> bool" where
  "in_window window now t = (now - t \<le> window)"

lemma prune_old_filter: "sorted ts \<Longrightarrow> prune_old ts now w = filter (in_window w now) ts"
  by (induction ts) (auto simp: in_window_def intro!: filter_True [symmetric] diff_le_mono2 order_trans)

interpretation guard_window: sliding_window "\<lambda>now ts. prune_old ts now w" "in_window w" for w
  by unfold_locales (auto simp: prune_old_filter in_window_def)

section \<open>The stored windows are the windows of the history\<close>

definition window_of :: "nat \<Rightarrow> nat list \<Rightarrow> nat list option" where
  "window_of w ts = (if ts = [] then None else Some (filter (in_window w (last ts)) ts))"

lemma push_failure_window:
  assumes "hm_get m k = window_of w ts" "sorted (ts @ [now])"
  shows "hm_get (push_failure k now w m) k = window_of w (ts @ [now])"
    and "failure_count k (push_failure k now w m) = length (filter (in_window w now) (ts @ [now]))"
proof -
  have "prune_old ((case hm_get m k of None \<Rightarrow> [] | Some xs \<Rightarrow> xs) @ [now]) now w =
      filter (in_window w now) (ts @ [now])"
  proof (cases "ts = []")
    case True
    then show ?thesis using assms(1) by (simp add: window_of_def in_window_def)
  next
    case False
    moreover have "last ts \<le> now" "sorted ts" using assms(2) False by (auto simp: sorted_append)
    ultimately show ?thesis
      using assms guard_window.prune_snoc [of ts now "last ts" w]
      by (simp add: window_of_def prune_old_filter)
  qed
  then show "hm_get (push_failure k now w m) k = window_of w (ts @ [now])"
    "failure_count k (push_failure k now w m) = length (filter (in_window w now) (ts @ [now]))"
    by (simp_all add: push_failure_def failure_count_def window_of_def hm.get_put)
qed

lemma push_failure_other: "k' \<noteq> k \<Longrightarrow> hm_get (push_failure k now w m) k' = hm_get m k'"
  by (simp add: push_failure_def hm.get_put)

lemma record_failure_frame [simp]:
  "g_limits (snd (record_failure t0 now s ip u g)) = g_limits g"
  "g_ip_failures (snd (record_failure t0 now s ip u g)) =
     push_failure ip now (secs (window_secs (g_limits g))) (g_ip_failures g)"
  "g_user_ip_failures (snd (record_failure t0 now s ip u g)) =
     (case u of None \<Rightarrow> g_user_ip_failures g
      | Some v \<Rightarrow> push_failure (ip, v) now (secs (window_secs (g_limits g))) (g_user_ip_failures g))"
  by (auto simp: record_failure_def Let_def prune_expired_blocks_def split: option.splits)

lemma guard_frame [simp]:
  "g_limits (record_success ip u g) = g_limits g" "g_ip_failures (record_success ip u g) = g_ip_failures g"
  "g_limits (unblock ip g) = g_limits g" "g_ip_failures (unblock ip g) = g_ip_failures g"
  "g_user_ip_failures (unblock ip g) = g_user_ip_failures g"
  "g_limits (prune_expired_blocks now g) = g_limits g"
  "g_ip_failures (prune_expired_blocks now g) = g_ip_failures g"
  "g_user_ip_failures (prune_expired_blocks now g) = g_user_ip_failures g"
  "snd (is_blocked now ip g) = prune_expired_blocks now g"
  "snd (list_active_blocks now g) = prune_expired_blocks now g"
  by (simp_all add: record_success_def unblock_def prune_expired_blocks_def is_blocked_def
      list_active_blocks_def Let_def split: option.splits)

lemma ip_fail_times_append: "ip_fail_times ip (h @ h') = ip_fail_times ip h @ ip_fail_times ip h'"
  by (induction ip h rule: ip_fail_times.induct) auto

lemma ip_fail_times_sorted:
  "sorted (map fst h) \<Longrightarrow> sorted (ip_fail_times ip h) \<and> set (ip_fail_times ip h) \<subseteq> set (map fst h)"
  by (induction ip h rule: ip_fail_times.induct) auto

lemma user_fail_times_snoc [simp]:
  "user_fail_times ip user (h @ [e]) = user_fail_step ip user e (user_fail_times ip user h)"
  "user_fail_times ip user [] = []"
  by (simp_all add: user_fail_times_def)

lemma user_fail_step_cases:
  "user_fail_step ip user e ts \<in> {ts, [], ts @ [fst e]}"
  by (cases "(ip, user, e, ts)" rule: user_fail_step.cases) auto

lemma user_fail_times_sorted:
  "sorted (map fst h) \<Longrightarrow> sorted (user_fail_times ip user h) \<and> set (user_fail_times ip user h) \<subseteq> set (map fst h)"
proof (induction h rule: rev_induct)
  case (snoc e h)
  then show ?case
    using user_fail_step_cases [of ip user e "user_fail_times ip user h"]
    by (fastforce simp: sorted_append)
qed simp

lemma guard_run_snoc: "guard_run L (h @ [e]) = guard_step e (guard_run L h)"
  by (simp add: guard_run_def)

lemma guard_run_limits [simp]: "g_limits (guard_run L h) = L"
proof (induction h rule: rev_induct)
  case Nil
  then show ?case by (simp add: guard_run_def guard_new_def)
next
  case (snoc e h)
  then show ?case by (cases "(e, guard_run L h)" rule: guard_step.cases) (simp_all add: guard_run_snoc)
qed

lemma guard_run_ip_window:
  assumes "sorted (map fst h)"
  shows "hm_get (g_ip_failures (guard_run L h)) ip = window_of (secs (window_secs L)) (ip_fail_times ip h)"
  using assms
proof (induction h rule: rev_induct)
  case Nil
  then show ?case by (simp add: guard_run_def guard_new_def window_of_def)
next
  case (snoc e h)
  then have IH: "hm_get (g_ip_failures (guard_run L h)) ip = window_of (secs (window_secs L)) (ip_fail_times ip h)"
    by (simp add: sorted_append)
  have s: "sorted (ip_fail_times ip h @ [fst e])"
    using ip_fail_times_sorted [of h ip] snoc.prems by (auto simp: sorted_append)
  show ?case
  proof (cases "(e, guard_run L h)" rule: guard_step.cases)
    case (1 now t0 sf ip' user g)
    then show ?thesis using s IH push_failure_window(1) [OF IH, of now]
      by (cases "ip' = ip") (auto simp: guard_run_snoc ip_fail_times_append push_failure_other)
  qed (use IH in \<open>auto simp: guard_run_snoc ip_fail_times_append\<close>)
qed

lemma guard_run_user_window:
  assumes "sorted (map fst h)"
  shows "hm_get (g_user_ip_failures (guard_run L h)) (ip, v) =
    window_of (secs (window_secs L)) (user_fail_times ip v h)"
  using assms
proof (induction h rule: rev_induct)
  case Nil
  then show ?case by (simp add: guard_run_def guard_new_def window_of_def)
next
  case (snoc e h)
  then have IH: "hm_get (g_user_ip_failures (guard_run L h)) (ip, v) =
      window_of (secs (window_secs L)) (user_fail_times ip v h)"
    by (simp add: sorted_append)
  have s: "sorted (user_fail_times ip v h @ [fst e])"
    using user_fail_times_sorted [of h ip v] snoc.prems by (auto simp: sorted_append)
  show ?case
  proof (cases "(e, guard_run L h)" rule: guard_step.cases)
    case (1 now t0 sf ip' user g)
    then show ?thesis using s IH push_failure_window(1) [OF IH, of now]
      by (cases user) (auto simp: guard_run_snoc push_failure_other)
  next
    case (2 now ip' user g)
    then show ?thesis using IH
      by (cases user) (auto simp: guard_run_snoc record_success_def hm.get_del window_of_def)
  qed (use IH in \<open>auto simp: guard_run_snoc\<close>)
qed

section \<open>Blocks\<close>

definition guard_wf :: "security_guard \<Rightarrow> bool" where
  "guard_wf g =
     (hm_wf (g_ip_failures g) \<and> hm_wf (g_user_ip_failures g) \<and> hm_wf (g_blocks g) \<and>
      (\<forall>ip b. hm_get (g_blocks g) ip = Some b \<longrightarrow> ab_ip b = ip))"

lemma guard_wf_prune [simp]: "guard_wf g \<Longrightarrow> guard_wf (prune_expired_blocks now g)"
  by (auto simp: guard_wf_def prune_expired_blocks_def hm_get_retain split: option.splits if_splits)

lemma guard_wf_push [simp]: "hm_wf m \<Longrightarrow> hm_wf (push_failure k now w m)"
  by (simp add: push_failure_def hm.wf_put)

lemma guard_wf_failure: "guard_wf g \<Longrightarrow> guard_wf (snd (record_failure t0 now s ip u g))"
proof -
  assume "guard_wf g"
  define h where "h = prune_expired_blocks t0 g"
  have g0: "guard_wf h" using \<open>guard_wf g\<close> by (simp add: h_def)
  have put: "guard_wf (h\<lparr>g_blocks := hm_put ip
      \<lparr>ab_ip = ip, ab_until = a, ab_surface = s, ab_username = u\<rparr> (g_blocks h)\<rparr>)" if "guard_wf h" for h a
    using that by (simp add: guard_wf_def hm.wf_put hm.get_put)
  have g1: "guard_wf (h\<lparr>g_ip_failures := push_failure ip now w (g_ip_failures h),
      g_user_ip_failures := (case u of None \<Rightarrow> g_user_ip_failures h
        | Some user \<Rightarrow> push_failure (ip, user) now w (g_user_ip_failures h))\<rparr>)" if "guard_wf h" for h w
    using that by (cases u) (simp_all add: guard_wf_def)
  show ?thesis
    unfolding record_failure_def Let_def h_def [symmetric]
    using g1 [OF g0] put [OF g1 [OF g0]] by (cases u) simp_all
qed

lemma guard_wf_success: "guard_wf g \<Longrightarrow> guard_wf (record_success ip u g)"
  by (cases u) (simp_all add: guard_wf_def record_success_def hm.wf_del)

lemma guard_wf_unblock: "guard_wf g \<Longrightarrow> guard_wf (unblock ip g)"
  by (simp add: guard_wf_def unblock_def hm.wf_del hm.get_del)

interpretation guard_kept: kept_invariant guard_step guard_wf
proof
  fix g e
  assume "guard_wf g"
  then show "guard_wf (guard_step e g)"
    by (cases "(e, g)" rule: guard_step.cases)
      (simp_all add: guard_wf_failure guard_wf_success guard_wf_unblock)
qed

lemma guard_run_wf [simp]: "guard_wf (guard_run L h)"
  unfolding guard_run_def by (rule guard_kept.run_inv) (simp add: guard_wf_def guard_new_def)

fun touches :: "string \<Rightarrow> guard_event \<Rightarrow> bool" where
  "touches ip (t, Fail t0 s ip' u) = (ip' = ip)"
| "touches ip (t, Unblock ip') = (ip' = ip)"
| "touches ip _ = False"

fun op_times :: "guard_event \<Rightarrow> nat list" where
  "op_times (t, Fail t0 s ip u) = [t0, t]"
| "op_times (t, _) = [t]"

lemma get_prune_expired:
  "guard_wf g \<Longrightarrow> hm_get (g_blocks (prune_expired_blocks now g)) ip =
    (case hm_get (g_blocks g) ip of Some b \<Rightarrow> if now < ab_until b then Some b else None | None \<Rightarrow> None)"
  by (simp add: prune_expired_blocks_def guard_wf_def hm_get_retain)

lemma record_failure_blocks_other:
  "ip' \<noteq> ip \<Longrightarrow> hm_get (g_blocks (snd (record_failure t0 now s ip' u g))) ip =
    hm_get (g_blocks (prune_expired_blocks t0 g)) ip"
  by (auto simp: record_failure_def Let_def hm.get_put split: option.splits)

lemma record_success_blocks [simp]: "g_blocks (record_success ip u g) = g_blocks g"
  by (simp add: record_success_def split: option.splits)

lemma unblock_blocks: "hm_get (g_blocks (unblock ip g)) k = (if k = ip then None else hm_get (g_blocks g) k)"
  by (simp add: unblock_def hm.get_del)

lemma step_untouched:
  assumes "guard_wf g" "\<not> touches ip e"
  obtains t where "t \<in> set (op_times e)" "hm_get (g_blocks (guard_step e g)) ip =
      (case hm_get (g_blocks g) ip of Some b \<Rightarrow> if t < ab_until b then Some b else None | None \<Rightarrow> None)"
  | "hm_get (g_blocks (guard_step e g)) ip = hm_get (g_blocks g) ip"
proof (cases "(e, g)" rule: guard_step.cases)
  case (1 now t0 s ip' u g')
  then show ?thesis using assms that(1) [of t0]
    by (simp add: record_failure_blocks_other get_prune_expired)
next
  case (4 now ip' g')
  then show ?thesis using assms that(1) [of now] by (simp add: get_prune_expired)
next
  case (5 now g')
  then show ?thesis using assms that(1) [of now] by (simp add: get_prune_expired)
qed (use assms that(2) in \<open>simp_all add: unblock_blocks\<close>)

lemma block_survives:
  assumes "guard_wf g" "hm_get (g_blocks g) ip = Some b"
    and "\<forall>e \<in> set es. \<not> touches ip e \<and> (\<forall>t \<in> set (op_times e). t < ab_until b)"
  shows "hm_get (g_blocks (fold guard_step es g)) ip = Some b"
  using assms
proof (induction es arbitrary: g)
  case (Cons e es)
  have "hm_get (g_blocks (guard_step e g)) ip = Some b"
    by (rule step_untouched [OF Cons.prems(1), of ip e]) (use Cons.prems in auto)
  with Cons show ?case by (simp add: guard_kept.step_inv)
qed simp

lemma no_new_block:
  assumes "guard_wf g" "hm_get (g_blocks g) ip \<in> {None, Some b}" "\<forall>e \<in> set es. \<not> touches ip e"
  shows "hm_get (g_blocks (fold guard_step es g)) ip \<in> {None, Some b}"
  using assms
proof (induction es arbitrary: g)
  case (Cons e es)
  have "hm_get (g_blocks (guard_step e g)) ip \<in> {None, Some b}"
    by (rule step_untouched [OF Cons.prems(1), of ip e]) (use Cons.prems in \<open>auto split: if_splits\<close>)
  with Cons show ?case by (simp add: guard_kept.step_inv)
qed simp

lemma record_failure_iff:
  assumes "sorted (map fst h @ [now])"
  shows "fst (record_failure t0 now surface ip user (guard_run L h)) \<longleftrightarrow>
    ip_fail_threshold L \<le> length (filter (in_window (secs (window_secs L)) now) (ip_fail_times ip h @ [now])) \<or>
    user_ip_fail_threshold L \<le> (case user of None \<Rightarrow> 0
      | Some v \<Rightarrow> length (filter (in_window (secs (window_secs L)) now) (user_fail_times ip v h @ [now])))"
proof -
  let ?w = "secs (window_secs L)" and ?g = "prune_expired_blocks t0 (guard_run L h)"
  have h: "sorted (map fst h)" "\<forall>t \<in> set (map fst h). t \<le> now"
    using assms by (auto simp: sorted_append)
  have ip: "failure_count ip (push_failure ip now ?w (g_ip_failures ?g)) =
      length (filter (in_window ?w now) (ip_fail_times ip h @ [now]))"
    using ip_fail_times_sorted [OF h(1), of ip] h(2)
    by (intro push_failure_window(2)) (auto simp: guard_run_ip_window [OF h(1)] sorted_append)
  have user: "failure_count (ip, v) (push_failure (ip, v) now ?w (g_user_ip_failures ?g)) =
      length (filter (in_window ?w now) (user_fail_times ip v h @ [now]))" for v
    using user_fail_times_sorted [OF h(1), of ip v] h(2)
    by (intro push_failure_window(2)) (auto simp: guard_run_user_window [OF h(1)] sorted_append)
  show ?thesis
    using ip user by (cases user) (simp_all add: record_failure_def Let_def)
qed

lemma block_lasts:
  assumes "fst (record_failure t0 now surface ip user (guard_run L h))"
    and "\<forall>e \<in> set es. \<not> touches ip e \<and> (\<forall>s \<in> set (op_times e). s \<le> t)" "now \<le> t"
  shows "fst (is_blocked t ip (fold guard_step es (snd (record_failure t0 now surface ip user (guard_run L h)))))
    \<longleftrightarrow> t < now + secs (block_secs L)"
proof -
  let ?g = "snd (record_failure t0 now surface ip user (guard_run L h))"
  let ?b = "\<lparr>ab_ip = ip, ab_until = now + secs (block_secs L), ab_surface = surface, ab_username = user\<rparr>"
  have wf: "guard_wf ?g" by (intro guard_wf_failure guard_run_wf)
  have wf': "guard_wf (fold guard_step es ?g)" by (rule guard_kept.run_inv [OF wf])
  have b: "hm_get (g_blocks ?g) ip = Some ?b"
    using assms(1) by (auto simp: record_failure_def Let_def hm.get_put split: if_splits)
  have query: "fst (is_blocked t ip g) = (hm_get (g_blocks (prune_expired_blocks t g)) ip \<noteq> None)" for g
    by (simp add: is_blocked_def Let_def)
  show ?thesis
  proof (cases "t < now + secs (block_secs L)")
    case True
    then have "hm_get (g_blocks (fold guard_step es ?g)) ip = Some ?b"
      using assms(2) by (intro block_survives [OF wf b]) fastforce
    then show ?thesis using True by (simp only: query get_prune_expired [OF wf']) simp
  next
    case False
    have "hm_get (g_blocks (fold guard_step es ?g)) ip \<in> {None, Some ?b}"
      using assms(2) by (intro no_new_block [OF wf]) (simp_all only: b, simp_all)
    then show ?thesis using False by (simp only: query get_prune_expired [OF wf']) auto
  qed
qed

section \<open>The properties of the login guard\<close>

text \<open>
  C26: the guard blocks exactly when the history says so. After any history of operations on a
  monotonic clock, recording a failure reports a block if and only if the failures of this address
  in the last window, this one included, reach the address threshold, or those of this user from
  this address since the user's last success reach the user threshold.
\<close>

theorem record_failure_exact:
  assumes "sorted (map fst h @ [now])"
  shows "fst (record_failure t0 now surface ip user (guard_run L h)) \<longleftrightarrow>
    ip_fail_threshold L \<le> length (filter (in_window (secs (window_secs L)) now) (ip_fail_times ip h @ [now])) \<or>
    user_ip_fail_threshold L \<le> (case user of None \<Rightarrow> 0
      | Some v \<Rightarrow> length (filter (in_window (secs (window_secs L)) now) (user_fail_times ip v h @ [now])))"
  by (rule record_failure_iff [OF assms])

theorem record_failure_exact_witness:
  "fst (record_failure 5 5 SipRegister ''10.0.0.9'' (Some ''bob'')
     (guard_run \<lparr>window_secs = 60, ip_fail_threshold = 3, user_ip_fail_threshold = 2, block_secs = 30\<rparr>
       [(1, Fail 1 SipInvite ''10.0.0.9'' (Some ''bob'')), (2, Success ''10.0.0.9'' (Some ''bob''))]))
   = False"
  using record_failure_exact [of "[(1, Fail 1 SipInvite ''10.0.0.9'' (Some ''bob'')),
        (2, Success ''10.0.0.9'' (Some ''bob''))]" 5 5 SipRegister "''10.0.0.9''" "Some ''bob''"
      "\<lparr>window_secs = 60, ip_fail_threshold = 3, user_ip_fail_threshold = 2, block_secs = 30\<rparr>"]
  by (simp add: in_window_def secs_def user_fail_times_def)

text \<open>
  a block lasts exactly its duration. After a failure that blocks an address, and any further
  operations on a monotonic clock that neither record a failure of that address nor unblock it,
  the address is blocked at a later instant if and only if the block duration has not passed.
\<close>

theorem block_lasts_exactly:
  assumes "fst (record_failure t0 now surface ip user (guard_run L h))"
    and "\<forall>e \<in> set es. \<not> touches ip e \<and> (\<forall>s \<in> set (op_times e). s \<le> t)" "now \<le> t"
  shows "fst (is_blocked t ip (fold guard_step es (snd (record_failure t0 now surface ip user (guard_run L h)))))
    \<longleftrightarrow> t < now + secs (block_secs L)"
  by (rule block_lasts [OF assms])

theorem block_lasts_exactly_witness:
  "fst (is_blocked 29000000007 ''10.0.0.9'' (fold guard_step [(9, Success ''10.0.0.9'' None)]
     (snd (record_failure 7 7 ApiLogin ''10.0.0.9'' None
       (guard_run \<lparr>window_secs = 60, ip_fail_threshold = 1, user_ip_fail_threshold = 2, block_secs = 30\<rparr> [])))))"
  using block_lasts_exactly [of 7 7 ApiLogin "''10.0.0.9''" None
      "\<lparr>window_secs = 60, ip_fail_threshold = 1, user_ip_fail_threshold = 2, block_secs = 30\<rparr>" "[]"
      "[(9, Success ''10.0.0.9'' None)]" 29000000007]
  by (simp add: secs_def record_failure_def guard_run_def guard_new_def push_failure_def
      failure_count_def prune_expired_blocks_def Let_def)

section \<open>The request limiter\<close>

record rate_limiter =
  rl_requests :: "(string, nat list) hmap"
  rl_limit :: nat
  rl_window_secs :: nat

definition rate_limiter_new :: "nat \<Rightarrow> nat \<Rightarrow> rate_limiter" where
  "rate_limiter_new limit window = \<lparr>rl_requests = [], rl_limit = limit, rl_window_secs = window\<rparr>"

definition recent :: "nat \<Rightarrow> nat \<Rightarrow> nat \<Rightarrow> bool" where
  "recent window now t = (now - t < window)"

definition rate_check :: "nat \<Rightarrow> string \<Rightarrow> rate_limiter \<Rightarrow> bool \<times> rate_limiter" where
  "rate_check now key r =
     (let window = secs (rl_window_secs r);
          stored = (case hm_get (rl_requests r) key of None \<Rightarrow> [] | Some ts \<Rightarrow> ts);
          timestamps = filter (recent window now) stored
      in if rl_limit r \<le> length timestamps
         then (False, r\<lparr>rl_requests := hm_put key timestamps (rl_requests r)\<rparr>)
         else (True, r\<lparr>rl_requests := hm_put key (timestamps @ [now]) (rl_requests r)\<rparr>))"

text \<open>The middleware: the first address of \<open>x-forwarded-for\<close> is the key, 429 is the refusal.\<close>

definition rate_limit_middleware ::
  "nat \<Rightarrow> string option \<Rightarrow> rate_limiter option \<Rightarrow> u16 option \<times> rate_limiter option" where
  "rate_limit_middleware now forwarded limiter =
     (let client_ip = (case forwarded of
            None \<Rightarrow> ''unknown''
          | Some v \<Rightarrow> trim (hd (split_on (CHR '','') v)))
      in case limiter of
           None \<Rightarrow> (None, None)
         | Some r \<Rightarrow>
             (case rate_check now client_ip r of
                (allowed, r') \<Rightarrow> (if allowed then None else Some 429, Some r')))"

interpretation rate_window: sliding_window "\<lambda>now. filter (recent w now)" "recent w" for w
  by unfold_locales (auto simp: recent_def)

text \<open>A run of checks, with the accepted requests in order.\<close>

fun rate_step :: "nat \<times> string \<Rightarrow> rate_limiter \<times> (nat \<times> string) list \<Rightarrow> rate_limiter \<times> (nat \<times> string) list" where
  "rate_step (now, key) (r, acc) =
     (case rate_check now key r of (ok, r') \<Rightarrow> (r', if ok then acc @ [(now, key)] else acc))"

definition accepted_times :: "string \<Rightarrow> (nat \<times> string) list \<Rightarrow> nat list" where
  "accepted_times key acc = map fst (filter (\<lambda>a. snd a = key) acc)"

text \<open>
  From the clock on, the stored requests of a key and the accepted ones agree on what is recent.
\<close>

definition rate_inv :: "nat \<Rightarrow> nat \<Rightarrow> nat \<Rightarrow> rate_limiter \<times> (nat \<times> string) list \<Rightarrow> bool" where
  "rate_inv limit w clock s =
     (rl_limit (fst s) = limit \<and> rl_window_secs (fst s) = w \<and>
      sorted (map fst (snd s)) \<and> (\<forall>t \<in> set (map fst (snd s)). t \<le> clock) \<and>
      (\<forall>key t. clock \<le> t \<longrightarrow>
         filter (recent (secs w) t) (case hm_get (rl_requests (fst s)) key of None \<Rightarrow> [] | Some ts \<Rightarrow> ts) =
         filter (recent (secs w) t) (accepted_times key (snd s))) \<and>
      (\<forall>key t. length (filter (\<lambda>a. a \<le> t \<and> recent (secs w) t a) (accepted_times key (snd s))) \<le> limit))"

lemma accepted_sorted: "sorted (map fst acc) \<Longrightarrow> sorted (accepted_times key acc)"
  by (induction acc) (auto simp: accepted_times_def)

lemma rate_stored:
  assumes "rate_inv limit w clock (r, acc)" "clock \<le> now"
  shows "filter (recent (secs w) now) (case hm_get (rl_requests r) key of None \<Rightarrow> [] | Some ts \<Rightarrow> ts) =
    filter (recent (secs w) now) (accepted_times key acc)"
  using assms by (simp add: rate_inv_def)

lemma rate_check_exact:
  assumes "rate_inv limit w clock (r, acc)" "clock \<le> now"
  shows "fst (rate_check now key r) \<longleftrightarrow>
    length (filter (recent (secs w) now) (accepted_times key acc)) < limit"
proof -
  have "rl_limit r = limit" "rl_window_secs r = w" using assms(1) by (auto simp: rate_inv_def)
  then show ?thesis
    using rate_stored [OF assms, of key] by (auto simp: rate_check_def Let_def)
qed

lemma accepted_snoc:
  "accepted_times key (acc @ [(now, key')]) = accepted_times key acc @ (if key' = key then [now] else [])"
  by (simp add: accepted_times_def)

lemma rate_bound_snoc:
  assumes "\<forall>a \<in> set as. a \<le> now" "length (filter (recent w now) as) < limit"
    "length (filter (\<lambda>a. a \<le> t \<and> recent w t a) as) \<le> limit"
  shows "length (filter (\<lambda>a. a \<le> t \<and> recent w t a) (as @ [now])) \<le> limit"
proof (cases "now \<le> t")
  case True
  have "length (filter (\<lambda>a. a \<le> t \<and> recent w t a) as) \<le> length (filter (recent w now) as)"
  proof (induction as)
    case (Cons a as)
    have "recent w t a \<Longrightarrow> recent w now a" using True by (auto simp: recent_def)
    with Cons show ?case by auto
  qed simp
  then show ?thesis using assms(2) by simp
qed (use assms(3) in simp)

lemma rate_step_inv:
  assumes "rate_inv limit w clock (r, acc)" "clock \<le> now"
  shows "rate_inv limit w now (rate_step (now, key) (r, acc))"
proof -
  let ?w = "secs w" and ?st = "\<lambda>k. case hm_get (rl_requests r) k of None \<Rightarrow> [] | Some ts \<Rightarrow> ts"
  obtain ok r' where c: "rate_check now key r = (ok, r')" by fastforce
  have r: "rl_limit r = limit" "rl_window_secs r = w" "sorted (map fst acc)"
    "\<forall>t \<in> set (map fst acc). t \<le> now"
    using assms by (auto simp: rate_inv_def)
  have ok: "ok \<longleftrightarrow> length (filter (recent ?w now) (accepted_times key acc)) < limit"
    using rate_check_exact [OF assms, of key] c by simp
  have r': "rl_limit r' = limit" "rl_window_secs r' = w" "hm_get (rl_requests r') =
      (hm_get (rl_requests r))(key \<mapsto> filter (recent ?w now) (accepted_times key acc) @ (if ok then [now] else []))"
    using c rate_stored [OF assms, of key] r(1,2)
    by (auto simp: rate_check_def Let_def update_conv' split: if_splits)
  let ?acc = "if ok then acc @ [(now, key)] else acc"
  have "filter (recent ?w t) (case hm_get (rl_requests r') k of None \<Rightarrow> [] | Some ts \<Rightarrow> ts) =
      filter (recent ?w t) (accepted_times k ?acc)" if "now \<le> t" for k t
  proof (cases "k = key")
    case True
    then show ?thesis
      using rate_window.prune_again [OF accepted_sorted [OF r(3)] that, of ?w key] r'(3)
      by (simp add: accepted_snoc)
  next
    case False
    then show ?thesis using assms that r'(3) by (simp add: rate_inv_def accepted_snoc)
  qed
  moreover have "length (filter (\<lambda>a. a \<le> t \<and> recent ?w t a) (accepted_times k ?acc)) \<le> limit" for k t
  proof -
    have old: "length (filter (\<lambda>a. a \<le> t \<and> recent ?w t a) (accepted_times k acc)) \<le> limit"
      using assms(1) by (simp add: rate_inv_def)
    have "\<forall>a \<in> set (accepted_times k acc). a \<le> now" using r(4) by (auto simp: accepted_times_def)
    then show ?thesis using old ok rate_bound_snoc [of "accepted_times k acc" now ?w limit t]
      by (auto simp: accepted_snoc)
  qed
  moreover have "sorted (map fst ?acc)" "\<forall>t \<in> set (map fst ?acc). t \<le> now"
    using r(3,4) by (auto simp: sorted_append)
  ultimately show ?thesis using c r' by (simp add: rate_inv_def del: filter_append)
qed

lemma rate_run_inv:
  assumes "rate_inv limit w clock s" "sorted (clock # map fst es)"
  shows "rate_inv limit w (last (clock # map fst es)) (fold rate_step es s)"
  using assms
proof (induction es arbitrary: clock s)
  case (Cons e es)
  obtain r acc where s: "s = (r, acc)" by (cases s)
  obtain now key where e: "e = (now, key)" by (cases e)
  have "rate_inv limit w now (rate_step e s)"
    using Cons.prems rate_step_inv [of limit w clock r acc now key] by (simp add: s e)
  from Cons.IH [OF this] Cons.prems(2) show ?case by (simp add: e)
qed simp

text \<open>
  C28: the limiter admits what it may and no more. On a monotonic clock, in every window the number
  of admitted requests of one key stays within the limit, and a request is refused only when the
  limit is already reached in the window that ends with it.
\<close>

theorem rate_limit_window:
  assumes "sorted (map fst es)" "fold rate_step es (rate_limiter_new limit w, []) = (r, acc)"
    and "\<forall>e \<in> set es. fst e \<le> now"
  shows "length (filter (\<lambda>a. a \<le> t \<and> t - a < secs w) (accepted_times key acc)) \<le> limit \<and>
    (fst (rate_check now key r) \<longleftrightarrow>
      length (filter (\<lambda>a. now - a < secs w) (accepted_times key acc)) < limit)"
proof
  have "rate_inv limit w 0 (rate_limiter_new limit w, [])"
    by (simp add: rate_inv_def rate_limiter_new_def accepted_times_def)
  then have inv: "rate_inv limit w (last (0 # map fst es)) (r, acc)"
    using rate_run_inv [of limit w 0 "(rate_limiter_new limit w, [])" es] assms(1,2) by simp
  then show "length (filter (\<lambda>a. a \<le> t \<and> t - a < secs w) (accepted_times key acc)) \<le> limit"
    by (simp add: rate_inv_def recent_def)
  have "last (0 # map fst es) \<le> now"
    using assms(3) last_in_set [of es] by (cases es rule: rev_cases) auto
  from rate_check_exact [OF inv this]
  show "fst (rate_check now key r) \<longleftrightarrow> length (filter (\<lambda>a. now - a < secs w) (accepted_times key acc)) < limit"
    by (simp add: recent_def cong: filter_cong)
qed

theorem rate_limit_window_witness:
  "\<exists>r acc. fold rate_step [(1, ''a''), (2, ''a''), (3, ''b'')] (rate_limiter_new 1 60, []) = (r, acc) \<and>
     acc = [(1, ''a''), (3, ''b'')] \<and> \<not> fst (rate_check 4 ''a'' r)"
proof -
  have run: "case fold rate_step [(1, ''a''), (2, ''a''), (3, ''b'')] (rate_limiter_new 1 60, []) of
      (r, acc) \<Rightarrow> acc = [(1, ''a''), (3, ''b'')]"
    by (simp add: rate_check_def rate_limiter_new_def recent_def secs_def Let_def)
  obtain r acc where ra: "fold rate_step [(1, ''a''), (2, ''a''), (3, ''b'')] (rate_limiter_new 1 60, []) = (r, acc)"
    by fastforce
  then have acc: "acc = [(1, ''a''), (3, ''b'')]" using run by simp
  have "fst (rate_check 4 ''a'' r) \<longleftrightarrow>
      length (filter (\<lambda>a. 4 - a < secs 60) (accepted_times ''a'' acc)) < 1"
    using rate_limit_window [OF _ ra, of 4] by simp
  then show ?thesis using ra acc by (simp add: accepted_times_def secs_def)
qed

end
