(* ===== verification/Net_Addr.thy ===== *)
theory Net_Addr
  imports Rust_Num
begin

text \<open>
  The part of \<open>std::net\<close> the server relies on: IP and socket addresses with their printed forms and
  parsers. The parsers follow the recursive-descent parser of the standard library: no leading
  zeros in the octets of an IPv4 address, an IPv6 socket address only in brackets.
\<close>

datatype ip_addr =
    Ipv4 u8 u8 u8 u8
  | Ipv6 "u16 list"

record socket_addr =
  sa_ip :: ip_addr
  sa_port :: u16

section \<open>Printing\<close>

definition show_ipv4 :: "u8 \<Rightarrow> u8 \<Rightarrow> u8 \<Rightarrow> u8 \<Rightarrow> string" where
  "show_ipv4 a b c d = show_uint a @ ''.'' @ show_uint b @ ''.'' @ show_uint c @ ''.'' @ show_uint d"

definition show_group :: "u16 \<Rightarrow> string" where
  "show_group g = show_radix 16 (unat g)"

text \<open>The first longest run of zero groups as (start, length).\<close>

fun zero_run :: "nat \<Rightarrow> nat \<times> nat \<Rightarrow> nat \<times> nat \<Rightarrow> u16 list \<Rightarrow> nat \<times> nat" where
  "zero_run i longest cur [] = longest"
| "zero_run i longest cur (g # gs) =
     (if g = 0
      then (let cur' = (if snd cur = 0 then (i, 1) else (fst cur, snd cur + 1))
            in zero_run (i + 1) (if snd longest < snd cur' then cur' else longest) cur' gs)
      else zero_run (i + 1) longest (0, 0) gs)"

definition show_ipv6 :: "u16 list \<Rightarrow> string" where
  "show_ipv6 gs =
     (if length gs = 8 \<and> take 5 gs = [0, 0, 0, 0, 0] \<and> gs ! 5 = 0xFFFF
      then ''::ffff:'' @ show_ipv4 (ucast (drop_bit 8 (gs ! 6))) (ucast (gs ! 6))
             (ucast (drop_bit 8 (gs ! 7))) (ucast (gs ! 7))
      else (case zero_run 0 (0, 0) (0, 0) gs of (start, len) \<Rightarrow>
              if 1 < len
              then join '':'' (map show_group (take start gs)) @ ''::'' @
                   join '':'' (map show_group (drop (start + len) gs))
              else join '':'' (map show_group gs)))"

fun show_ip :: "ip_addr \<Rightarrow> string" where
  "show_ip (Ipv4 a b c d) = show_ipv4 a b c d"
| "show_ip (Ipv6 gs) = show_ipv6 gs"

definition show_socket_addr :: "socket_addr \<Rightarrow> string" where
  "show_socket_addr a =
     (case sa_ip a of
        Ipv4 _ _ _ _ \<Rightarrow> show_ip (sa_ip a) @ '':'' @ show_uint (sa_port a)
      | Ipv6 _ \<Rightarrow> ''['' @ show_ip (sa_ip a) @ '']:'' @ show_uint (sa_port a))"

section \<open>Parsing\<close>

text \<open>
  A number of at most \<open>max_digits\<close> digits below \<open>bound\<close>; the second component is the rest.
\<close>

definition read_number :: "nat \<Rightarrow> nat option \<Rightarrow> bool \<Rightarrow> nat \<Rightarrow> string \<Rightarrow> (nat \<times> string) option" where
  "read_number radix max_digits allow_zero_prefix bound s =
     (let ds = takeWhile (\<lambda>c. digit_value radix c \<noteq> None) s;
          rest = dropWhile (\<lambda>c. digit_value radix c \<noteq> None) s
      in if ds = [] \<or> (case max_digits of None \<Rightarrow> False | Some m \<Rightarrow> m < length ds)
            \<or> (\<not> allow_zero_prefix \<and> hd ds = CHR ''0'' \<and> 1 < length ds)
         then None
         else (case parse_radix_acc radix 0 ds of
                 None \<Rightarrow> None
               | Some n \<Rightarrow> if n < bound then Some (n, rest) else None))"

definition read_char :: "char \<Rightarrow> string \<Rightarrow> string option" where
  "read_char c s = (case s of [] \<Rightarrow> None | d # rest \<Rightarrow> if d = c then Some rest else None)"

text \<open>The separator before every element but the first.\<close>

definition read_sep :: "char \<Rightarrow> nat \<Rightarrow> string \<Rightarrow> string option" where
  "read_sep c index s = (if 0 < index then read_char c s else Some s)"

definition read_octet :: "nat \<Rightarrow> string \<Rightarrow> (u8 \<times> string) option" where
  "read_octet index s =
     (case read_sep (CHR ''.'') index s of
        None \<Rightarrow> None
      | Some t \<Rightarrow>
          (case read_number 10 (Some 3) False 256 t of
             None \<Rightarrow> None
           | Some (n, rest) \<Rightarrow> Some (of_nat n, rest)))"

definition read_ipv4 :: "string \<Rightarrow> ((u8 \<times> u8 \<times> u8 \<times> u8) \<times> string) option" where
  "read_ipv4 s =
     (case read_octet 0 s of None \<Rightarrow> None | Some (a, s1) \<Rightarrow>
     (case read_octet 1 s1 of None \<Rightarrow> None | Some (b, s2) \<Rightarrow>
     (case read_octet 2 s2 of None \<Rightarrow> None | Some (c, s3) \<Rightarrow>
     (case read_octet 3 s3 of None \<Rightarrow> None | Some (d, s4) \<Rightarrow> Some ((a, b, c, d), s4)))))"

text \<open>
  \<open>read_groups\<close> of the IPv6 parser with \<open>n\<close> groups left, from index \<open>i\<close>: the groups read, whether
  they end in an embedded IPv4 address, and the rest.
\<close>

fun read_groups :: "nat \<Rightarrow> nat \<Rightarrow> string \<Rightarrow> u16 list \<times> bool \<times> string" where
  "read_groups 0 i s = ([], False, s)"
| "read_groups (Suc n) i s =
     (let v4 = (if 0 < n
                then (case read_sep (CHR '':'') i s of None \<Rightarrow> None | Some t \<Rightarrow> read_ipv4 t)
                else None)
      in case v4 of
           Some ((a, b, c, d), rest) \<Rightarrow> ([from_be16 a b, from_be16 c d], True, rest)
         | None \<Rightarrow>
             (case read_sep (CHR '':'') i s of
                None \<Rightarrow> ([], False, s)
              | Some t \<Rightarrow>
                  (case read_number 16 (Some 4) True 65536 t of
                     None \<Rightarrow> ([], False, s)
                   | Some (g, rest) \<Rightarrow>
                       (case read_groups n (i + 1) rest of
                          (gs, e, r) \<Rightarrow> (of_nat g # gs, e, r)))))"

definition read_ipv6 :: "string \<Rightarrow> (u16 list \<times> string) option" where
  "read_ipv6 s =
     (case read_groups 8 0 s of (head, head_ipv4, s1) \<Rightarrow>
        if length head = 8 then Some (head, s1)
        else if head_ipv4 then None
        else if prefix ''::'' s1
        then (case read_groups (7 - length head) 0 (drop 2 s1) of (tail, _, s2) \<Rightarrow>
                Some (head @ replicate (8 - length head - length tail) 0 @ tail, s2))
        else None)"

definition parse_ip :: "string \<Rightarrow> ip_addr option" where
  "parse_ip s =
     (case read_ipv4 s of
        Some ((a, b, c, d), rest) \<Rightarrow> if rest = [] then Some (Ipv4 a b c d) else None
      | None \<Rightarrow> (case read_ipv6 s of Some (gs, []) \<Rightarrow> Some (Ipv6 gs) | _ \<Rightarrow> None))"

definition read_port :: "string \<Rightarrow> (u16 \<times> string) option" where
  "read_port s =
     (case read_char (CHR '':'') s of
        None \<Rightarrow> None
      | Some t \<Rightarrow>
          (case read_number 10 None True 65536 t of
             None \<Rightarrow> None
           | Some (n, rest) \<Rightarrow> Some (of_nat n, rest)))"

text \<open>An optional scope identifier is read and dropped: no claim depends on it.\<close>

definition read_scope :: "string \<Rightarrow> string option" where
  "read_scope s =
     (case s of
        [] \<Rightarrow> Some []
      | c # t \<Rightarrow>
          if c = CHR ''%''
          then (case read_number 10 None True (2 ^ 32) t of None \<Rightarrow> Some s | Some (_, rest) \<Rightarrow> Some rest)
          else Some s)"

definition parse_socket_addr :: "string \<Rightarrow> socket_addr option" where
  "parse_socket_addr s =
     (case (case read_ipv4 s of
              None \<Rightarrow> None
            | Some ((a, b, c, d), s1) \<Rightarrow>
                (case read_port s1 of
                   Some (p, []) \<Rightarrow> Some \<lparr>sa_ip = Ipv4 a b c d, sa_port = p\<rparr>
                 | _ \<Rightarrow> None)) of
        Some r \<Rightarrow> Some r
      | None \<Rightarrow>
          (case read_char (CHR ''['') s of
             None \<Rightarrow> None
           | Some s1 \<Rightarrow>
               (case read_ipv6 s1 of
                  None \<Rightarrow> None
                | Some (gs, s2) \<Rightarrow>
                    (case read_scope s2 of
                       None \<Rightarrow> None
                     | Some s3 \<Rightarrow>
                         (case read_char (CHR '']'') s3 of
                            None \<Rightarrow> None
                          | Some s4 \<Rightarrow>
                              (case read_port s4 of
                                 Some (p, []) \<Rightarrow> Some \<lparr>sa_ip = Ipv6 gs, sa_port = p\<rparr>
                               | _ \<Rightarrow> None))))))"

section \<open>Reading back a printed IPv4 socket address\<close>

lemma digit_value_show:
  assumes "c \<in> set (show_radix r n)" "2 \<le> r" "r \<le> 16"
  shows "digit_value r c \<noteq> None"
  using show_radix_digits [of r n] assms digit_value_char [of _ r] by fastforce

lemma show_radix_no_leading_zero:
  assumes "2 \<le> r" "r \<le> 16" "hd (show_radix r n) = CHR ''0''"
  shows "n = 0"
  using assms(3)
proof (induction n rule: less_induct)
  case (less n)
  have zero: "d = 0" if "digit_char d = CHR ''0''" "d < 16" for d
  proof -
    have "(of_char (digit_char d) :: nat) = 48" using that(1) by simp
    then show ?thesis using that(2) by (auto simp: digit_char_def split: if_splits)
  qed
  show ?case
  proof (cases "n < r")
    case True
    then show ?thesis using less.prems zero [of n] assms(2)
      by (subst (asm) show_radix.simps) simp
  next
    case False
    then have "hd (show_radix r (n div r)) = CHR ''0''"
      using less.prems assms(1) by (subst (asm) show_radix.simps) simp
    moreover have "n div r < n" using False assms(1) by simp
    ultimately have "n div r = 0" by (rule less.IH [rotated])
    then show ?thesis using False assms(1) by (simp add: div_eq_0_iff)
  qed
qed

lemma read_number_show:
  assumes "2 \<le> r" "r \<le> 16" "n < bound" "rest = [] \<or> digit_value r (hd rest) = None"
    and "case max_digits of None \<Rightarrow> True | Some m \<Rightarrow> length (show_radix r n) \<le> m"
  shows "read_number r max_digits allow (bound) (show_radix r n @ rest) = Some (n, rest)"
proof -
  let ?d = "\<lambda>c. digit_value r c \<noteq> None"
  have all: "\<forall>c \<in> set (show_radix r n). ?d c" using digit_value_show assms(1,2) by blast
  have rest: "takeWhile ?d rest = []" "dropWhile ?d rest = rest"
    using assms(4) by (cases rest; auto)+
  have split: "takeWhile ?d (show_radix r n @ rest) = show_radix r n"
    "dropWhile ?d (show_radix r n @ rest) = rest"
    using all rest by (simp_all add: takeWhile_all dropWhile_all)
  have "\<not> (hd (show_radix r n) = CHR ''0'' \<and> 1 < length (show_radix r n))"
  proof
    assume z: "hd (show_radix r n) = CHR ''0'' \<and> 1 < length (show_radix r n)"
    then have "n = 0" using show_radix_no_leading_zero [OF assms(1,2)] by blast
    then have "length (show_radix r n) = 1" using assms(1) by (subst show_radix.simps) simp
    with z show False by simp
  qed
  then show ?thesis
    unfolding read_number_def Let_def split
    using assms parse_show_acc [of r n] by (auto split: option.splits)
qed

lemma digit_dot_colon [simp]:
  "digit_value 10 (CHR ''.'') = None" "digit_value 10 (CHR '':'') = None"
  by code_simp+

lemma read_octet_show:
  assumes "rest = [] \<or> hd rest \<in> {CHR ''.'', CHR '':''}"
  shows "read_octet 0 (show_uint b @ rest) = Some (b, rest)"
    "0 < i \<Longrightarrow> read_octet i (CHR ''.'' # show_uint b @ rest) = Some (b, rest)"
proof -
  have b: "unat b < 256" using unsigned_less [of b, where 'a = nat] by simp
  then have "length (show_nat (unat b)) \<le> 3" by (intro length_show_radix_le) auto
  then have "read_number 10 (Some 3) False 256 (show_nat (unat b) @ rest) = Some (unat b, rest)"
    using assms b by (intro read_number_show) auto
  then show "read_octet 0 (show_uint b @ rest) = Some (b, rest)"
    "0 < i \<Longrightarrow> read_octet i (CHR ''.'' # show_uint b @ rest) = Some (b, rest)"
    by (simp_all add: read_octet_def read_sep_def read_char_def show_uint_def)
qed

lemma read_ipv4_show:
  assumes "rest = [] \<or> hd rest = CHR '':''"
  shows "read_ipv4 (show_ipv4 a b c d @ rest) = Some ((a, b, c, d), rest)"
  using assms read_octet_show(2) [of "[]" 3 d] by (auto simp: read_ipv4_def show_ipv4_def read_octet_show)

lemma read_port_show: "read_port (CHR '':'' # show_uint p) = Some (p, [])"
proof -
  have p: "unat p < 65536" using unsigned_less [of p, where 'a = nat] by simp
  have "read_number 10 None True 65536 (show_nat (unat p) @ []) = Some (unat p, [])"
    using p by (intro read_number_show) auto
  then show ?thesis by (simp add: read_port_def read_char_def show_uint_def)
qed

lemma parse_ip_v4 [simp]: "parse_ip (show_ipv4 a b c d) = Some (Ipv4 a b c d)"
  using read_ipv4_show [of "[]" a b c d] by (simp add: parse_ip_def)

lemma parse_socket_addr_v4 [simp]:
  "parse_socket_addr (show_ipv4 a b c d @ CHR '':'' # show_uint p) = Some \<lparr>sa_ip = Ipv4 a b c d, sa_port = p\<rparr>"
  using read_ipv4_show [of "CHR '':'' # show_uint p" a b c d] by (simp add: parse_socket_addr_def read_port_show)

text \<open>What the server prints for an address without brackets is a socket address only for IPv4.\<close>

lemma parse_socket_addr_unbracketed:
  assumes "read_ipv4 s = None" "s = [] \<or> hd s \<noteq> CHR ''[''"
  shows "parse_socket_addr s = None"
  using assms by (cases s) (simp_all add: parse_socket_addr_def read_char_def)

lemma read_ipv4_needs_dot:
  assumes "CHR ''.'' \<notin> set s"
  shows "read_ipv4 s = None"
proof (cases "read_octet 0 s")
  case (Some p)
  obtain a s1 where p: "p = (a, s1)" by (cases p)
  have "suffix s1 s"
    using Some p
    by (auto simp: read_octet_def read_sep_def read_number_def Let_def suffix_dropWhile
        split: option.splits if_splits)
  then have "read_octet 1 s1 = None"
    using assms by (cases s1) (auto simp: read_octet_def read_sep_def read_char_def suffix_def)
  then show ?thesis by (simp add: read_ipv4_def Some p)
qed (simp add: read_ipv4_def)

end
