(* ===== verification/Acl.thy ===== *)
theory Acl
  imports Net_Addr "HOL-Library.Product_Lexorder"
begin

text \<open>
  \<open>backend/src/acl.rs\<close>, the ban of \<open>backend/src/security_guard.rs\<close> and the administration handlers of
  \<open>backend/src/api/acl.rs\<close>: the table \<open>sip_acl\<close>, the rules loaded from it by priority, the first-match
  check, the automatic ban of an address. The networks of the crate \<open>ipnet\<close> are a parameter (their
  parser, printer and membership test); a failing database query is an argument that carries the
  error text.
\<close>

section \<open>Rules and their evaluation\<close>

datatype acl_action = AclAllow | AclDeny

datatype default_policy = PolicyAllow | PolicyDeny

definition from_config :: "string \<Rightarrow> default_policy" where
  "from_config s = (if to_lower (trim s) = ''deny'' then PolicyDeny else PolicyAllow)"

definition policy_is_allowed :: "default_policy \<Rightarrow> bool" where
  "policy_is_allowed p = (p = PolicyAllow)"

record 'net ipnet =
  net_parse :: "string \<Rightarrow> string + 'net"
  net_contains :: "'net \<Rightarrow> ip_addr \<Rightarrow> bool"
  net_show :: "'net \<Rightarrow> string"

record 'net acl_rule =
  r_action :: acl_action
  r_network :: 'net

record 'net acl_checker =
  c_rules :: "'net acl_rule list"
  c_default_policy :: default_policy

definition checker_new :: "default_policy \<Rightarrow> 'net acl_checker" where
  "checker_new p = \<lparr>c_rules = [], c_default_policy = p\<rparr>"

fun rules_allow :: "'net ipnet \<Rightarrow> default_policy \<Rightarrow> 'net acl_rule list \<Rightarrow> ip_addr \<Rightarrow> bool" where
  "rules_allow N p [] ip = policy_is_allowed p"
| "rules_allow N p (rule # rules) ip =
     (if net_contains N (r_network rule) ip then r_action rule = AclAllow else rules_allow N p rules ip)"

definition is_allowed :: "'net ipnet \<Rightarrow> 'net acl_checker \<Rightarrow> ip_addr \<Rightarrow> bool" where
  "is_allowed N c ip = rules_allow N (c_default_policy c) (c_rules c) ip"

section \<open>The table\<close>

record acl_row =
  a_id :: nat
  a_action :: string
  a_cidr :: string
  a_description :: "string option"
  a_priority :: int
  a_enabled :: int

text \<open>The rows with the next value of the auto-increment key.\<close>

record acl_table =
  at_rows :: "acl_row list"
  at_next :: nat

definition row_key :: "acl_row \<Rightarrow> int \<times> nat" where
  "row_key r = (a_priority r, a_id r)"

definition enabled_rows :: "acl_table \<Rightarrow> acl_row list" where
  "enabled_rows t = sort_key row_key (filter (\<lambda>r. a_enabled r = 1) (at_rows t))"

definition row_rule :: "'net ipnet \<Rightarrow> acl_row \<Rightarrow> 'net acl_rule option" where
  "row_rule N r =
     (case net_parse N (a_cidr r) of
        Inl _ \<Rightarrow> None
      | Inr network \<Rightarrow>
          if a_action r = ''allow'' then Some \<lparr>r_action = AclAllow, r_network = network\<rparr>
          else if a_action r = ''deny'' then Some \<lparr>r_action = AclDeny, r_network = network\<rparr>
          else None)"

definition load_from_db ::
  "'net ipnet \<Rightarrow> string option \<Rightarrow> acl_table \<Rightarrow> default_policy \<Rightarrow> (string, 'net acl_checker) outcome" where
  "load_from_db N fault t p =
     (case fault of
        Some e \<Rightarrow> Err e
      | None \<Rightarrow> Ok \<lparr>c_rules = List.map_filter (row_rule N) (enabled_rows t), c_default_policy = p\<rparr>)"

definition parse_cidr :: "'net ipnet \<Rightarrow> string \<Rightarrow> (string, string) outcome" where
  "parse_cidr N s =
     (case net_parse N s of
        Inr n \<Rightarrow> Ok (net_show N n)
      | Inl e \<Rightarrow> Err (''invalid CIDR '' @ [CHR 0x27] @ s @ [CHR 0x27] @ '': '' @ e))"

section \<open>The automatic ban\<close>

fun host_cidr :: "ip_addr \<Rightarrow> string" where
  "host_cidr (Ipv4 a b c d) = show_ipv4 a b c d @ ''/32''"
| "host_cidr (Ipv6 gs) = show_ipv6 gs @ ''/128''"

definition insert_row :: "acl_table \<Rightarrow> string \<Rightarrow> string \<Rightarrow> string option \<Rightarrow> int \<Rightarrow> int \<Rightarrow> acl_table" where
  "insert_row t action cidr description priority enabled =
     \<lparr>at_rows = at_rows t @ [\<lparr>a_id = at_next t, a_action = action, a_cidr = cidr,
        a_description = description, a_priority = priority, a_enabled = enabled\<rparr>],
      at_next = at_next t + 1\<rparr>"

definition persist_acl_ban ::
  "string option \<Rightarrow> ip_addr \<Rightarrow> int \<Rightarrow> string \<Rightarrow> acl_table \<Rightarrow> (string, unit) outcome \<times> acl_table" where
  "persist_acl_ban fault ip priority description t =
     (case fault of
        Some e \<Rightarrow> (Err e, t)
      | None \<Rightarrow>
          (let cidr = host_cidr ip in
           if list_ex (\<lambda>r. a_action r = ''deny'' \<and> a_cidr r = cidr \<and> a_enabled r = 1) (at_rows t)
           then (Ok (), t)
           else (Ok (), insert_row t ''deny'' cidr (Some description) priority 1)))"

section \<open>The administration handlers\<close>

type_synonym http_error = "u16 \<times> string"

record create_acl_entry =
  ca_action :: string
  ca_cidr :: string
  ca_description :: "string option"
  ca_priority :: "int option"
  ca_enabled :: "int option"

record update_acl_entry =
  ua_action :: "string option"
  ua_cidr :: "string option"
  ua_description :: "string option"
  ua_priority :: "int option"
  ua_enabled :: "int option"

definition bad_action :: string where
  "bad_action = ''action must be '' @ [CHR 0x27] @ ''allow'' @ [CHR 0x27] @ '' or '' @
     [CHR 0x27] @ ''deny'' @ [CHR 0x27]"

definition valid_action :: "string \<Rightarrow> bool" where
  "valid_action a = (a = ''allow'' \<or> a = ''deny'')"

definition acl_list :: "string option \<Rightarrow> acl_table \<Rightarrow> (http_error, acl_row list) outcome" where
  "acl_list fault t = (case fault of Some e \<Rightarrow> Err (500, e) | None \<Rightarrow> Ok (sort_key row_key (at_rows t)))"

definition acl_create ::
  "'net ipnet \<Rightarrow> string option \<Rightarrow> create_acl_entry \<Rightarrow> acl_table \<Rightarrow> (http_error, nat) outcome \<times> acl_table" where
  "acl_create N fault body t =
     (if \<not> valid_action (ca_action body) then (Err (400, bad_action), t)
      else (case parse_cidr N (ca_cidr body) of
              Err e \<Rightarrow> (Err (400, e), t)
            | Panic \<Rightarrow> (Panic, t)
            | Ok canonical_cidr \<Rightarrow>
                (case fault of
                   Some e \<Rightarrow> (Err (500, e), t)
                 | None \<Rightarrow>
                     (Ok (at_next t),
                      insert_row t (ca_action body) canonical_cidr (ca_description body)
                        (case ca_priority body of None \<Rightarrow> 100 | Some p \<Rightarrow> p)
                        (case ca_enabled body of None \<Rightarrow> 1 | Some x \<Rightarrow> x)))))"

definition coalesce :: "'a option \<Rightarrow> 'a \<Rightarrow> 'a" where
  "coalesce v old = (case v of None \<Rightarrow> old | Some x \<Rightarrow> x)"

definition update_row :: "update_acl_entry \<Rightarrow> string option \<Rightarrow> acl_row \<Rightarrow> acl_row" where
  "update_row body cidr r =
     r\<lparr>a_action := coalesce (ua_action body) (a_action r),
       a_cidr := coalesce cidr (a_cidr r),
       a_description := (case ua_description body of None \<Rightarrow> a_description r | Some d \<Rightarrow> Some d),
       a_priority := coalesce (ua_priority body) (a_priority r),
       a_enabled := coalesce (ua_enabled body) (a_enabled r)\<rparr>"

definition acl_update ::
  "'net ipnet \<Rightarrow> string option \<Rightarrow> nat \<Rightarrow> update_acl_entry \<Rightarrow> acl_table \<Rightarrow> (http_error, unit) outcome \<times> acl_table" where
  "acl_update N fault rid body t =
     (if (case ua_action body of None \<Rightarrow> False | Some a \<Rightarrow> \<not> valid_action a) then (Err (400, bad_action), t)
      else (let canonical = (case ua_cidr body of
                  None \<Rightarrow> Ok None
                | Some c \<Rightarrow> (case parse_cidr N c of Ok x \<Rightarrow> Ok (Some x) | Err e \<Rightarrow> Err e | Panic \<Rightarrow> Panic))
            in case canonical of
                 Err e \<Rightarrow> (Err (400, e), t)
               | Panic \<Rightarrow> (Panic, t)
               | Ok cidr \<Rightarrow>
                   (case fault of
                      Some e \<Rightarrow> (Err (500, e), t)
                    | None \<Rightarrow>
                        (Ok (), t\<lparr>at_rows := map (\<lambda>r. if a_id r = rid then update_row body cidr r else r)
                           (at_rows t)\<rparr>))))"

definition delete_rule :: "string option \<Rightarrow> nat \<Rightarrow> acl_table \<Rightarrow> (http_error, unit) outcome \<times> acl_table" where
  "delete_rule fault rid t =
     (case fault of
        Some e \<Rightarrow> (Err (500, e), t)
      | None \<Rightarrow> (Ok (), t\<lparr>at_rows := filter (\<lambda>r. a_id r \<noteq> rid) (at_rows t)\<rparr>))"

section \<open>The table invariant\<close>

definition acl_wf :: "acl_table \<Rightarrow> bool" where
  "acl_wf t = (distinct (map a_id (at_rows t)) \<and> (\<forall>r \<in> set (at_rows t). a_id r < at_next t \<and> valid_action (a_action r)))"

datatype acl_op =
    Create "string option" create_acl_entry
  | Update "string option" nat update_acl_entry
  | Delete "string option" nat
  | Ban "string option" ip_addr int string

fun acl_step :: "'net ipnet \<Rightarrow> acl_op \<Rightarrow> acl_table \<Rightarrow> acl_table" where
  "acl_step N (Create f b) t = snd (acl_create N f b t)"
| "acl_step N (Update f i b) t = snd (acl_update N f i b t)"
| "acl_step N (Delete f i) t = snd (delete_rule f i t)"
| "acl_step N (Ban f ip p d) t = snd (persist_acl_ban f ip p d t)"

lemma acl_wf_insert: "acl_wf t \<Longrightarrow> valid_action a \<Longrightarrow> acl_wf (insert_row t a c d p e)"
  by (auto simp: acl_wf_def insert_row_def less_SucI)

lemma acl_wf_update:
  assumes "acl_wf t" "case ua_action body of None \<Rightarrow> True | Some a \<Rightarrow> valid_action a"
  shows "acl_wf (t\<lparr>at_rows := map (\<lambda>r. if a_id r = i then update_row body c r else r) (at_rows t)\<rparr>)"
proof -
  have "a_id \<circ> (\<lambda>r. if a_id r = i then update_row body c r else r) = a_id"
    by (auto simp: fun_eq_iff update_row_def)
  then show ?thesis
    using assms by (auto simp: acl_wf_def update_row_def coalesce_def split: option.splits)
qed

lemma acl_wf_delete: "acl_wf t \<Longrightarrow> acl_wf (t\<lparr>at_rows := filter P (at_rows t)\<rparr>)"
  by (auto simp: acl_wf_def distinct_map_filter)

interpretation acl_kept: kept_invariant "acl_step N" acl_wf for N :: "'net ipnet"
proof
  fix t :: acl_table and c
  assume wf: "acl_wf t"
  show "acl_wf (acl_step N c t)"
  proof (cases c)
    case (Create f b)
    then show ?thesis using wf acl_wf_insert
      by (auto simp: acl_create_def Let_def split: outcome.splits option.splits)
  next
    case (Update f i b)
    then show ?thesis using wf acl_wf_update [OF wf, of b i]
      by (auto simp: acl_update_def Let_def split: outcome.splits option.splits)
  next
    case (Delete f i)
    then show ?thesis using wf acl_wf_delete by (auto simp: delete_rule_def split: option.splits)
  next
    case (Ban f ip p d)
    then show ?thesis using wf acl_wf_insert [OF wf, of "''deny''"]
      by (auto simp: persist_acl_ban_def Let_def valid_action_def split: option.splits)
  qed
qed

section \<open>First match\<close>

definition decides :: "'net ipnet \<Rightarrow> ip_addr \<Rightarrow> acl_row \<Rightarrow> bool" where
  "decides N ip r =
     (a_enabled r = 1 \<and> valid_action (a_action r) \<and>
      (case net_parse N (a_cidr r) of Inl _ \<Rightarrow> False | Inr n \<Rightarrow> net_contains N n ip))"

lemma rules_allow_rows:
  assumes "\<forall>r \<in> set rs. a_enabled r = 1"
  shows "rules_allow N p (List.map_filter (row_rule N) rs) ip =
    (case find (decides N ip) rs of None \<Rightarrow> policy_is_allowed p | Some r \<Rightarrow> a_action r = ''allow'')"
  using assms
proof (induction rs)
  case (Cons r rs)
  then show ?case
    by (auto simp: List.map_filter_simps row_rule_def decides_def valid_action_def split: sum.splits)
qed (simp add: List.map_filter_simps)

lemma find_sorted:
  assumes "sorted (map f xs)" "x \<in> set xs" "P x" "\<And>y. y \<in> set xs \<Longrightarrow> P y \<Longrightarrow> y \<noteq> x \<Longrightarrow> f x < f y"
  shows "find P xs = Some x"
  using assms
proof (induction xs)
  case (Cons y ys)
  show ?case
  proof (cases "P y")
    case True
    have "y = x"
    proof (rule ccontr)
      assume ne: "y \<noteq> x"
      then have "x \<in> set ys" "f x < f y" using Cons.prems True by auto
      then show False using Cons.prems(1) by fastforce
    qed
    then show ?thesis using True by simp
  next
    case False
    then have "x \<in> set ys" using Cons.prems by auto
    then show ?thesis using False Cons.IH Cons.prems by simp
  qed
qed simp

lemma enabled_rows_props:
  "sorted (map row_key (enabled_rows t))" "\<forall>r \<in> set (enabled_rows t). a_enabled r = 1"
  "set (enabled_rows t) = {r \<in> set (at_rows t). a_enabled r = 1}"
  by (auto simp: enabled_rows_def)

lemma load_allows:
  assumes "load_from_db N None t p = Ok c"
  shows "is_allowed N c ip = (case find (decides N ip) (enabled_rows t) of
    None \<Rightarrow> policy_is_allowed p | Some r \<Rightarrow> a_action r = ''allow'')"
  using assms rules_allow_rows [OF enabled_rows_props(2), of N p t ip]
  by (auto simp: load_from_db_def is_allowed_def)

lemma row_key_inj:
  assumes "acl_wf t" "r \<in> set (at_rows t)" "r' \<in> set (at_rows t)" "row_key r = row_key r'"
  shows "r = r'"
  using assms by (auto simp: acl_wf_def row_key_def distinct_map inj_on_def)

lemma decided_by:
  assumes "acl_wf t" "load_from_db N None t p = Ok c" "r \<in> set (at_rows t)" "decides N ip r"
    and "\<forall>r' \<in> set (at_rows t). decides N ip r' \<longrightarrow> row_key r \<le> row_key r'"
  shows "is_allowed N c ip \<longleftrightarrow> a_action r = ''allow''"
proof -
  have en: "a_enabled r = 1" using assms(4) by (simp add: decides_def)
  have "find (decides N ip) (enabled_rows t) = Some r"
  proof (rule find_sorted [OF enabled_rows_props(1)])
    show "r \<in> set (enabled_rows t)" using assms(3) en enabled_rows_props(3) by simp
    show "decides N ip r" by fact
    fix y assume y: "y \<in> set (enabled_rows t)" "decides N ip y" "y \<noteq> r"
    then have "y \<in> set (at_rows t)" using enabled_rows_props(3) by simp
    then show "row_key r < row_key y"
      using assms(5) y row_key_inj [OF assms(1,3)] by (metis order_le_less)
  qed
  then show ?thesis using load_allows [OF assms(2)] by simp
qed

lemma undecided:
  assumes "load_from_db N None t p = Ok c" "\<forall>r \<in> set (at_rows t). \<not> decides N ip r"
  shows "is_allowed N c ip \<longleftrightarrow> policy_is_allowed p"
proof -
  have "find (decides N ip) (enabled_rows t) = None"
    using assms(2) enabled_rows_props(3) by (auto simp: find_None_iff)
  then show ?thesis using load_allows [OF assms(1)] by simp
qed

lemma find_sorted_least:
  assumes "sorted (map f xs)" "find P xs = Some x" "y \<in> set xs" "P y"
  shows "f x \<le> f y"
  using assms
proof (induction xs)
  case (Cons z zs)
  then show ?case by (cases "P z") auto
qed simp

section \<open>The properties\<close>

text \<open>
  C27: the loaded access list decides by the enabled, valid rule of lowest priority value (the
  older one on a tie) whose network contains the address, and by the default policy when there is
  no such rule; rules with an unreadable network or action are ignored.
\<close>

theorem acl_first_match:
  assumes "acl_wf t" "load_from_db N None t p = Ok c"
  shows "(\<forall>r \<in> set (at_rows t). decides N ip r \<and>
      (\<forall>r' \<in> set (at_rows t). decides N ip r' \<longrightarrow> row_key r \<le> row_key r') \<longrightarrow>
      (is_allowed N c ip \<longleftrightarrow> a_action r = ''allow'')) \<and>
    ((\<forall>r \<in> set (at_rows t). \<not> decides N ip r) \<longrightarrow> (is_allowed N c ip \<longleftrightarrow> policy_is_allowed p))"
  using decided_by [OF assms] undecided [OF assms(2)] by blast

definition host_only :: "ip_addr ipnet" where
  "host_only = \<lparr>net_parse = (\<lambda>s. case parse_ip (hd (split_on (CHR ''/'') s)) of None \<Rightarrow> Inl ''invalid'' | Some a \<Rightarrow> Inr a),
     net_contains = (=), net_show = show_ip\<rparr>"

definition example_table :: acl_table where
  "example_table = \<lparr>at_rows =
     [\<lparr>a_id = 1, a_action = ''allow'', a_cidr = ''10.0.0.1/32'', a_description = None, a_priority = 100, a_enabled = 1\<rparr>,
      \<lparr>a_id = 2, a_action = ''deny'', a_cidr = ''10.0.0.1/32'', a_description = None, a_priority = 10, a_enabled = 1\<rparr>,
      \<lparr>a_id = 3, a_action = ''allow'', a_cidr = ''10.0.0.1/32'', a_description = None, a_priority = 1, a_enabled = 0\<rparr>],
     at_next = 4\<rparr>"

theorem acl_first_match_witness:
  "\<exists>c. load_from_db host_only None example_table PolicyAllow = Ok c \<and>
     \<not> is_allowed host_only c (Ipv4 10 0 0 1) \<and> is_allowed host_only c (Ipv4 10 0 0 2)"
proof -
  obtain c where c: "load_from_db host_only None example_table PolicyAllow = Ok c"
    by (simp add: load_from_db_def)
  have wf: "acl_wf example_table" by code_simp
  note first = acl_first_match [OF wf c]
  let ?r = "at_rows example_table ! 1"
  have r: "?r \<in> set (at_rows example_table)" "decides host_only (Ipv4 10 0 0 1) ?r"
    "\<forall>r' \<in> set (at_rows example_table). decides host_only (Ipv4 10 0 0 1) r' \<longrightarrow> row_key ?r \<le> row_key r'"
    by code_simp+
  have "\<not> is_allowed host_only c (Ipv4 10 0 0 1)"
    using first [of "Ipv4 10 0 0 1"] r by (simp add: example_table_def)
  moreover have "\<forall>r \<in> set (at_rows example_table). \<not> decides host_only (Ipv4 10 0 0 2) r" by code_simp
  then have "is_allowed host_only c (Ipv4 10 0 0 2)"
    using first [of "Ipv4 10 0 0 2"] by (simp add: policy_is_allowed_def)
  ultimately show ?thesis using c by blast
qed

text \<open>What the crate documents of a host network: it parses and contains its address alone.\<close>

definition host_network :: "'net ipnet \<Rightarrow> ip_addr \<Rightarrow> bool" where
  "host_network N ip = (\<exists>n. net_parse N (host_cidr ip) = Inr n \<and> (\<forall>a. net_contains N n a \<longleftrightarrow> a = ip))"

lemma ban_row_decides:
  assumes "host_network N ip" "a_cidr r = host_cidr ip" "a_action r = ''deny''" "a_enabled r = 1"
  shows "decides N a r \<longleftrightarrow> a = ip"
proof -
  obtain n where "net_parse N (host_cidr ip) = Inr n" "\<And>a. net_contains N n a \<longleftrightarrow> a = ip"
    using assms(1) unfolding host_network_def by blast
  then show ?thesis using assms(2-4) by (simp add: decides_def valid_action_def)
qed

lemma find_other:
  assumes "sorted (map f xs)" "sorted (map f ys)" "set ys = insert z (set xs)" "\<not> P z"
    and "inj_on f (set ys)"
  shows "find P ys = find P xs"
proof (cases "\<exists>x \<in> set xs. P x")
  case True
  let ?S = "{x \<in> set xs. P x}"
  have fin: "finite (f ` ?S)" "f ` ?S \<noteq> {}" using True by auto
  obtain x where x: "x \<in> ?S" "f x = Min (f ` ?S)" using Min_in [OF fin] by auto
  have less: "f x < f y" if "y \<in> set ys" "P y" "y \<noteq> x" for y
  proof -
    have "y \<in> ?S" using that assms(3,4) by auto
    then have "f x \<le> f y" using x(2) fin(1) by auto
    moreover have "f x \<noteq> f y" using that x(1) assms(3,5) by (auto simp: inj_on_def)
    ultimately show ?thesis by simp
  qed
  have "x \<in> set xs" "x \<in> set ys" "P x" using x(1) assms(3) by auto
  then show ?thesis
    using find_sorted [OF assms(1), of x P] find_sorted [OF assms(2), of x P] less assms(3) by simp
next
  case False
  then have "find P xs = None" "find P ys = None" using assms(3,4) by (auto simp: find_None_iff)
  then show ?thesis by simp
qed

text \<open>
  C18: an automatic ban takes effect and only where it should. On a table without an enabled ban of
  the address, after the ban every reload denies the address unless an enabled rule of at most the
  ban's priority value allows it, decides every other address as before, and banning again changes
  nothing.
\<close>

theorem acl_ban_effect:
  assumes "acl_wf t" "host_network N ip"
    and "\<forall>r \<in> set (at_rows t). \<not> (a_action r = ''deny'' \<and> a_cidr r = host_cidr ip \<and> a_enabled r = 1)"
    and "persist_acl_ban None ip prio descr t = (Ok (), t')"
    and "load_from_db N None t p = Ok c" "load_from_db N None t' p = Ok c'"
  shows "((\<forall>r \<in> set (at_rows t). decides N ip r \<and> a_action r = ''allow'' \<longrightarrow> prio < a_priority r) \<longrightarrow>
      \<not> is_allowed N c' ip) \<and>
    (\<forall>a. a \<noteq> ip \<longrightarrow> is_allowed N c' a = is_allowed N c a) \<and>
    persist_acl_ban None ip prio descr t' = (Ok (), t')"
proof (intro conjI allI impI)
  let ?b = "\<lparr>a_id = at_next t, a_action = ''deny'', a_cidr = host_cidr ip, a_description = Some descr,
    a_priority = prio, a_enabled = 1\<rparr>"
  have t': "at_rows t' = at_rows t @ [?b]"
  proof -
    have "\<not> list_ex (\<lambda>r. a_action r = ''deny'' \<and> a_cidr r = host_cidr ip \<and> a_enabled r = 1) (at_rows t)"
      using assms(3) unfolding list_ex_iff by blast
    then have "t' = insert_row t ''deny'' (host_cidr ip) (Some descr) prio 1"
      using assms(4) unfolding persist_acl_ban_def Let_def by simp
    then show ?thesis by (simp add: insert_row_def)
  qed
  have wf': "acl_wf t'"
    using acl_kept.step_inv [OF assms(1), of N "Ban None ip prio descr"] assms(4) by simp
  have b: "decides N a ?b \<longleftrightarrow> a = ip" for a by (rule ban_row_decides [OF assms(2)]) simp_all
  show "persist_acl_ban None ip prio descr t' = (Ok (), t')"
    by (simp add: persist_acl_ban_def t' Let_def)
  show "is_allowed N c' a = is_allowed N c a" if "a \<noteq> ip" for a
  proof -
    have "set (enabled_rows t') = insert ?b (set (enabled_rows t))"
      by (auto simp: enabled_rows_props(3) t')
    moreover have "inj_on row_key (set (enabled_rows t'))"
      using row_key_inj [OF wf'] by (auto simp: inj_on_def enabled_rows_props(3))
    ultimately have "find (decides N a) (enabled_rows t') = find (decides N a) (enabled_rows t)"
      using b that by (intro find_other [OF enabled_rows_props(1) enabled_rows_props(1)]) auto
    then show ?thesis using load_allows [OF assms(5)] load_allows [OF assms(6)] by simp
  qed
  show "\<not> is_allowed N c' ip"
    if low: "\<forall>r \<in> set (at_rows t). decides N ip r \<and> a_action r = ''allow'' \<longrightarrow> prio < a_priority r"
  proof -
    have be: "?b \<in> set (enabled_rows t')" using t' by (simp add: enabled_rows_props(3))
    then obtain r where r: "find (decides N ip) (enabled_rows t') = Some r"
      using b [of ip] by (metis find_None_iff not_Some_eq)
    have "a_action r \<noteq> ''allow''"
    proof
      assume allow: "a_action r = ''allow''"
      have d: "r \<in> set (enabled_rows t')" "decides N ip r"
        using r by (metis find_Some_iff nth_mem)+
      have "r \<noteq> ?b" using allow by auto
      then have "r \<in> set (at_rows t)" using d(1) t' by (simp add: enabled_rows_props(3))
      with d(2) have "row_key ?b < row_key r" using low allow by (simp add: row_key_def less_prod_def')
      moreover have "row_key r \<le> row_key ?b"
        by (rule find_sorted_least [OF enabled_rows_props(1) r be]) (simp add: b)
      ultimately show False by simp
    qed
    then show ?thesis using load_allows [OF assms(6)] r by simp
  qed
qed

theorem acl_ban_effect_witness:
  "\<exists>t' c'. persist_acl_ban None (Ipv4 10 0 0 7) 5 ''auto-ban'' example_table = (Ok (), t') \<and>
     load_from_db host_only None t' PolicyAllow = Ok c' \<and> \<not> is_allowed host_only c' (Ipv4 10 0 0 7)"
proof -
  let ?ip = "Ipv4 10 0 0 7"
  obtain c where c: "load_from_db host_only None example_table PolicyAllow = Ok c"
    by (simp add: load_from_db_def)
  obtain t' where t': "persist_acl_ban None ?ip 5 ''auto-ban'' example_table = (Ok (), t')"
    by (cases "persist_acl_ban None ?ip 5 ''auto-ban'' example_table")
      (auto simp: persist_acl_ban_def Let_def split: if_splits)
  obtain c' where c': "load_from_db host_only None t' PolicyAllow = Ok c'"
    by (simp add: load_from_db_def)
  have "net_parse host_only (host_cidr ?ip) = Inr ?ip" by code_simp
  then have host: "host_network host_only ?ip"
    by (auto simp: host_network_def host_only_def)
  have "acl_wf example_table" "\<forall>r \<in> set (at_rows example_table).
      \<not> (a_action r = ''deny'' \<and> a_cidr r = host_cidr ?ip \<and> a_enabled r = 1)"
    "\<forall>r \<in> set (at_rows example_table). decides host_only ?ip r \<and> a_action r = ''allow'' \<longrightarrow> 5 < a_priority r"
    by code_simp+
  with acl_ban_effect [OF _ host _ t' c c'] show ?thesis using t' c' by blast
qed

end
