(* ===== verification/Server_State.thy ===== *)
theory Server_State
  imports Sip_Response Security_Guard Acl
begin

text \<open>
  What the SIP handlers share: the configuration they read, the tables of the database they use, the
  login guard, the connections of \<open>transport.rs\<close>, and the datagrams they send. The outside world of one
  request is an environment: the clocks, the random bytes, which SQL statements fail, and which sends
  fail. A SQL statement is an operation on a table; text columns compare by equality of strings, and a
  statement that fails changes nothing. The MD5 crate is the parameter \<open>md5\<close> of the definitions that
  hash.
\<close>

section \<open>The outside world\<close>

text \<open>The SQL statements of the modelled code.\<close>

datatype sql_query =
    PersistEvent security_event_type | PersistBan
  | AccountLookup | DeleteRegistration | UpsertRegistration
  | DeleteSubscription | UpsertSubscription | SelectCseq | SelectSubscriptions | UpdateCseq | CountRegistrations
  | SelectWebhooks | InsertDelivery
  | SelectSource | UpdateSource | SelectTarget | SelectContact | CallerLookup | UpsertCall | UpdateCall | InsertMessage
  | SelectMwi | UpsertMwi | DeleteMwi | UpdateMwi | CountMwi
  | SelectBox | ListVoicemails | CountVoicemails | UpdateVoicemail | InsertVoicemail | SelectPinHash | SelectGreeting
  | SelectRoom | SelectRoomPin | CountParticipants | UpsertParticipant | LeaveParticipant | MuteParticipant | EndParticipants
  | EndStaleCalls | PurgeCalls | PurgeRegistrations | PurgeSubscriptions | LoadAcl

record env =
  ev_instant :: nat
  ev_utc :: nat
  ev_random :: "nat \<Rightarrow> u8"
  ev_fails :: "sql_query \<Rightarrow> bool"
  ev_send_fails :: "socket_addr \<Rightarrow> bool"

definition db_error :: string where
  "db_error = ''database error''"

definition generate_random_hex :: "env \<Rightarrow> nat \<Rightarrow> string" where
  "generate_random_hex env bytes = concat (map (\<lambda>i. show_hex_pad 2 (unat (ev_random env i))) [0..<bytes])"

section \<open>Configuration and tables\<close>

record sip_config =
  cfg_sip_domain :: string
  cfg_public_ip :: string
  cfg_nonce_secret :: string
  cfg_nonce_max_age_secs :: u64
  cfg_registration_expires :: u32
  cfg_persist_acl_bans :: bool
  cfg_acl_ban_priority :: int
  cfg_sip_port :: u16
  cfg_voicemail_access_extension :: string
  cfg_voicemail_idle_timeout_secs :: u32
  cfg_rtp_port_min :: u16
  cfg_rtp_port_max :: u16
  cfg_conference_rtp_port_min :: u16
  cfg_conference_rtp_port_max :: u16
  cfg_voicemail_rtp_port_min :: u16
  cfg_voicemail_rtp_port_max :: u16
  cfg_voicemail_storage_dir :: string
  cfg_window_secs :: u64
  cfg_block_secs :: u64
  cfg_sip_ip_fail_threshold :: u32
  cfg_sip_user_ip_fail_threshold :: u32
  cfg_sip_invite_ip_fail_threshold :: u32
  cfg_sip_invite_user_ip_fail_threshold :: u32
  cfg_acl_default_policy :: string

record account =
  ac_ha1_hash :: "string option"
  ac_enabled :: int

record registration =
  rg_contact_uri :: string
  rg_user_agent :: string
  rg_expires_at :: nat
  rg_source_ip :: string
  rg_source_port :: u16

record subscription =
  sb_call_id :: string
  sb_cseq :: u32
  sb_subscriber_tag :: string
  sb_subscriber_ip :: string
  sb_subscriber_port :: u16
  sb_expires_at :: nat

record security_event =
  se_surface :: auth_surface
  se_event_type :: security_event_type
  se_source_ip :: string
  se_username :: "string option"
  se_detail :: string

record webhook =
  wh_id :: nat
  wh_active :: bool
  wh_events :: "string list"

record delivery =
  dl_webhook_id :: nat
  dl_event_type :: string
  dl_payload :: "(string \<times> string) list"

record server_state =
  sv_guard :: security_guard
  sv_accounts :: "(string \<times> string, account) hmap"
  sv_registrations :: "(string \<times> string, registration) hmap"
  sv_subscriptions :: "(string \<times> string \<times> string, subscription) hmap"
  sv_events :: "security_event list"
  sv_acl :: acl_table
  sv_webhooks :: "webhook list"
  sv_deliveries :: "delivery list"
  sv_streams :: "(socket_addr, string list option) hmap"
  sv_outbox :: "(socket_addr \<times> string) list"

section \<open>Security events, bans and webhooks\<close>

text \<open>The callers log a failed insert and go on.\<close>

definition persist_security_event ::
  "env \<Rightarrow> auth_surface \<Rightarrow> security_event_type \<Rightarrow> string \<Rightarrow> string option \<Rightarrow> string
    \<Rightarrow> 'a server_state_scheme \<Rightarrow> 'a server_state_scheme" where
  "persist_security_event env surface event ip user detail st =
     (if ev_fails env (PersistEvent event) then st
      else st\<lparr>sv_events := sv_events st @ [\<lparr>se_surface = surface, se_event_type = event, se_source_ip = ip,
              se_username = user, se_detail = detail\<rparr>]\<rparr>)"

definition persist_ban ::
  "sip_config \<Rightarrow> env \<Rightarrow> ip_addr \<Rightarrow> string \<Rightarrow> 'a server_state_scheme \<Rightarrow> 'a server_state_scheme" where
  "persist_ban cfg env ip description st =
     st\<lparr>sv_acl := snd (persist_acl_ban (if ev_fails env PersistBan then Some db_error else None) ip
          (cfg_acl_ban_priority cfg) description (sv_acl st))\<rparr>"

text \<open>\<open>WebhookDispatcher::enqueue\<close>; the subscribed events are the decoded \<open>events_json\<close>.\<close>

fun enqueue_rows :: "env \<Rightarrow> string \<Rightarrow> (string \<times> string) list \<Rightarrow> webhook list \<Rightarrow> delivery list \<Rightarrow> (string, unit) outcome \<times> delivery list" where
  "enqueue_rows env event payload [] ds = (Ok (), ds)"
| "enqueue_rows env event payload (w # ws) ds =
     (if event \<notin> set (wh_events w) then enqueue_rows env event payload ws ds
      else if ev_fails env InsertDelivery then (Err db_error, ds)
      else enqueue_rows env event payload ws
             (ds @ [\<lparr>dl_webhook_id = wh_id w, dl_event_type = event, dl_payload = payload\<rparr>]))"

definition enqueue ::
  "env \<Rightarrow> string \<Rightarrow> (string \<times> string) list \<Rightarrow> 'a server_state_scheme \<Rightarrow> (string, unit) outcome \<times> 'a server_state_scheme" where
  "enqueue env event payload st =
     (if ev_fails env SelectWebhooks then (Err db_error, st)
      else let (res, ds) = enqueue_rows env event payload (filter wh_active (sv_webhooks st)) (sv_deliveries st)
           in (res, st\<lparr>sv_deliveries := ds\<rparr>))"

section \<open>Connections\<close>

text \<open>
  A registered stream has a queue of messages, or \<open>None\<close> when the receiving end was dropped, which makes
  a send fail.
\<close>

definition transport_register :: "socket_addr \<Rightarrow> 'a server_state_scheme \<Rightarrow> 'a server_state_scheme" where
  "transport_register addr st = st\<lparr>sv_streams := hm_put addr (Some []) (sv_streams st)\<rparr>"

definition transport_unregister :: "socket_addr \<Rightarrow> 'a server_state_scheme \<Rightarrow> 'a server_state_scheme" where
  "transport_unregister addr st = st\<lparr>sv_streams := hm_del addr (sv_streams st)\<rparr>"

definition transport_contains :: "socket_addr \<Rightarrow> 'a server_state_scheme \<Rightarrow> bool" where
  "transport_contains addr st = (hm_get (sv_streams st) addr \<noteq> None)"

definition transport_send :: "socket_addr \<Rightarrow> string \<Rightarrow> 'a server_state_scheme \<Rightarrow> bool \<times> 'a server_state_scheme" where
  "transport_send addr message st =
     (case hm_get (sv_streams st) addr of
        Some (Some queue) \<Rightarrow> (True, st\<lparr>sv_streams := hm_put addr (Some (queue @ [message])) (sv_streams st)\<rparr>)
      | _ \<Rightarrow> (False, st))"

text \<open>\<open>UdpSocket::send_to\<close>: the datagram joins the outbox unless the send fails.\<close>

definition udp_send :: "env \<Rightarrow> socket_addr \<Rightarrow> string \<Rightarrow> 'a server_state_scheme \<Rightarrow> (string, unit) outcome \<times> 'a server_state_scheme" where
  "udp_send env addr message st =
     (if ev_send_fails env addr then (Err ''send error'', st)
      else (Ok (), st\<lparr>sv_outbox := sv_outbox st @ [(addr, message)]\<rparr>))"

definition send_sip :: "env \<Rightarrow> string \<Rightarrow> socket_addr \<Rightarrow> 'a server_state_scheme \<Rightarrow> (string, unit) outcome \<times> 'a server_state_scheme" where
  "send_sip env message target st =
     (case transport_send target message st of
        (True, st') \<Rightarrow> (Ok (), st')
      | (False, st') \<Rightarrow> udp_send env target message st')"

section \<open>Frame\<close>

lemma persist_event_frame [frame_simps]:
  "sv_guard (persist_security_event env s e ip u d st) = sv_guard st"
  "sv_accounts (persist_security_event env s e ip u d st) = sv_accounts st"
  "sv_registrations (persist_security_event env s e ip u d st) = sv_registrations st"
  "sv_subscriptions (persist_security_event env s e ip u d st) = sv_subscriptions st"
  "sv_acl (persist_security_event env s e ip u d st) = sv_acl st"
  "sv_outbox (persist_security_event env s e ip u d st) = sv_outbox st"
  by (simp_all add: persist_security_event_def)

lemma persist_ban_frame [frame_simps]:
  "sv_guard (persist_ban cfg env ip d st) = sv_guard st" "sv_accounts (persist_ban cfg env ip d st) = sv_accounts st"
  "sv_registrations (persist_ban cfg env ip d st) = sv_registrations st"
  "sv_subscriptions (persist_ban cfg env ip d st) = sv_subscriptions st" "sv_outbox (persist_ban cfg env ip d st) = sv_outbox st"
  "sv_events (persist_ban cfg env ip d st) = sv_events st"
  by (simp_all add: persist_ban_def)

lemma enqueue_frame [frame_simps]:
  "sv_guard (snd (enqueue env e p st)) = sv_guard st" "sv_accounts (snd (enqueue env e p st)) = sv_accounts st"
  "sv_registrations (snd (enqueue env e p st)) = sv_registrations st"
  "sv_subscriptions (snd (enqueue env e p st)) = sv_subscriptions st" "sv_acl (snd (enqueue env e p st)) = sv_acl st"
  "sv_outbox (snd (enqueue env e p st)) = sv_outbox st"
  by (simp_all add: enqueue_def split_beta)

lemma udp_send_frame [frame_simps]:
  "sv_guard (snd (udp_send env a m st)) = sv_guard st" "sv_accounts (snd (udp_send env a m st)) = sv_accounts st"
  "sv_registrations (snd (udp_send env a m st)) = sv_registrations st"
  "sv_subscriptions (snd (udp_send env a m st)) = sv_subscriptions st" "sv_acl (snd (udp_send env a m st)) = sv_acl st"
  "sv_events (snd (udp_send env a m st)) = sv_events st"
  by (simp_all add: udp_send_def)

lemma hex_random_length: "length (generate_random_hex env n) = 2 * n"
proof -
  have "length (show_hex_pad 2 (unat b)) = 2" for b :: u8
    using unsigned_less [of b, where 'a = nat] by (intro length_show_hex_pad) simp_all
  then have "sum_list (map length (map (\<lambda>i. show_hex_pad 2 (unat (ev_random env i))) [0..<n])) = 2 * n"
    by (simp add: comp_def sum_list_triv)
  then show ?thesis by (simp only: generate_random_hex_def length_concat)
qed

end
