(* ===== verification/Presence.thy ===== *)
theory Presence
  imports Server_State
begin

text \<open>
  Presence subscriptions, \<open>presence.rs\<close>: SUBSCRIBE and the NOTIFY requests sent to watchers. The table of
  subscriptions is keyed by subscriber, target and domain. Times are in seconds; a CSeq that would leave
  32 bits makes the SQL statement fail.
\<close>

section \<open>Definitions\<close>

datatype presence_status = PresOpen | PresClosed

fun extract_param_parts :: "string \<Rightarrow> string list \<Rightarrow> string option" where
  "extract_param_parts param [] = None"
| "extract_param_parts param (p # ps) =
     (let part = trim p in
      if prefix (to_lower param @ ''='') (to_lower part)
      then Some (trim_matches quote (drop (length param + 1) part))
      else extract_param_parts param ps)"

definition extract_param :: "string \<Rightarrow> string \<Rightarrow> string option" where
  "extract_param header_val param = extract_param_parts param (split_on (CHR '';'') header_val)"

definition build_pidf :: "string \<Rightarrow> string \<Rightarrow> presence_status \<Rightarrow> string" where
  "build_pidf target domain status =
     ''<?xml version='' @ [quote] @ ''1.0'' @ [quote] @ '' encoding='' @ [quote] @ ''UTF-8'' @ [quote] @ ''?>'' @ [lf] @
     ''<presence xmlns='' @ [quote] @ ''urn:ietf:params:xml:ns:pidf'' @ [quote] @ [lf] @
     ''entity='' @ [quote] @ ''sip:'' @ target @ ''@'' @ domain @ [quote] @ ''>'' @ [lf] @
     ''<tuple id='' @ [quote] @ ''1'' @ [quote] @ ''>'' @ [lf] @
     ''<status><basic>'' @ (case status of PresOpen \<Rightarrow> ''open'' | PresClosed \<Rightarrow> ''closed'') @ ''</basic></status>'' @ [lf] @
     ''</tuple>'' @ [lf] @ ''</presence>''"

definition notify_headers ::
  "env \<Rightarrow> string \<Rightarrow> string \<Rightarrow> string \<Rightarrow> string \<Rightarrow> string \<Rightarrow> string \<Rightarrow> u32 \<Rightarrow> string \<Rightarrow> string \<Rightarrow> (string \<times> string) list" where
  "notify_headers env subscriber subscriber_tag target domain server_domain cid cs sub_state pidf =
     [(''Via'', ''SIP/2.0/UDP '' @ server_domain @ '';branch=z9hG4bKpres'' @ generate_random_hex env 4),
      (''From'', ''<sip:'' @ target @ ''@'' @ domain @ ''>;tag=pres-srv-1''),
      (''To'', ''<sip:'' @ subscriber @ ''@'' @ domain @ ''>'' @
         (if subscriber_tag = [] then [] else '';tag='' @ subscriber_tag)),
      (''Call-ID'', cid),
      (''CSeq'', show_uint cs @ '' NOTIFY''),
      (''Event'', ''presence''),
      (''Subscription-State'', sub_state),
      (''Content-Type'', ''application/pidf+xml''),
      (''Content-Length'', show_nat (length pidf))]"

definition build_notify ::
  "env \<Rightarrow> string \<Rightarrow> string \<Rightarrow> string \<Rightarrow> string \<Rightarrow> string \<Rightarrow> string \<Rightarrow> u32 \<Rightarrow> string \<Rightarrow> presence_status \<Rightarrow> string" where
  "build_notify env subscriber subscriber_tag target domain server_domain cid cs sub_state status =
     (let pidf = build_pidf target domain status in
      render (''NOTIFY sip:'' @ subscriber @ ''@'' @ domain @ '' SIP/2.0'')
        (notify_headers env subscriber subscriber_tag target domain server_domain cid cs sub_state pidf) pidf)"

definition get_status :: "env \<Rightarrow> string \<Rightarrow> string \<Rightarrow> 'a server_state_scheme \<Rightarrow> presence_status" where
  "get_status env username domain st =
     (if ev_fails env CountRegistrations then PresClosed
      else case hm_get (sv_registrations st) (username, domain) of
        None \<Rightarrow> PresClosed
      | Some r \<Rightarrow> if ev_utc env < rg_expires_at r then PresOpen else PresClosed)"

text \<open>The two branches of \<open>handle_subscribe\<close> that use the table: an expiry of zero ends the subscription.\<close>

definition presence_unsubscribe ::
  "sip_config \<Rightarrow> env \<Rightarrow> sip_message \<Rightarrow> socket_addr \<Rightarrow> string \<Rightarrow> string \<Rightarrow> string \<Rightarrow> string \<Rightarrow> 'a server_state_scheme
    \<Rightarrow> (string, string) outcome \<times> 'a server_state_scheme" where
  "presence_unsubscribe cfg env msg src subscriber subscriber_tag target cid st =
     (let domain = cfg_sip_domain cfg in
      if ev_fails env DeleteSubscription then (Err db_error, st)
      else let st = st\<lparr>sv_subscriptions := hm_del (subscriber, target, domain) (sv_subscriptions st)\<rparr>;
               notify = build_notify env subscriber subscriber_tag target domain (cfg_sip_domain cfg) cid 1
                 ''terminated;reason=timeout'' PresClosed
           in (Ok (build (base_response msg 200 ''OK'')), snd (udp_send env src notify st)))"

definition presence_subscribe ::
  "sip_config \<Rightarrow> env \<Rightarrow> sip_message \<Rightarrow> socket_addr \<Rightarrow> string \<Rightarrow> string \<Rightarrow> string \<Rightarrow> string \<Rightarrow> u32 \<Rightarrow> 'a server_state_scheme
    \<Rightarrow> (string, string) outcome \<times> 'a server_state_scheme" where
  "presence_subscribe cfg env msg src subscriber subscriber_tag target cid period st =
     (let domain = cfg_sip_domain cfg;
          key = (subscriber, target, domain);
          old = hm_get (sv_subscriptions st) key;
          overflow = (case old of None \<Rightarrow> False | Some s \<Rightarrow> sb_cseq s = - 1)
      in if ev_fails env UpsertSubscription \<or> overflow then (Err db_error, st)
         else
           let row = \<lparr>sb_call_id = cid, sb_cseq = (case old of None \<Rightarrow> 1 | Some s \<Rightarrow> sb_cseq s + 1),
                      sb_subscriber_tag = subscriber_tag, sb_subscriber_ip = show_ip (sa_ip src),
                      sb_subscriber_port = sa_port src, sb_expires_at = ev_utc env + unat period\<rparr>;
               st = st\<lparr>sv_subscriptions := hm_put key row (sv_subscriptions st)\<rparr>;
               cs = (if ev_fails env SelectCseq then 1
                     else case hm_get (sv_subscriptions st) key of None \<Rightarrow> 1 | Some s \<Rightarrow> sb_cseq s);
               status = get_status env target domain st;
               notify = build_notify env subscriber subscriber_tag target domain (cfg_sip_domain cfg) cid cs
                 (''active;expires='' @ show_uint period) status
           in (Ok (build (base_response msg 200 ''OK'')), snd (udp_send env src notify st)))"

definition handle_subscribe ::
  "sip_config \<Rightarrow> env \<Rightarrow> sip_message \<Rightarrow> socket_addr \<Rightarrow> 'a server_state_scheme \<Rightarrow> (string, string) outcome \<times> 'a server_state_scheme" where
  "handle_subscribe cfg env msg src st =
     (let event = to_lower (case header msg ''event'' of None \<Rightarrow> ''presence'' | Some v \<Rightarrow> v);
          event = trim (hd (split_on (CHR '';'') event))
      in if event \<noteq> ''presence'' \<and> event \<noteq> ''dialog'' then (Ok (build (base_response msg 489 ''Bad Event'')), st)
         else
           let from = (case from_header msg of None \<Rightarrow> [] | Some v \<Rightarrow> v);
               from_uri = (case extract_uri from of None \<Rightarrow> [] | Some u \<Rightarrow> u);
               subscriber = (case uri_username from_uri of None \<Rightarrow> [] | Some u \<Rightarrow> u);
               subscriber_tag = (case extract_param from ''tag'' of None \<Rightarrow> [] | Some t \<Rightarrow> t);
               req_uri = (case m_request_uri msg of None \<Rightarrow> [] | Some u \<Rightarrow> u);
               target = (case uri_username req_uri of None \<Rightarrow> [] | Some u \<Rightarrow> u)
           in if subscriber = [] \<or> target = [] then (Ok (build (base_response msg 400 ''Bad Request'')), st)
              else
                let cid = (case call_id msg of None \<Rightarrow> [] | Some c \<Rightarrow> c);
                    period = (case expires msg of None \<Rightarrow> 300 | Some e \<Rightarrow> e)
                in if period = 0 then presence_unsubscribe cfg env msg src subscriber subscriber_tag target cid st
                   else presence_subscribe cfg env msg src subscriber subscriber_tag target cid period st)"

text \<open>The rows a status change concerns, in the order of the table, and one turn of the loop over them.\<close>

definition watchers :: "env \<Rightarrow> string \<Rightarrow> string \<Rightarrow> 'a server_state_scheme \<Rightarrow> ((string \<times> string \<times> string) \<times> subscription) list" where
  "watchers env username domain st =
     filter (\<lambda>((s, t, d), r). t = username \<and> d = domain \<and> ev_utc env < sb_expires_at r) (sv_subscriptions st)"

definition sat_inc32 :: "u32 \<Rightarrow> u32" where
  "sat_inc32 c = (if c = - 1 then c else c + 1)"

definition notify_watcher ::
  "sip_config \<Rightarrow> env \<Rightarrow> string \<Rightarrow> string \<Rightarrow> presence_status \<Rightarrow> (string \<times> string \<times> string) \<times> subscription
    \<Rightarrow> 'a server_state_scheme \<Rightarrow> 'a server_state_scheme" where
  "notify_watcher cfg env username domain status w st =
     (case w of ((subscriber, _, _), row) \<Rightarrow>
        let new_cseq = sat_inc32 (sb_cseq row);
            st = (if ev_fails env UpdateCseq then st
                  else st\<lparr>sv_subscriptions := hm_adjust (subscriber, username, domain) (\<lambda>r. r\<lparr>sb_cseq := new_cseq\<rparr>) (sv_subscriptions st)\<rparr>)
        in case parse_socket_addr (sb_subscriber_ip row @ '':'' @ show_uint (sb_subscriber_port row)) of
             None \<Rightarrow> st
           | Some addr \<Rightarrow>
               let remaining = (of_nat (sb_expires_at row - ev_utc env) :: u32);
                   notify = build_notify env subscriber (sb_subscriber_tag row) username domain (cfg_sip_domain cfg)
                     (sb_call_id row) new_cseq (''active;expires='' @ show_uint remaining) status
               in snd (udp_send env addr notify st))"

definition notify_status_change ::
  "sip_config \<Rightarrow> env \<Rightarrow> string \<Rightarrow> string \<Rightarrow> presence_status \<Rightarrow> 'a server_state_scheme \<Rightarrow> 'a server_state_scheme" where
  "notify_status_change cfg env username domain status st =
     (if ev_fails env SelectSubscriptions then st
      else fold (notify_watcher cfg env username domain status) (watchers env username domain st) st)"

section \<open>Frame\<close>

lemma notify_watcher_frame [frame_simps]:
  "sv_guard (notify_watcher cfg env u d s w st) = sv_guard st" "sv_accounts (notify_watcher cfg env u d s w st) = sv_accounts st"
  "sv_registrations (notify_watcher cfg env u d s w st) = sv_registrations st" "sv_acl (notify_watcher cfg env u d s w st) = sv_acl st"
  "sv_events (notify_watcher cfg env u d s w st) = sv_events st"
  by (simp_all add: notify_watcher_def Let_def frame_simps split: prod.split option.split)

lemma notify_fold_frame:
  "sv_guard (fold (notify_watcher cfg env u d s) ws st) = sv_guard st"
  "sv_accounts (fold (notify_watcher cfg env u d s) ws st) = sv_accounts st"
  "sv_registrations (fold (notify_watcher cfg env u d s) ws st) = sv_registrations st"
  "sv_acl (fold (notify_watcher cfg env u d s) ws st) = sv_acl st"
  "sv_events (fold (notify_watcher cfg env u d s) ws st) = sv_events st"
  by (induction ws arbitrary: st) (simp_all add: frame_simps)

lemma notify_frame [frame_simps]:
  "sv_guard (notify_status_change cfg env u d s st) = sv_guard st"
  "sv_accounts (notify_status_change cfg env u d s st) = sv_accounts st"
  "sv_registrations (notify_status_change cfg env u d s st) = sv_registrations st"
  "sv_acl (notify_status_change cfg env u d s st) = sv_acl st"
  "sv_events (notify_status_change cfg env u d s st) = sv_events st"
  by (simp_all add: notify_status_change_def notify_fold_frame)

section \<open>Who is notified\<close>

definition watcher_notify ::
  "sip_config \<Rightarrow> env \<Rightarrow> string \<Rightarrow> string \<Rightarrow> presence_status \<Rightarrow> (string \<times> string \<times> string) \<times> subscription
    \<Rightarrow> (socket_addr \<times> string) option" where
  "watcher_notify cfg env u d status w =
     (case parse_socket_addr (sb_subscriber_ip (snd w) @ '':'' @ show_uint (sb_subscriber_port (snd w))) of
        None \<Rightarrow> None
      | Some addr \<Rightarrow> if ev_send_fails env addr then None
          else Some (addr, build_notify env (fst (fst w)) (sb_subscriber_tag (snd w)) u d (cfg_sip_domain cfg) (sb_call_id (snd w))
                 (sat_inc32 (sb_cseq (snd w))) (''active;expires='' @ show_uint (of_nat (sb_expires_at (snd w) - ev_utc env) :: u32)) status))"

lemma notify_watcher_outbox:
  "sv_outbox (notify_watcher cfg env u d status w st) =
    sv_outbox st @ (case watcher_notify cfg env u d status w of None \<Rightarrow> [] | Some n \<Rightarrow> [n])"
  by (simp add: notify_watcher_def watcher_notify_def Let_def udp_send_def split: prod.split option.split)

lemma notify_fold_outbox:
  "sv_outbox (fold (notify_watcher cfg env u d status) ws st) = sv_outbox st @ List.map_filter (watcher_notify cfg env u d status) ws"
  by (induction ws arbitrary: st) (simp_all add: notify_watcher_outbox List.map_filter_simps split: option.split)

lemma notify_watcher_rows:
  "sv_subscriptions (notify_watcher cfg env u d status ((s, t, d'), row) st) =
    (if ev_fails env UpdateCseq then sv_subscriptions st
     else hm_adjust (s, u, d) (\<lambda>r. r\<lparr>sb_cseq := sat_inc32 (sb_cseq row)\<rparr>) (sv_subscriptions st))"
  by (simp add: notify_watcher_def Let_def udp_send_def split: option.split)

lemma subscribe_branches:
  obtains "snd (handle_subscribe cfg env msg src st) = st"
  | s tag t cid where "handle_subscribe cfg env msg src st = presence_unsubscribe cfg env msg src s tag t cid st"
  | s tag t cid e where "handle_subscribe cfg env msg src st = presence_subscribe cfg env msg src s tag t cid e st"
proof -
  obtain c1 c2 c3 a b s tag t cid e where h: "handle_subscribe cfg env msg src st =
      (if c1 then (a, st) else if c2 then (b, st) else if c3 then presence_unsubscribe cfg env msg src s tag t cid st
       else presence_subscribe cfg env msg src s tag t cid e st)"
    by (rule that, unfold handle_subscribe_def Let_def, rule refl)
  show ?thesis by (cases c1; cases c2; cases c3) (use that h in \<open>simp_all\<close>)
qed

lemma subscribe_stores:
  assumes "handle_subscribe cfg env msg src st = (Ok resp, st')"
    and "hm_get (sv_subscriptions st') k = Some row" "hm_get (sv_subscriptions st) k \<noteq> Some row"
  shows "sb_subscriber_ip row = show_ip (sa_ip src) \<and> sb_subscriber_port row = sa_port src"
proof (rule subscribe_branches [of cfg env msg src st])
  assume "snd (handle_subscribe cfg env msg src st) = st"
  then show ?thesis using assms by simp
next
  fix s tag t cid
  assume h: "handle_subscribe cfg env msg src st = presence_unsubscribe cfg env msg src s tag t cid st"
  show ?thesis
    using assms unfolding h presence_unsubscribe_def Let_def
    by (auto simp: frame_simps hm.get_del simp del: map_of_eq_Some_iff split: if_splits)
next
  fix s tag t cid e
  assume h: "handle_subscribe cfg env msg src st = presence_subscribe cfg env msg src s tag t cid e st"
  show ?thesis
    using assms unfolding h presence_subscribe_def Let_def
    by (auto simp: frame_simps hm.get_put simp del: map_of_eq_Some_iff split: if_splits)
qed

section \<open>The properties\<close>


definition example_env :: env where
  "example_env = \<lparr>ev_instant = 0, ev_utc = 1000, ev_random = (\<lambda>i. 7), ev_fails = (\<lambda>q. False), ev_send_fails = (\<lambda>a. False)\<rparr>"

definition example_config :: sip_config where
  "example_config = \<lparr>cfg_sip_domain = ''x.org'', cfg_public_ip = ''203.0.113.9'', cfg_nonce_secret = ''s'',
     cfg_nonce_max_age_secs = 300, cfg_registration_expires = 3600, cfg_persist_acl_bans = True, cfg_acl_ban_priority = 5,
     cfg_sip_port = 5060, cfg_voicemail_access_extension = ''*97'', cfg_voicemail_idle_timeout_secs = 5,
     cfg_rtp_port_min = 10000, cfg_rtp_port_max = 10010, cfg_conference_rtp_port_min = 20000, cfg_conference_rtp_port_max = 20010,
     cfg_voicemail_rtp_port_min = 30000, cfg_voicemail_rtp_port_max = 30010, cfg_voicemail_storage_dir = ''vm'',
     cfg_window_secs = 60, cfg_block_secs = 30, cfg_sip_ip_fail_threshold = 3, cfg_sip_user_ip_fail_threshold = 2,
     cfg_sip_invite_ip_fail_threshold = 3, cfg_sip_invite_user_ip_fail_threshold = 2, cfg_acl_default_policy = ''allow''\<rparr>"

definition example_state :: server_state where
  "example_state = \<lparr>sv_guard = guard_new \<lparr>window_secs = 60, ip_fail_threshold = 3, user_ip_fail_threshold = 2, block_secs = 30\<rparr>,
     sv_accounts = [((''1001'', ''x.org''), \<lparr>ac_ha1_hash = Some ''h'', ac_enabled = 1\<rparr>)], sv_registrations = [],
     sv_subscriptions = [], sv_events = [], sv_acl = \<lparr>at_rows = [], at_next = 1\<rparr>, sv_webhooks = [], sv_deliveries = [],
     sv_streams = [], sv_outbox = []\<rparr>"

definition example_subscribe :: sip_message where
  "example_subscribe = \<lparr>m_method = Some ''SUBSCRIBE'', m_request_uri = Some ''sip:1002@x.org'', m_status_code = None,
     m_headers = [(''from'', [''<sip:1001@x.org>;tag=9'']), (''call-id'', [''c9''])], m_body = [], m_raw = []\<rparr>"


end
