(* ===== verification/Registrar.thy ===== *)
theory Registrar
  imports Presence
begin

text \<open>
  Registration, \<open>registrar.rs\<close>: digest authentication with signed nonces, the login guard, and the table
  of registrations. The MD5 crate is the parameter \<open>md5\<close>. The digest of an account is its stored
  \<open>ha1_hash\<close>.
\<close>

section \<open>Definitions\<close>

text \<open>Whether a byte offset is a character boundary of a string, which a slice needs to be.\<close>

definition char_boundary :: "string \<Rightarrow> nat \<Rightarrow> bool" where
  "char_boundary s n = (n = length s \<or> (n < length s \<and> \<not> (0x80 \<le> (of_char (s ! n) :: nat) \<and> (of_char (s ! n) :: nat) < 0xC0)))"

definition param_or_empty :: "(string, string) hmap \<Rightarrow> string \<Rightarrow> string" where
  "param_or_empty params k = (case hm_get params k of None \<Rightarrow> [] | Some v \<Rightarrow> v)"

text \<open>\<open>Registrar::new\<close>: a secret is drawn when none is configured; the record's secret is the one in use.\<close>

definition registrar_new :: "env \<Rightarrow> sip_config \<Rightarrow> sip_config" where
  "registrar_new env cfg =
     (if cfg_nonce_secret cfg = [] then cfg\<lparr>cfg_nonce_secret := generate_random_hex env 16\<rparr> else cfg)"

definition generate_nonce :: "(string \<Rightarrow> string) \<Rightarrow> env \<Rightarrow> string \<Rightarrow> string" where
  "generate_nonce md5 env secret =
     (let ts = (of_nat (ev_utc env) :: u32);
          random_hex = generate_random_hex env 8;
          data = show_hex_pad 8 (unat ts) @ random_hex;
          mac = md5 (secret @ '':'' @ data)
      in data @ '':'' @ mac)"

text \<open>\<open>None\<close> is a panic of the slice of the first eight bytes.\<close>

definition validate_nonce :: "(string \<Rightarrow> string) \<Rightarrow> env \<Rightarrow> string \<Rightarrow> string \<Rightarrow> u64 \<Rightarrow> bool option" where
  "validate_nonce md5 env nonce secret max_age_secs =
     (if length nonce < 57 then Some False
      else if nonce ! 24 \<noteq> CHR '':'' then Some False
      else let data = take 24 nonce;
               mac = drop 25 nonce
           in if length mac \<noteq> 32 then Some False
              else if md5 (secret @ '':'' @ data) \<noteq> mac then Some False
              else if \<not> char_boundary data 8 then None
              else case parse_radix 16 (2 ^ 64 - 1) (take 8 data) of
                     None \<Rightarrow> Some False
                   | Some ts \<Rightarrow> Some (ev_utc env - ts < unat max_age_secs))"

definition verify_digest_with_ha1 :: "(string \<Rightarrow> string) \<Rightarrow> (string, string) hmap \<Rightarrow> string \<Rightarrow> string \<Rightarrow> bool" where
  "verify_digest_with_ha1 md5 params ha1 method =
     (let uri = param_or_empty params ''uri'';
          response = param_or_empty params ''response'';
          nonce = param_or_empty params ''nonce'';
          qop = param_or_empty params ''qop'';
          nc = param_or_empty params ''nc'';
          cnonce = param_or_empty params ''cnonce'';
          ha2 = md5 (method @ '':'' @ uri);
          expected = (if qop = ''auth''
            then md5 (ha1 @ '':'' @ nonce @ '':'' @ nc @ '':'' @ cnonce @ '':'' @ qop @ '':'' @ ha2)
            else md5 (ha1 @ '':'' @ nonce @ '':'' @ ha2))
      in expected = response)"

definition unauthorized_response :: "(string \<Rightarrow> string) \<Rightarrow> env \<Rightarrow> sip_message \<Rightarrow> string \<Rightarrow> string \<Rightarrow> (string, string) outcome" where
  "unauthorized_response md5 env msg domain nonce_secret =
     (let nonce = generate_nonce md5 env nonce_secret in
      Ok (build (add_header ''WWW-Authenticate'' (make_www_authenticate domain nonce) (base_response msg 401 ''Unauthorized''))))"

definition is_contact_uri_param :: "string \<Rightarrow> bool" where
  "is_contact_uri_param key =
     (key \<in> set [''transport'', ''user'', ''method'', ''maddr'', ''ttl'', ''lr'', ''ob'', ''gr'', ''alias''])"

definition contact_uri_preserving_uri_params :: "string \<Rightarrow> string" where
  "contact_uri_preserving_uri_params ctc =
     (case (if prefix ''<'' (trim_start ctc) then extract_uri ctc else None) of
        Some uri \<Rightarrow> uri
      | None \<Rightarrow>
          (let parts = split_on (CHR '';'') (trim ctc)
           in foldl (\<lambda>uri param.
                let key = to_lower (trim (case split_once (CHR ''='') param of Some (name, _) \<Rightarrow> name | None \<Rightarrow> param))
                in if is_contact_uri_param key then uri @ '';'' @ trim param else uri)
              (trim (hd parts)) (tl parts)))"

definition uri_param_suffix :: "string \<Rightarrow> string" where
  "uri_param_suffix uri =
     (let without_scheme = (case strip_prefix ''sip:'' uri of Some r \<Rightarrow> r
            | None \<Rightarrow> (case strip_prefix ''sips:'' uri of Some r \<Rightarrow> r | None \<Rightarrow> uri));
          host_and_params = (case split_once (CHR ''@'') without_scheme of Some (_, rest) \<Rightarrow> rest | None \<Rightarrow> without_scheme)
      in case find_char (CHR '';'') host_and_params of None \<Rightarrow> [] | Some idx \<Rightarrow> drop idx host_and_params)"

definition socket_addr_uri_host_port :: "socket_addr \<Rightarrow> string" where
  "socket_addr_uri_host_port src =
     (case sa_ip src of
        Ipv4 a b c d \<Rightarrow> show_ip (Ipv4 a b c d) @ '':'' @ show_uint (sa_port src)
      | Ipv6 gs \<Rightarrow> ''['' @ show_ip (Ipv6 gs) @ '']:'' @ show_uint (sa_port src))"

definition routable_contact_uri :: "string \<Rightarrow> string \<Rightarrow> socket_addr \<Rightarrow> string" where
  "routable_contact_uri ctc fallback_username src =
     (let uri = contact_uri_preserving_uri_params ctc;
          lower = to_lower uri;
          scheme = (if prefix ''sips:'' lower then ''sips'' else ''sip'');
          username = (case uri_username uri of Some u \<Rightarrow> (if u \<noteq> [] then u else fallback_username) | None \<Rightarrow> fallback_username);
          params = uri_param_suffix uri
      in scheme @ '':'' @ username @ ''@'' @ socket_addr_uri_host_port src @ params)"

text \<open>The failure branch of \<open>handle_register\<close>, which the source has twice with different details.\<close>

definition register_auth_failed ::
  "(string \<Rightarrow> string) \<Rightarrow> sip_config \<Rightarrow> env \<Rightarrow> sip_message \<Rightarrow> socket_addr \<Rightarrow> string \<Rightarrow> string \<Rightarrow> 'a server_state_scheme
    \<Rightarrow> (string, string) outcome \<times> 'a server_state_scheme" where
  "register_auth_failed md5 cfg env msg src username detail st =
     (let source_ip = show_ip (sa_ip src);
          (blocked, g) = record_failure (ev_instant env) (ev_instant env) SipRegister source_ip (Some username) (sv_guard st);
          st = st\<lparr>sv_guard := g\<rparr>;
          st = persist_security_event env SipRegister AuthFailed source_ip (Some username) detail st;
          st = (if blocked \<and> cfg_persist_acl_bans cfg
                then persist_security_event env SipRegister IpBlocked source_ip (Some username) ''register source blocked by threshold''
                       (persist_ban cfg env (sa_ip src) ''auto-ban: sip register brute force'' st)
                else st)
      in (unauthorized_response md5 env msg (cfg_sip_domain cfg) (cfg_nonce_secret cfg), st))"

text \<open>The expiry: the header, else the parameter of the contact, else the configured value.\<close>

definition contact_expires :: "string \<Rightarrow> u32 option" where
  "contact_expires ctc =
     (case find (\<lambda>p. prefix ''expires='' (to_lower (trim p))) (split_on (CHR '';'') ctc) of
        None \<Rightarrow> None
      | Some p \<Rightarrow> (case nth_opt 1 (split_on (CHR ''='') p) of None \<Rightarrow> None | Some s \<Rightarrow> parse_u32 (trim s)))"

definition register_expires :: "sip_config \<Rightarrow> sip_message \<Rightarrow> string \<Rightarrow> u32" where
  "register_expires cfg msg ctc =
     (case expires msg of Some e \<Rightarrow> e
      | None \<Rightarrow> (case contact_expires ctc of Some e \<Rightarrow> e | None \<Rightarrow> cfg_registration_expires cfg))"

text \<open>The part of \<open>handle_register\<close> after a successful authentication.\<close>

definition register_binding ::
  "sip_config \<Rightarrow> env \<Rightarrow> sip_message \<Rightarrow> socket_addr \<Rightarrow> string \<Rightarrow> 'a server_state_scheme
    \<Rightarrow> (string, string) outcome \<times> 'a server_state_scheme" where
  "register_binding cfg env msg src username st =
     (let domain = cfg_sip_domain cfg;
          source_ip = show_ip (sa_ip src);
          contact = (case contact msg of None \<Rightarrow> ''*'' | Some c \<Rightarrow> c);
          expires = register_expires cfg msg contact
      in if trim contact = ''*'' \<or> expires = 0 then
           (if ev_fails env DeleteRegistration then (Err db_error, st)
            else let st = st\<lparr>sv_registrations := hm_del (username, domain) (sv_registrations st)\<rparr>;
                     st = notify_status_change cfg env username domain PresClosed st
                 in (Ok (build (base_response msg 200 ''OK'')), st))
         else
           let contact_uri = routable_contact_uri contact username src;
               row = \<lparr>rg_contact_uri = contact_uri,
                      rg_user_agent = (case user_agent msg of None \<Rightarrow> [] | Some u \<Rightarrow> u),
                      rg_expires_at = ev_utc env + unat expires, rg_source_ip = source_ip, rg_source_port = sa_port src\<rparr>
           in if ev_fails env UpsertRegistration then (Err db_error, st)
              else
                let st = st\<lparr>sv_registrations := hm_put (username, domain) row (sv_registrations st)\<rparr>;
                    st = notify_status_change cfg env username domain PresOpen st;
                    st = snd (enqueue env ''registration.changed''
                      [(''event'', ''registration.changed''), (''username'', username), (''domain'', domain),
                       (''contact'', contact_uri), (''source_ip'', source_ip), (''expires'', show_uint expires)] st)
                in (Ok (build (add_header ''Contact'' (''<'' @ contact_uri @ ''>;expires='' @ show_uint expires)
                      (base_response msg 200 ''OK''))), st))"

definition account_lookup :: "env \<Rightarrow> string \<Rightarrow> string \<Rightarrow> 'a server_state_scheme \<Rightarrow> (string, (string \<times> int) option) outcome" where
  "account_lookup env username domain st =
     (if ev_fails env AccountLookup then Err db_error
      else Ok (map_option (\<lambda>a. (case ac_ha1_hash a of None \<Rightarrow> [] | Some h \<Rightarrow> h, ac_enabled a))
             (hm_get (sv_accounts st) (username, domain))))"

text \<open>The digest check of \<open>handle_register\<close> on the parameters of the authorization header, with what follows it.\<close>

definition register_verify ::
  "(string \<Rightarrow> string) \<Rightarrow> sip_config \<Rightarrow> env \<Rightarrow> sip_message \<Rightarrow> socket_addr \<Rightarrow> string \<Rightarrow> (string, string) hmap
    \<Rightarrow> 'a server_state_scheme \<Rightarrow> (string, string) outcome \<times> 'a server_state_scheme" where
  "register_verify md5 cfg env msg src username auth_params st =
     (case validate_nonce md5 env (param_or_empty auth_params ''nonce'') (cfg_nonce_secret cfg)
             (cfg_nonce_max_age_secs cfg) of
        None \<Rightarrow> (Panic, st)
      | Some False \<Rightarrow>
          register_auth_failed md5 cfg env msg src username ''register auth failed: stale or invalid nonce'' st
      | Some True \<Rightarrow>
          (case account_lookup env username (cfg_sip_domain cfg) st of
             Err e \<Rightarrow> (Err e, st)
           | Panic \<Rightarrow> (Panic, st)
           | Ok row \<Rightarrow>
               let account_ok = (case row of None \<Rightarrow> False | Some (ha1, enabled) \<Rightarrow> enabled \<noteq> 0 \<and> ha1 \<noteq> []);
                   digest_ok = (case row of None \<Rightarrow> False
                     | Some (ha1, enabled) \<Rightarrow> enabled \<noteq> 0 \<and> ha1 \<noteq> [] \<and>
                         verify_digest_with_ha1 md5 auth_params ha1 ''REGISTER'')
               in if \<not> account_ok \<or> \<not> digest_ok
                  then register_auth_failed md5 cfg env msg src username
                         ''register auth failed: invalid account or digest'' st
                  else
                    let source_ip = show_ip (sa_ip src);
                        st = st\<lparr>sv_guard := record_success source_ip (Some username) (sv_guard st)\<rparr>;
                        st = persist_security_event env SipRegister AuthSucceeded source_ip (Some username)
                          ''register auth succeeded'' st
                    in register_binding cfg env msg src username st))"

definition handle_register ::
  "(string \<Rightarrow> string) \<Rightarrow> sip_config \<Rightarrow> env \<Rightarrow> sip_message \<Rightarrow> socket_addr \<Rightarrow> 'a server_state_scheme
    \<Rightarrow> (string, string) outcome \<times> 'a server_state_scheme" where
  "handle_register md5 cfg env msg src st =
     (let from = (case from_header msg of None \<Rightarrow> [] | Some v \<Rightarrow> v);
          from_uri = (case extract_uri from of None \<Rightarrow> [] | Some u \<Rightarrow> u);
          username = (case uri_username from_uri of None \<Rightarrow> [] | Some u \<Rightarrow> u)
      in if username = [] then (Ok (build (base_response msg 400 ''Bad Request'')), st)
         else
           let source_ip = show_ip (sa_ip src);
               (blocked, g) = is_blocked (ev_instant env) source_ip (sv_guard st);
               st = st\<lparr>sv_guard := g\<rparr>
           in if blocked then (Ok (build (base_response msg 403 ''Forbidden'')), st)
              else
                case authorization msg of
                  None \<Rightarrow> (unauthorized_response md5 env msg (cfg_sip_domain cfg) (cfg_nonce_secret cfg), st)
                | Some auth_header \<Rightarrow>
                    (case parse_auth_params auth_header of
                       None \<Rightarrow> (Panic, st)
                     | Some auth_params \<Rightarrow> register_verify md5 cfg env msg src username auth_params st))"

section \<open>Nonces\<close>

lemma digit_char_ascii: "d < 16 \<Longrightarrow> (of_char (digit_char d) :: nat) < 128"
  by (auto simp: digit_char_def of_char_of)

lemma hex_pad_char:
  assumes "c \<in> set (show_hex_pad k n)"
  shows "(of_char c :: nat) < 128"
proof -
  have "c = CHR ''0'' \<or> c \<in> set (show_radix 16 n)"
    using assms by (auto simp: show_hex_pad_def Let_def split: if_splits)
  then show ?thesis
  proof
    assume "c \<in> set (show_radix 16 n)"
    then have "c \<in> digit_char ` {..<16}" using show_radix_digits [of 16 n] by (simp add: subset_iff)
    then show ?thesis using digit_char_ascii by (metis imageE lessThan_iff)
  qed simp
qed

lemma hex_random_chars: "c \<in> set (generate_random_hex env n) \<Longrightarrow> (of_char c :: nat) < 128"
  by (auto simp: generate_random_hex_def dest: hex_pad_char)

lemma nonce_valid_iff:
  assumes "\<And>x. length (md5 x) = 32" "ev_utc env0 < 2 ^ 32"
  shows "validate_nonce md5 env (generate_nonce md5 env0 secret) secret max_age = Some (ev_utc env - ev_utc env0 < unat max_age)"
proof -
  define ts where "ts = show_hex_pad 8 (ev_utc env0)"
  define rnd where "rnd = generate_random_hex env0 8"
  have u: "unat (of_nat (ev_utc env0) :: u32) = ev_utc env0" using assms(2) by (simp add: unat_of_nat take_bit_nat_eq_self)
  have lts: "length ts = 8" unfolding ts_def using assms(2) by (intro length_show_hex_pad) simp_all
  have lr: "length rnd = 16" by (simp add: rnd_def hex_random_length)
  have nonce: "generate_nonce md5 env0 secret = (ts @ rnd) @ '':'' @ md5 (secret @ '':'' @ ts @ rnd)"
    by (simp add: generate_nonce_def Let_def u ts_def rnd_def)
  have data: "take 24 (generate_nonce md5 env0 secret) = ts @ rnd" "generate_nonce md5 env0 secret ! 24 = CHR '':''"
    "drop 25 (generate_nonce md5 env0 secret) = md5 (secret @ '':'' @ ts @ rnd)" "length (generate_nonce md5 env0 secret) = 57"
    unfolding nonce using lts lr assms(1) by (simp_all add: nth_append)
  have "rnd ! 0 \<in> set rnd" using lr by (intro nth_mem) simp
  then have "(of_char (rnd ! 0) :: nat) < 128" unfolding rnd_def by (rule hex_random_chars)
  then have b: "char_boundary (ts @ rnd) 8" using lts lr by (simp add: char_boundary_def nth_append)
  have p: "parse_radix 16 (2 ^ 64 - 1) (take 8 (ts @ rnd)) = Some (ev_utc env0)"
    using lts assms(2) by (simp add: ts_def parse_show_hex_pad)
  show ?thesis unfolding validate_nonce_def data Let_def using b p assms(1) by simp
qed

lemma nonce_forged:
  assumes "validate_nonce md5 env nonce secret max_age = Some True"
  shows "nonce = take 24 nonce @ '':'' @ md5 (secret @ '':'' @ take 24 nonce) \<and> length nonce = 57"
proof -
  have v: "\<not> length nonce < 57" "nonce ! 24 = CHR '':''" "length (drop 25 nonce) = 32" "md5 (secret @ '':'' @ take 24 nonce) = drop 25 nonce"
    using assms by (auto simp: validate_nonce_def Let_def split: if_splits option.splits)
  have "nonce = take 24 nonce @ nonce ! 24 # drop 25 nonce"
    using v(1) id_take_nth_drop [of 24 nonce] by simp
  then show ?thesis using v by simp
qed

section \<open>The branches of REGISTER\<close>

definition from_username :: "sip_message \<Rightarrow> string" where
  "from_username msg =
     (case uri_username (case extract_uri (case from_header msg of None \<Rightarrow> [] | Some v \<Rightarrow> v) of None \<Rightarrow> [] | Some u \<Rightarrow> u) of
        None \<Rightarrow> [] | Some u \<Rightarrow> u)"

definition authenticated :: "(string \<Rightarrow> string) \<Rightarrow> sip_config \<Rightarrow> env \<Rightarrow> sip_message \<Rightarrow> 'a server_state_scheme \<Rightarrow> bool" where
  "authenticated md5 cfg env msg st =
     (\<exists>h params a ha1. authorization msg = Some h \<and> parse_auth_params h = Some params \<and>
        validate_nonce md5 env (param_or_empty params ''nonce'') (cfg_nonce_secret cfg) (cfg_nonce_max_age_secs cfg) = Some True \<and>
        hm_get (sv_accounts st) (from_username msg, cfg_sip_domain cfg) = Some a \<and> ac_enabled a \<noteq> 0 \<and>
        ac_ha1_hash a = Some ha1 \<and> ha1 \<noteq> [] \<and> verify_digest_with_ha1 md5 params ha1 ''REGISTER'')"

definition checked :: "env \<Rightarrow> socket_addr \<Rightarrow> 'a server_state_scheme \<Rightarrow> 'a server_state_scheme" where
  "checked env src st = st\<lparr>sv_guard := snd (is_blocked (ev_instant env) (show_ip (sa_ip src)) (sv_guard st))\<rparr>"

definition succeeded :: "env \<Rightarrow> socket_addr \<Rightarrow> string \<Rightarrow> 'a server_state_scheme \<Rightarrow> 'a server_state_scheme" where
  "succeeded env src user st =
     persist_security_event env SipRegister AuthSucceeded (show_ip (sa_ip src)) (Some user) ''register auth succeeded''
       (st\<lparr>sv_guard := record_success (show_ip (sa_ip src)) (Some user) (sv_guard st)\<rparr>)"

lemma register_verify_cases:
  obtains (stopped) r where "register_verify md5 cfg env msg src user params st = (r, st)" "\<forall>s. r \<noteq> Ok s"
  | (failed) detail where "register_verify md5 cfg env msg src user params st = register_auth_failed md5 cfg env msg src user detail st"
  | (granted) a ha1 where "validate_nonce md5 env (param_or_empty params ''nonce'') (cfg_nonce_secret cfg) (cfg_nonce_max_age_secs cfg) = Some True"
      "hm_get (sv_accounts st) (user, cfg_sip_domain cfg) = Some a" "ac_enabled a \<noteq> 0" "ac_ha1_hash a = Some ha1" "ha1 \<noteq> []"
      "verify_digest_with_ha1 md5 params ha1 ''REGISTER''"
      "register_verify md5 cfg env msg src user params st = register_binding cfg env msg src user (succeeded env src user st)"
proof (cases "validate_nonce md5 env (param_or_empty params ''nonce'') (cfg_nonce_secret cfg) (cfg_nonce_max_age_secs cfg)")
  case None
  then show ?thesis by (intro stopped [of Panic]) (simp_all add: register_verify_def)
next
  case v: (Some ok)
  show ?thesis
  proof (cases ok)
    case False
    then show ?thesis using v by (intro failed) (simp add: register_verify_def)
  next
    case ok: True
    show ?thesis
    proof (cases "ev_fails env AccountLookup")
      case True
      then show ?thesis using v ok by (intro stopped [of "Err db_error"]) (simp_all add: register_verify_def account_lookup_def)
    next
      case look: False
      let ?good = "\<lambda>a ha1. hm_get (sv_accounts st) (user, cfg_sip_domain cfg) = Some a \<and> ac_enabled a \<noteq> 0 \<and> ac_ha1_hash a = Some ha1 \<and>
        ha1 \<noteq> [] \<and> verify_digest_with_ha1 md5 params ha1 ''REGISTER''"
      show ?thesis
      proof (cases "\<exists>a ha1. ?good a ha1")
        case True
        then obtain a ha1 where g: "?good a ha1" by blast
        then have "register_verify md5 cfg env msg src user params st = register_binding cfg env msg src user (succeeded env src user st)"
          using v ok look by (simp add: register_verify_def account_lookup_def succeeded_def Let_def)
        then show ?thesis by (intro granted [of a ha1]) (use v ok g in simp_all)
      next
        case False
        then have "register_verify md5 cfg env msg src user params st =
            register_auth_failed md5 cfg env msg src user ''register auth failed: invalid account or digest'' st"
          using v ok look
          by (cases "hm_get (sv_accounts st) (user, cfg_sip_domain cfg)")
            (auto simp: register_verify_def account_lookup_def Let_def split: option.splits)
        then show ?thesis by (rule failed)
      qed
    qed
  qed
qed

lemma register_branches:
  assumes "from_username msg \<noteq> []"
  obtains (blocked) "fst (is_blocked (ev_instant env) (show_ip (sa_ip src)) (sv_guard st))"
      "handle_register md5 cfg env msg src st = (Ok (build (base_response msg 403 ''Forbidden'')), checked env src st)"
  | (challenged) "\<not> fst (is_blocked (ev_instant env) (show_ip (sa_ip src)) (sv_guard st))" "authorization msg = None"
      "handle_register md5 cfg env msg src st =
         (unauthorized_response md5 env msg (cfg_sip_domain cfg) (cfg_nonce_secret cfg), checked env src st)"
  | (stopped) r where "\<not> fst (is_blocked (ev_instant env) (show_ip (sa_ip src)) (sv_guard st))"
      "handle_register md5 cfg env msg src st = (r, checked env src st)" "\<forall>s. r \<noteq> Ok s"
  | (failed) detail where "\<not> fst (is_blocked (ev_instant env) (show_ip (sa_ip src)) (sv_guard st))"
      "handle_register md5 cfg env msg src st = register_auth_failed md5 cfg env msg src (from_username msg) detail (checked env src st)"
  | (granted) "\<not> fst (is_blocked (ev_instant env) (show_ip (sa_ip src)) (sv_guard st))" "authenticated md5 cfg env msg st"
      "handle_register md5 cfg env msg src st =
         register_binding cfg env msg src (from_username msg) (succeeded env src (from_username msg) (checked env src st))"
proof (cases "fst (is_blocked (ev_instant env) (show_ip (sa_ip src)) (sv_guard st))")
  case True
  then show ?thesis using assms
    by (intro blocked) (simp_all add: handle_register_def from_username_def checked_def Let_def split_beta)
next
  case open_src: False
  have acc: "sv_accounts (checked env src st) = sv_accounts st" by (simp add: checked_def)
  have H: "handle_register md5 cfg env msg src st =
      (case authorization msg of
         None \<Rightarrow> (unauthorized_response md5 env msg (cfg_sip_domain cfg) (cfg_nonce_secret cfg), checked env src st)
       | Some h \<Rightarrow> (case parse_auth_params h of None \<Rightarrow> (Panic, checked env src st)
           | Some ps \<Rightarrow> register_verify md5 cfg env msg src (from_username msg) ps (checked env src st)))"
    using assms open_src by (simp add: handle_register_def from_username_def checked_def Let_def split_beta cong: option.case_cong)
  show ?thesis
  proof (cases "authorization msg")
    case None
    then show ?thesis using open_src H by (intro challenged) simp_all
  next
    case a: (Some h)
    show ?thesis
    proof (cases "parse_auth_params h")
      case None
      then show ?thesis using open_src H a by (intro stopped [of Panic]) simp_all
    next
      case ps: (Some ps)
      have H': "handle_register md5 cfg env msg src st = register_verify md5 cfg env msg src (from_username msg) ps (checked env src st)"
        using H a ps by simp
      show ?thesis
        by (rule register_verify_cases [of md5 cfg env msg src "from_username msg" ps "checked env src st"])
          (use H' open_src a ps acc stopped failed granted in \<open>auto simp: authenticated_def\<close>)
    qed
  qed
qed


lemma register_failed:
  assumes "from_username msg \<noteq> []" "\<not> fst (is_blocked (ev_instant env) (show_ip (sa_ip src)) (sv_guard st))"
    and "authorization msg = Some h" "\<not> authenticated md5 cfg env msg st" "\<forall>e. fst (handle_register md5 cfg env msg src st) \<noteq> Err e"
    "fst (handle_register md5 cfg env msg src st) \<noteq> Panic"
  obtains detail where
    "handle_register md5 cfg env msg src st = register_auth_failed md5 cfg env msg src (from_username msg) detail (checked env src st)"
proof (rule register_branches [OF assms(1), of env src st md5 cfg])
  fix r assume "handle_register md5 cfg env msg src st = (r, checked env src st)" "\<forall>s. r \<noteq> Ok s"
  then show thesis using assms(5,6) by (cases r) auto
qed (use assms that in auto)

lemma register_granted:
  assumes "from_username msg \<noteq> []" "\<not> fst (is_blocked (ev_instant env) (show_ip (sa_ip src)) (sv_guard st))"
    and "authenticated md5 cfg env msg st" "\<not> ev_fails env AccountLookup"
  shows "handle_register md5 cfg env msg src st =
    register_binding cfg env msg src (from_username msg) (succeeded env src (from_username msg) (checked env src st))"
proof -
  obtain h ps a ha1 where a: "authorization msg = Some h" "parse_auth_params h = Some ps"
    "validate_nonce md5 env (param_or_empty ps ''nonce'') (cfg_nonce_secret cfg) (cfg_nonce_max_age_secs cfg) = Some True"
    "hm_get (sv_accounts st) (from_username msg, cfg_sip_domain cfg) = Some a" "ac_enabled a \<noteq> 0" "ac_ha1_hash a = Some ha1" "ha1 \<noteq> []"
    "verify_digest_with_ha1 md5 ps ha1 ''REGISTER''"
    using assms(3) unfolding authenticated_def by blast
  have "register_verify md5 cfg env msg src (from_username msg) ps (checked env src st) =
      register_binding cfg env msg src (from_username msg) (succeeded env src (from_username msg) (checked env src st))"
    using a assms(4) by (simp add: register_verify_def account_lookup_def succeeded_def checked_def Let_def)
  then show ?thesis
    using assms(1,2) a(1,2) by (simp add: handle_register_def from_username_def checked_def Let_def split_beta cong: option.case_cong)
qed

lemma register_frame [frame_simps]:
  "sv_registrations (checked env src st) = sv_registrations st" "sv_registrations (succeeded env src u st) = sv_registrations st"
  "sv_registrations (snd (register_auth_failed md5 cfg env msg src u d st)) = sv_registrations st"
  "sv_guard (checked env src st) = prune_expired_blocks (ev_instant env) (sv_guard st)"
  "sv_guard (snd (register_auth_failed md5 cfg env msg src u d st)) =
     snd (record_failure (ev_instant env) (ev_instant env) SipRegister (show_ip (sa_ip src)) (Some u) (sv_guard st))"
  by (simp_all add: checked_def succeeded_def register_auth_failed_def Let_def split_beta frame_simps)

lemma binding_registrations:
  "k \<noteq> (u, cfg_sip_domain cfg) \<Longrightarrow>
     hm_get (sv_registrations (snd (register_binding cfg env msg src u st))) k = hm_get (sv_registrations st) k"
  by (simp add: register_binding_def Let_def split_beta frame_simps hm.get_put hm.get_del)

lemma granted_effect:
  assumes "from_username msg \<noteq> []" "\<not> fst (is_blocked (ev_instant env) (show_ip (sa_ip src)) (sv_guard st))"
    and "authenticated md5 cfg env msg st" "\<not> ev_fails env AccountLookup" "\<not> ev_fails env UpsertRegistration"
    and "contact msg = Some c" "trim c \<noteq> ''*''" "register_expires cfg msg c \<noteq> 0"
  shows "fst (handle_register md5 cfg env msg src st) =
      Ok (build (add_header ''Contact'' (''<'' @ routable_contact_uri c (from_username msg) src @ ''>;expires='' @
        show_uint (register_expires cfg msg c)) (base_response msg 200 ''OK''))) \<and>
    hm_get (sv_registrations (snd (handle_register md5 cfg env msg src st))) (from_username msg, cfg_sip_domain cfg) =
      Some \<lparr>rg_contact_uri = routable_contact_uri c (from_username msg) src,
            rg_user_agent = (case user_agent msg of None \<Rightarrow> [] | Some u \<Rightarrow> u),
            rg_expires_at = ev_utc env + unat (register_expires cfg msg c),
            rg_source_ip = show_ip (sa_ip src), rg_source_port = sa_port src\<rparr>"
  unfolding register_granted [OF assms(1-4)] using assms(5-8)
  by (simp add: register_binding_def Let_def split_beta frame_simps hm.get_put)

section \<open>The properties of the registrar\<close>

text \<open>
  C17: Nonces expire and only by age: a nonce the server made at one time is accepted later by the same secret exactly while
  its age is below the configured maximum, and whatever is accepted carries the MAC of its own first 24 characters under the
  server's secret.  The digest function is a parameter; what is used of it is that its output has 32 characters.
\<close>

theorem nonce_lifetime:
  assumes "\<forall>x. length (md5 x) = 32" "ev_utc env0 < 2 ^ 32"
  shows "validate_nonce md5 env (generate_nonce md5 env0 secret) secret max_age = Some (ev_utc env - ev_utc env0 < unat max_age) \<and>
    (validate_nonce md5 env nonce secret max_age = Some True \<longrightarrow>
      nonce = take 24 nonce @ '':'' @ md5 (secret @ '':'' @ take 24 nonce))"
  using nonce_valid_iff [of md5 env0 env secret max_age] nonce_forged [of md5 env nonce secret max_age] assms by blast

text \<open>
  C2: A registration needs credentials: when a REGISTER changes the table of registrations, its source was not blocked, it carried
  a nonce valid under the server's secret and a digest that matches the stored HA1 of an enabled account named in its From header,
  and only the binding of that account changed.
\<close>

theorem registration_needs_credentials:
  assumes "sv_registrations (snd (handle_register md5 cfg env msg src st)) \<noteq> sv_registrations st"
  shows "\<not> fst (is_blocked (ev_instant env) (show_ip (sa_ip src)) (sv_guard st)) \<and> authenticated md5 cfg env msg st \<and>
    (\<forall>k. k \<noteq> (from_username msg, cfg_sip_domain cfg) \<longrightarrow>
       hm_get (sv_registrations (snd (handle_register md5 cfg env msg src st))) k = hm_get (sv_registrations st) k)"
proof (cases "from_username msg = []")
  case True
  then have "snd (handle_register md5 cfg env msg src st) = st" by (simp add: handle_register_def from_username_def)
  then show ?thesis using assms by simp
next
  case False
  then show ?thesis
    by (rule register_branches [of msg env src st md5 cfg]) (use assms in \<open>simp_all add: frame_simps binding_registrations\<close>)
qed

text \<open>
  C16: A granted REGISTER makes the account reachable at its source: with valid credentials, a contact and a positive expiry
  the answer is a 200 that echoes the stored contact and expiry, and the binding found for the account has the contact rewritten
  to the observed address, that address and the moment of expiry.
\<close>

theorem registration_effect:
  assumes "from_username msg \<noteq> []" "\<not> fst (is_blocked (ev_instant env) (show_ip (sa_ip src)) (sv_guard st))"
    and "authenticated md5 cfg env msg st" "\<not> ev_fails env AccountLookup" "\<not> ev_fails env UpsertRegistration"
    and "contact msg = Some c" "trim c \<noteq> ''*''" "register_expires cfg msg c \<noteq> 0"
  shows "fst (handle_register md5 cfg env msg src st) =
      Ok (build (add_header ''Contact'' (''<'' @ routable_contact_uri c (from_username msg) src @ ''>;expires='' @
        show_uint (register_expires cfg msg c)) (base_response msg 200 ''OK''))) \<and>
    hm_get (sv_registrations (snd (handle_register md5 cfg env msg src st))) (from_username msg, cfg_sip_domain cfg) =
      Some \<lparr>rg_contact_uri = routable_contact_uri c (from_username msg) src,
            rg_user_agent = (case user_agent msg of None \<Rightarrow> [] | Some u \<Rightarrow> u),
            rg_expires_at = ev_utc env + unat (register_expires cfg msg c),
            rg_source_ip = show_ip (sa_ip src), rg_source_port = sa_port src\<rparr>"
  by (rule granted_effect [OF assms])



definition example_md5 :: "string \<Rightarrow> string" where
  "example_md5 x = replicate 32 (CHR ''0'')"

definition example_nonce :: string where
  "example_nonce = ''000003e80707070707070707:'' @ replicate 32 (CHR ''0'')"

definition example_source :: socket_addr where
  "example_source = \<lparr>sa_ip = Ipv4 192 0 2 3, sa_port = 5062\<rparr>"

definition example_auth :: "string \<Rightarrow> string" where
  "example_auth response = ''Digest nonce='' @ example_nonce @ '',response='' @ response"

text \<open>A REGISTER of the user 1001 with the given digest response.\<close>

definition example_register :: "string \<Rightarrow> sip_message" where
  "example_register response = \<lparr>m_method = Some ''REGISTER'', m_request_uri = Some ''sip:x.org'', m_status_code = None,
     m_headers = [(''from'', [''<sip:1001@x.org>;tag=9'']), (''call-id'', [''c9'']), (''contact'', [''<sip:1001@10.0.0.1>'']),
       (''authorization'', [example_auth response])], m_body = [], m_raw = []\<rparr>"

lemma example_register_fields:
  "from_username (example_register r) = ''1001''" "contact (example_register r) = Some ''<sip:1001@10.0.0.1>''"
  "authorization (example_register r) = Some (example_auth r)"
  "expires (example_register r) = None" "user_agent (example_register r) = None" "contact_expires ''<sip:1001@10.0.0.1>'' = None"
  by code_simp+

lemma example_params:
  "parse_auth_params (example_auth (replicate 32 (CHR ''0''))) =
     Some [(''nonce'', example_nonce), (''response'', replicate 32 (CHR ''0''))]"
  "parse_auth_params (example_auth ''1'') = Some [(''nonce'', example_nonce), (''response'', ''1'')]"
  by code_simp+

lemma example_nonce_valid: "validate_nonce example_md5 example_env example_nonce ''s'' 300 = Some True"
proof -
  have "show_radix 16 1000 = ''3e8''" "show_radix 16 7 = ''7''" by (simp_all add: show_radix.simps digit_char_def char_of_def bit_0)
  moreover have "replicate 5 (CHR ''0'') = ''00000''" by code_simp
  ultimately have "show_hex_pad 8 1000 = ''000003e8''" "show_hex_pad 2 7 = ''07''" by (simp_all add: show_hex_pad_def)
  then have "generate_nonce example_md5 example_env ''s'' = example_nonce"
    by (simp add: generate_nonce_def generate_random_hex_def example_md5_def example_env_def example_nonce_def Let_def upt_rec)
  then show ?thesis using nonce_valid_iff [of example_md5 example_env example_env "''s''" 300]
    by (simp add: example_md5_def example_env_def)
qed


lemma example_authenticated: "authenticated example_md5 example_config example_env (example_register (replicate 32 (CHR ''0''))) example_state"
proof -
  let ?ps = "[(''nonce'', example_nonce), (''response'', replicate 32 (CHR ''0''))] :: (string, string) hmap"
  have "verify_digest_with_ha1 example_md5 ?ps ''h'' ''REGISTER''"
    by (simp add: verify_digest_with_ha1_def param_or_empty_def example_md5_def Let_def)
  moreover have "param_or_empty ?ps ''nonce'' = example_nonce" by (simp add: param_or_empty_def)
  ultimately show ?thesis
    using example_nonce_valid example_params unfolding authenticated_def example_register_fields
    by (intro exI [of _ "example_auth (replicate 32 (CHR ''0''))"] exI [of _ ?ps]
        exI [of _ "\<lparr>ac_ha1_hash = Some ''h'', ac_enabled = 1\<rparr>"] exI [of _ "''h''"]) (auto simp: example_state_def example_config_def)
qed

lemma example_open: "\<not> fst (is_blocked t ip (sv_guard example_state))"
  by (simp add: example_state_def guard_new_def is_blocked_def prune_expired_blocks_def hm_retain_def)

theorem nonce_lifetime_witness:
  "validate_nonce example_md5 (example_env\<lparr>ev_utc := 1299\<rparr>) (generate_nonce example_md5 example_env ''s'') ''s'' 300 = Some True \<and>
   validate_nonce example_md5 (example_env\<lparr>ev_utc := 1300\<rparr>) (generate_nonce example_md5 example_env ''s'') ''s'' 300 = Some False"
  using nonce_lifetime [of example_md5 example_env "example_env\<lparr>ev_utc := 1299\<rparr>" "''s''" 300]
    nonce_lifetime [of example_md5 example_env "example_env\<lparr>ev_utc := 1300\<rparr>" "''s''" 300]
  by (simp add: example_md5_def example_env_def)

lemma example_binding: "trim ''<sip:1001@10.0.0.1>'' \<noteq> ''*''" "register_expires example_config (example_register r) ''<sip:1001@10.0.0.1>'' = 3600"
  by code_simp (simp add: register_expires_def example_register_fields example_config_def)

theorem registration_effect_witness:
  "\<exists>row. hm_get (sv_registrations (snd (handle_register example_md5 example_config example_env
       (example_register (replicate 32 (CHR ''0''))) example_source example_state))) (''1001'', ''x.org'') = Some row \<and>
     rg_contact_uri row = ''sip:1001@192.0.2.3:5062'' \<and> rg_expires_at row = 4600"
proof -
  have "routable_contact_uri ''<sip:1001@10.0.0.1>'' ''1001'' example_source = ''sip:1001@192.0.2.3:5062''"
  proof -
    have "show_uint (5062 :: u16) = ''5062''" by (simp add: show_uint_def show_radix.simps digit_char_def char_of_def bit_0)
    moreover have "contact_uri_preserving_uri_params ''<sip:1001@10.0.0.1>'' = ''sip:1001@10.0.0.1''"
      "to_lower ''sip:1001@10.0.0.1'' = ''sip:1001@10.0.0.1''" "uri_username ''sip:1001@10.0.0.1'' = Some ''1001''"
      "uri_param_suffix ''sip:1001@10.0.0.1'' = []" "show_ip (Ipv4 192 0 2 3) = ''192.0.2.3''"
      by code_simp+
    ultimately show ?thesis by (simp add: routable_contact_uri_def socket_addr_uri_host_port_def example_source_def Let_def)
  qed
  then show ?thesis
    using registration_effect [OF _ example_open example_authenticated, where src = example_source and c = "''<sip:1001@10.0.0.1>''"] example_binding
    by (simp add: example_register_fields) (simp add: example_env_def example_config_def)
qed

theorem registration_needs_credentials_witness:
  "authenticated example_md5 example_config example_env (example_register (replicate 32 (CHR ''0''))) example_state"
proof -
  let ?st = "snd (handle_register example_md5 example_config example_env (example_register (replicate 32 (CHR ''0''))) example_source example_state)"
  have "hm_get (sv_registrations ?st) (from_username (example_register (replicate 32 (CHR ''0''))), cfg_sip_domain example_config) \<noteq> None"
    using granted_effect [OF _ example_open example_authenticated _ _ example_register_fields(2) example_binding(1), where src = example_source]
    by (simp add: example_register_fields example_binding(2)) (simp add: example_env_def)
  then have "sv_registrations ?st \<noteq> sv_registrations example_state" by (auto simp: example_state_def)
  then show ?thesis by (rule registration_needs_credentials [THEN conjunct2, THEN conjunct1])
qed

definition example_strict :: server_state where
  "example_strict = example_state\<lparr>sv_guard := guard_new
     \<lparr>window_secs = 60, ip_fail_threshold = 1, user_ip_fail_threshold = 2, block_secs = 30\<rparr>\<rparr>"

lemma example_rejected:
  "\<not> authenticated example_md5 example_config example_env (example_register ''1'') example_strict"
  "\<exists>reply. fst (handle_register example_md5 example_config example_env (example_register ''1'') example_source example_strict) = Ok reply"
proof -
  let ?ps = "[(''nonce'', example_nonce), (''response'', ''1'')] :: (string, string) hmap"
  have "replicate 32 (CHR ''0'') \<noteq> ''1''" by code_simp
  then have bad: "\<not> verify_digest_with_ha1 example_md5 ?ps h m" for h m
    by (simp add: verify_digest_with_ha1_def param_or_empty_def example_md5_def Let_def)
  have n: "param_or_empty ?ps ''nonce'' = example_nonce" by (simp add: param_or_empty_def)
  show "\<not> authenticated example_md5 example_config example_env (example_register ''1'') example_strict"
    unfolding authenticated_def example_register_fields using example_params(2) bad by auto
  have "register_verify example_md5 example_config example_env (example_register ''1'') example_source ''1001'' ?ps st =
      register_auth_failed example_md5 example_config example_env (example_register ''1'') example_source ''1001''
        ''register auth failed: invalid account or digest'' st" for st :: server_state
    using example_nonce_valid bad n
    by (auto simp: register_verify_def account_lookup_def example_config_def example_env_def Let_def split: option.splits)
  then show "\<exists>reply. fst (handle_register example_md5 example_config example_env (example_register ''1'') example_source example_strict) = Ok reply"
    using example_params(2) example_register_fields
    by (simp add: handle_register_def from_username_def [symmetric] Let_def split_beta register_auth_failed_def unauthorized_response_def)
qed


end
