(* ===== verification/Media_Sdp.thy ===== *)
theory Media_Sdp
  imports Sip_Message Net_Addr
begin

text \<open>
  The SDP helpers of \<open>backend/src/sip/media.rs\<close>: media sections, the rewriting of connection lines and
  ports for the RTP relay, the rewriting of the content length of a message, and the small
  predicates and extractors. A structured form of session descriptions serves as the specification.
\<close>

section \<open>Media sections\<close>

datatype sdp_media_kind = Audio | Video

record sdp_media_descriptor =
  md_kind :: sdp_media_kind
  md_media_index :: nat
  md_port :: u16
  md_active :: bool

definition sdp_media_port :: "string \<Rightarrow> u16 option" where
  "sdp_media_port port_token = parse_u16 (hd (split_on (CHR ''/'') port_token))"

definition media_kind_of :: "string \<Rightarrow> sdp_media_kind option" where
  "media_kind_of media_token =
     (case strip_prefix ''m='' media_token of
        None \<Rightarrow> None
      | Some k \<Rightarrow> if k = ''audio'' then Some Audio else if k = ''video'' then Some Video else None)"

definition is_m_line :: "string \<Rightarrow> bool" where
  "is_m_line line = prefix ''m='' (trim_start line)"

fun media_sections :: "nat \<Rightarrow> string list \<Rightarrow> sdp_media_descriptor list" where
  "media_sections media_index [] = []"
| "media_sections media_index (line # rest) =
     (if \<not> is_m_line line then media_sections media_index rest
      else (case split_whitespace (trim_start line) of
              media_token # port_token # _ \<Rightarrow>
                (case (media_kind_of media_token, sdp_media_port port_token) of
                   (Some kind, Some port) \<Rightarrow>
                     \<lparr>md_kind = kind, md_media_index = media_index, md_port = port,
                      md_active = (port \<noteq> 0)\<rparr> # media_sections (media_index + 1) rest
                 | _ \<Rightarrow> media_sections (media_index + 1) rest)
            | _ \<Rightarrow> media_sections (media_index + 1) rest))"

definition parse_sdp_media_sections :: "string \<Rightarrow> sdp_media_descriptor list" where
  "parse_sdp_media_sections sdp = media_sections 0 (lines sdp)"

section \<open>Rewriting\<close>

definition is_c_line :: "string \<Rightarrow> bool" where
  "is_c_line line = prefix ''c=IN IP4 '' (trim_start line)"

definition is_unsupported_m_line :: "string \<Rightarrow> bool" where
  "is_unsupported_m_line line =
     (let trimmed = trim_start line in
      prefix ''m='' trimmed
      \<and> \<not> prefix ''m=audio '' trimmed \<and> \<not> prefix (''m=audio'' @ [tab]) trimmed
      \<and> \<not> prefix ''m=video '' trimmed \<and> \<not> prefix (''m=video'' @ [tab]) trimmed)"

text \<open>The media indices whose section has its own connection line.\<close>

fun sections_with_connection :: "nat option \<Rightarrow> nat \<Rightarrow> string list \<Rightarrow> nat list" where
  "sections_with_connection cur n [] = []"
| "sections_with_connection cur n (line # rest) =
     (if is_m_line line then sections_with_connection (Some n) (n + 1) rest
      else if is_c_line line
      then (case cur of None \<Rightarrow> [] | Some i \<Rightarrow> [i]) @ sections_with_connection cur n rest
      else sections_with_connection cur n rest)"

definition sdp_m_line_port :: "string \<Rightarrow> u16 option" where
  "sdp_m_line_port line =
     (case nth_opt 1 (split_whitespace line) of None \<Rightarrow> None | Some tok \<Rightarrow> sdp_media_port tok)"

definition rewrite_m_port :: "string \<Rightarrow> u16 \<Rightarrow> string" where
  "rewrite_m_port line new_port =
     (let parts = splitn 4 (CHR '' '') line;
          media = (case nth_opt 0 parts of None \<Rightarrow> [] | Some x \<Rightarrow> x);
          port_field = (case nth_opt 1 parts of None \<Rightarrow> ''0'' | Some x \<Rightarrow> x);
          rest = (case nth_opt 2 parts of None \<Rightarrow> [] | Some x \<Rightarrow> x);
          fmt = (case nth_opt 3 parts of None \<Rightarrow> [] | Some x \<Rightarrow> x);
          count_suffix = (case find_char (CHR ''/'') port_field of None \<Rightarrow> [] | Some pos \<Rightarrow> drop pos port_field)
      in if fmt = [] then media @ '' '' @ show_uint new_port @ count_suffix @ '' '' @ rest
         else media @ '' '' @ show_uint new_port @ count_suffix @ '' '' @ rest @ '' '' @ fmt)"

definition c_line :: "string \<Rightarrow> string" where
  "c_line ip = ''c=IN IP4 '' @ ip"

text \<open>The main loop, with the index of the current section and of the next one.\<close>

fun rewrite_lines ::
  "string \<Rightarrow> (nat, u16) hmap \<Rightarrow> bool \<Rightarrow> nat list \<Rightarrow> nat option \<Rightarrow> nat \<Rightarrow> string list \<Rightarrow> string list" where
  "rewrite_lines new_ip ports unsupported with_c cur n [] = []"
| "rewrite_lines new_ip ports unsupported with_c cur n (line # rest) =
     (if is_m_line line
      then (let tail = rewrite_lines new_ip ports unsupported with_c (Some n) (n + 1) rest in
            case hm_get ports n of
              Some new_port \<Rightarrow>
                if (case sdp_m_line_port line of None \<Rightarrow> False | Some port \<Rightarrow> port \<noteq> 0)
                then rewrite_m_port line new_port #
                     (if unsupported \<and> n \<notin> set with_c then c_line new_ip # tail else tail)
                else line # tail
            | None \<Rightarrow> line # tail)
      else (let tail = rewrite_lines new_ip ports unsupported with_c cur n rest in
            if is_c_line line \<and>
               (\<not> unsupported \<or> (case cur of None \<Rightarrow> False | Some i \<Rightarrow> hm_get ports i \<noteq> None))
            then c_line new_ip # tail
            else line # tail))"

text \<open>\<open>iter().copied().collect()\<close> into a map: a later pair replaces an earlier one.\<close>

definition hm_collect :: "('k \<times> 'v) list \<Rightarrow> ('k, 'v) hmap" where
  "hm_collect kvs = fold (\<lambda>(k, v). hm_put k v) kvs []"

definition rewrite_sdp_media :: "string \<Rightarrow> string \<Rightarrow> (nat \<times> u16) list \<Rightarrow> string" where
  "rewrite_sdp_media sdp new_ip media_ports =
     (let ls = lines sdp in
      join crlf (rewrite_lines new_ip (hm_collect media_ports) (list_ex is_unsupported_m_line ls)
        (sections_with_connection None 0 ls) None 0 ls))"

definition rewrite_sdp :: "string \<Rightarrow> string \<Rightarrow> u16 \<Rightarrow> string" where
  "rewrite_sdp sdp new_ip new_port =
     (case find (\<lambda>m. md_kind m = Audio \<and> md_active m) (parse_sdp_media_sections sdp) of
        Some m \<Rightarrow> rewrite_sdp_media sdp new_ip [(md_media_index m, new_port)]
      | None \<Rightarrow> rewrite_sdp_media sdp new_ip [])"

text \<open>\<open>str::split\<close> on the line feed alone is \<open>split_on\<close>, on both bytes \<open>split_crlf\<close>.\<close>

definition rewrite_content_length :: "string \<Rightarrow> string \<Rightarrow> string" where
  "rewrite_content_length raw new_body =
     (let crlf_form = contains_str (crlf @ crlf) raw;
          sep = (if crlf_form then crlf @ crlf else [lf, lf]);
          header_sep = (if crlf_form then crlf else [lf])
      in case find_str sep raw of
           None \<Rightarrow> raw
         | Some pos \<Rightarrow>
             (let headers_raw = take pos raw;
                  split_lines = (if crlf_form then split_crlf headers_raw else split_on lf headers_raw);
                  kept = filter (\<lambda>l. l \<noteq> [])
                    (map (\<lambda>line. if prefix ''content-length:'' (to_lower line) then [] else line) split_lines)
              in join header_sep kept @ header_sep @ ''Content-Length: '' @ show_nat (length new_body) @
                 sep @ new_body))"

section \<open>Predicates and extractors\<close>

definition sdp_has_crypto :: "string \<Rightarrow> bool" where
  "sdp_has_crypto sdp = list_ex (\<lambda>l. prefix ''a=crypto:'' (to_lower l)) (lines sdp)"

definition is_invite_200_ok_with_sdp :: "sip_message \<Rightarrow> bool" where
  "is_invite_200_ok_with_sdp msg =
     (m_status_code msg = Some 200 \<and>
      (case cseq msg of None \<Rightarrow> False | Some s \<Rightarrow> suffix ''INVITE'' (to_upper s)) \<and>
      m_body msg \<noteq> [] \<and>
      (case header msg ''content-type'' of
         None \<Rightarrow> False | Some ct \<Rightarrow> contains_str ''application/sdp'' (to_lower ct)))"

definition is_webrtc_sdp :: "string \<Rightarrow> bool" where
  "is_webrtc_sdp sdp =
     list_ex (\<lambda>l. let lower = to_lower (trim l) in
        prefix ''a=ice-ufrag:'' lower \<or> prefix ''a=fingerprint:'' lower) (lines sdp)"

text \<open>The clock is read once, in seconds since the epoch.\<close>

definition make_plain_rtp_sdp :: "nat \<Rightarrow> string \<Rightarrow> u16 \<Rightarrow> u16 option \<Rightarrow> string" where
  "make_plain_rtp_sdp ts server_ip audio_port video_port =
     ''v=0'' @ crlf @ ''o=- '' @ show_nat ts @ '' '' @ show_nat ts @ '' IN IP4 '' @ server_ip @ crlf @
     ''s=-'' @ crlf @ ''c=IN IP4 '' @ server_ip @ crlf @ ''t=0 0'' @ crlf @
     ''m=audio '' @ show_uint audio_port @ '' RTP/AVP 0 8'' @ crlf @
     ''a=rtpmap:0 PCMU/8000'' @ crlf @ ''a=rtpmap:8 PCMA/8000'' @ crlf @ ''a=sendrecv'' @ crlf @
     (case video_port of
        None \<Rightarrow> []
      | Some port \<Rightarrow>
          ''m=video '' @ show_uint port @ '' RTP/AVP 96 97'' @ crlf @
          ''a=rtpmap:96 H264/90000'' @ crlf @ ''a=rtpmap:97 VP8/90000'' @ crlf @ ''a=sendrecv'' @ crlf)"

definition sdp_connection_ip :: "string \<Rightarrow> string option" where
  "sdp_connection_ip sdp =
     (case find (prefix ''c=IN IP4 '') (lines sdp) of
        None \<Rightarrow> None
      | Some line \<Rightarrow> Some (trim (drop 9 line)))"

definition sdp_port_of :: "string \<Rightarrow> string \<Rightarrow> u16 option" where
  "sdp_port_of media sdp =
     (case find (\<lambda>l. prefix (media @ '' '') l \<or> prefix (media @ [tab]) l) (lines sdp) of
        None \<Rightarrow> None
      | Some line \<Rightarrow>
          (case nth_opt 1 (split_whitespace line) of
             None \<Rightarrow> None
           | Some port_str \<Rightarrow> parse_u16 (hd (split_on (CHR ''/'') port_str))))"

definition sdp_audio_port :: "string \<Rightarrow> u16 option" where
  "sdp_audio_port sdp = sdp_port_of ''m=audio'' sdp"

definition sdp_video_port :: "string \<Rightarrow> u16 option" where
  "sdp_video_port sdp = sdp_port_of ''m=video'' sdp"

definition sdp_rtp_addr :: "string \<Rightarrow> socket_addr option" where
  "sdp_rtp_addr sdp =
     (case sdp_connection_ip sdp of
        None \<Rightarrow> None
      | Some ip \<Rightarrow>
          (case sdp_audio_port sdp of
             None \<Rightarrow> None
           | Some port \<Rightarrow> parse_socket_addr (ip @ '':'' @ show_uint port)))"

section \<open>Structured session descriptions\<close>

datatype sdp_line =
    MLine string u16 string string string
  | CLine string
  | OtherLine string

fun show_sdp_line :: "sdp_line \<Rightarrow> string" where
  "show_sdp_line (MLine k p c proto fmt) =
     ''m='' @ k @ '' '' @ show_uint p @ c @ '' '' @ proto @ '' '' @ fmt"
| "show_sdp_line (CLine ip) = c_line ip"
| "show_sdp_line (OtherLine l) = l"

definition print_sdp :: "sdp_line list \<Rightarrow> string" where
  "print_sdp ls = concat (map (\<lambda>l. show_sdp_line l @ crlf) ls)"

definition plain_token :: "string \<Rightarrow> bool" where
  "plain_token t = (t \<noteq> [] \<and> list_all (\<lambda>c. \<not> is_whitespace c) t)"

fun wf_sdp_line :: "sdp_line \<Rightarrow> bool" where
  "wf_sdp_line (MLine k p c proto fmt) =
     (plain_token k \<and> (c = [] \<or> (hd c = CHR ''/'' \<and> plain_token c)) \<and> plain_token proto \<and>
      fmt \<noteq> [] \<and> lf \<notin> set fmt)"
| "wf_sdp_line (CLine ip) = (lf \<notin> set ip)"
| "wf_sdp_line (OtherLine l) = (\<not> is_m_line l \<and> \<not> is_c_line l \<and> lf \<notin> set l \<and> l \<noteq> [])"

lemma token_no [simp]:
  "plain_token t \<Longrightarrow> CHR '' '' \<notin> set t" "plain_token t \<Longrightarrow> lf \<notin> set t" "plain_token t \<Longrightarrow> tab \<notin> set t"
  "plain_token t \<Longrightarrow> cr \<notin> set t"
  by (auto simp: plain_token_def list_all_iff is_whitespace_def)

lemma show_sdp_no_lf: "wf_sdp_line l \<Longrightarrow> lf \<notin> set (show_sdp_line l)"
  by (cases l) (auto simp: c_line_def str_simps)

lemma lines_print_sdp: "list_all wf_sdp_line ls \<Longrightarrow> lines (print_sdp ls) = map show_sdp_line ls"
proof -
  assume wf: "list_all wf_sdp_line ls"
  have "print_sdp ls = concat (map (\<lambda>l. l @ crlf) (map show_sdp_line ls)) @ []"
    by (simp add: print_sdp_def comp_def)
  moreover have "\<forall>l \<in> set (map show_sdp_line ls). lf \<notin> set l"
    using wf show_sdp_no_lf by (auto simp: list_all_iff)
  ultimately show ?thesis
    using lines_concat_crlf [of "map show_sdp_line ls" "[]"] by (auto simp del: map_map)
qed

lemma split_ws_token:
  "list_all (\<lambda>c. \<not> is_whitespace c) t \<Longrightarrow>
    split_whitespace_aux acc (t @ s) = split_whitespace_aux (rev t @ acc) s"
  by (induction t arbitrary: acc) auto

lemma split_whitespace_token:
  assumes "plain_token t"
  shows "split_whitespace (t @ CHR '' '' # s) = t # split_whitespace s" "split_whitespace t = [t]"
  using assms split_ws_token [of t "[]" "CHR '' '' # s"] split_ws_token [of t "[]" "[]"]
  by (auto simp: plain_token_def split_whitespace_def is_whitespace_def)

lemma show_uint_token: "plain_token (show_uint p)"
  using show_radix_plain [of 10 _ "unat p"] by (auto simp: plain_token_def show_uint_def list_all_iff)

lemma port_token:
  assumes "c = [] \<or> (hd c = CHR ''/'' \<and> plain_token c)"
  shows "plain_token (show_uint p @ c)" "sdp_media_port (show_uint p @ c) = Some p"
    "find_char (CHR ''/'') (show_uint p @ c) = (if c = [] then None else Some (length (show_uint p)))"
proof -
  show "plain_token (show_uint p @ c)"
    using assms show_uint_token [of p] by (auto simp: plain_token_def)
  have n: "CHR ''/'' \<notin> set (show_uint p)" by (simp add: str_simps)
  show "find_char (CHR ''/'') (show_uint p @ c) = (if c = [] then None else Some (length (show_uint p)))"
    using assms n find_char_append [OF n, of "tl c"] by (cases c) (auto simp: find_char_None_iff)
  have "hd (split_on (CHR ''/'') (show_uint p @ c)) = show_uint p"
    using assms n split_on_append [OF n, of "tl c"] split_on_no_sep [OF n] by (cases c) auto
  then show "sdp_media_port (show_uint p @ c) = Some p" by (simp add: sdp_media_port_def)
qed

lemma m_line_trim: "trim_start (''m='' @ s) = ''m='' @ s"
  by (simp add: trim_start_def is_whitespace_def)

lemma m_line_shape:
  "is_m_line (show_sdp_line l) \<longleftrightarrow> (\<exists>k p c proto fmt. l = MLine k p c proto fmt)" if "wf_sdp_line l"
  using that
  by (cases l) (auto simp: is_m_line_def c_line_def trim_start_def is_whitespace_def)

lemma c_line_shape: "wf_sdp_line l \<Longrightarrow> is_c_line (show_sdp_line l) \<longleftrightarrow> (\<exists>ip. l = CLine ip)"
  by (cases l) (auto simp: is_c_line_def c_line_def trim_start_def is_whitespace_def)

lemma m_line_words:
  assumes "wf_sdp_line (MLine k p c proto fmt)"
  shows "\<exists>ws. split_whitespace (show_sdp_line (MLine k p c proto fmt)) = (''m='' @ k) # (show_uint p @ c) # ws"
proof -
  have k: "plain_token (''m='' @ k)" using assms by (auto simp: plain_token_def is_whitespace_def)
  have p: "plain_token (show_uint p @ c)" using assms port_token(1) by simp
  have "split_whitespace (''m='' @ k @ '' '' @ (show_uint p @ c) @ '' '' @ proto @ '' '' @ fmt) =
      (''m='' @ k) # (show_uint p @ c) # split_whitespace (proto @ '' '' @ fmt)"
    using split_whitespace_token(1) [OF k, of "(show_uint p @ c) @ '' '' @ proto @ '' '' @ fmt"]
      split_whitespace_token(1) [OF p, of "proto @ '' '' @ fmt"] by simp
  then show ?thesis by simp
qed

lemma m_line_port: "wf_sdp_line (MLine k p c proto fmt) \<Longrightarrow> sdp_m_line_port (show_sdp_line (MLine k p c proto fmt)) = Some p"
  using m_line_words [of k p c proto fmt] port_token(2) [of c p] by (auto simp: sdp_m_line_port_def nth_opt_def)

lemma rewrite_m_port_line:
  assumes "wf_sdp_line (MLine k p c proto fmt)"
  shows "rewrite_m_port (show_sdp_line (MLine k p c proto fmt)) q = show_sdp_line (MLine k q c proto fmt)"
proof -
  have k: "CHR '' '' \<notin> set (''m='' @ k)" and proto: "CHR '' '' \<notin> set proto" using assms by auto
  have p: "CHR '' '' \<notin> set (show_uint p @ c)"
    by (rule token_no(1)) (rule port_token(1), use assms in simp)
  have "splitn 4 (CHR '' '') (show_sdp_line (MLine k p c proto fmt)) = [''m='' @ k, show_uint p @ c, proto, fmt]"
    using splitn2 [OF k, of 2 "(show_uint p @ c) @ '' '' @ proto @ '' '' @ fmt"]
      splitn2 [OF p, of 1 "proto @ '' '' @ fmt"] splitn2 [OF proto, of 0 fmt]
    by (simp add: eval_nat_numeral)
  then show ?thesis
    using assms port_token(3) [of c p] by (auto simp: rewrite_m_port_def Let_def nth_opt_def)
qed

section \<open>Rewriting the structured form\<close>

fun rewrite_struct ::
  "string \<Rightarrow> (nat, u16) hmap \<Rightarrow> bool \<Rightarrow> nat list \<Rightarrow> nat option \<Rightarrow> nat \<Rightarrow> sdp_line list \<Rightarrow> sdp_line list" where
  "rewrite_struct ip ports unsupported with_c cur n [] = []"
| "rewrite_struct ip ports unsupported with_c cur n (MLine k p c proto fmt # ls) =
     (case hm_get ports n of
        Some q \<Rightarrow>
          if p = 0 then [MLine k p c proto fmt]
          else MLine k q c proto fmt # (if unsupported \<and> n \<notin> set with_c then [CLine ip] else [])
      | None \<Rightarrow> [MLine k p c proto fmt]) @
     rewrite_struct ip ports unsupported with_c (Some n) (n + 1) ls"
| "rewrite_struct ip ports unsupported with_c cur n (CLine a # ls) =
     CLine (if \<not> unsupported \<or> (case cur of None \<Rightarrow> False | Some i \<Rightarrow> hm_get ports i \<noteq> None) then ip else a) #
     rewrite_struct ip ports unsupported with_c cur n ls"
| "rewrite_struct ip ports unsupported with_c cur n (OtherLine l # ls) =
     OtherLine l # rewrite_struct ip ports unsupported with_c cur n ls"

fun struct_with_c :: "nat option \<Rightarrow> nat \<Rightarrow> sdp_line list \<Rightarrow> nat list" where
  "struct_with_c cur n [] = []"
| "struct_with_c cur n (MLine k p c proto fmt # ls) = struct_with_c (Some n) (n + 1) ls"
| "struct_with_c cur n (CLine a # ls) = (case cur of None \<Rightarrow> [] | Some i \<Rightarrow> [i]) @ struct_with_c cur n ls"
| "struct_with_c cur n (OtherLine l # ls) = struct_with_c cur n ls"

fun unsupported_media :: "sdp_line \<Rightarrow> bool" where
  "unsupported_media (MLine k p c proto fmt) = (k \<noteq> ''audio'' \<and> k \<noteq> ''video'')"
| "unsupported_media _ = False"

lemma prefix_token:
  assumes "plain_token k" "list_all (\<lambda>c. \<not> is_whitespace c) t" "is_whitespace w"
  shows "prefix (t @ [w]) (k @ CHR '' '' # s) \<longleftrightarrow> k = t \<and> w = CHR '' ''"
proof -
  have k: "list_all (\<lambda>c. \<not> is_whitespace c) k" using assms(1) by (simp add: plain_token_def)
  show ?thesis
    using k assms(2)
  proof (induction t arbitrary: k)
    case Nil
    then show ?case using assms(3) by (cases k) auto
  next
    case (Cons a t)
    then show ?case by (cases k) (auto simp: is_whitespace_def)
  qed
qed

lemma unsupported_shape:
  assumes "wf_sdp_line l"
  shows "is_unsupported_m_line (show_sdp_line l) \<longleftrightarrow> unsupported_media l"
proof (cases l)
  case (MLine k p c proto fmt)
  have k: "plain_token k" using assms MLine by simp
  have a: "list_all (\<lambda>c. \<not> is_whitespace c) ''audio''" "list_all (\<lambda>c. \<not> is_whitespace c) ''video''"
    by (simp_all add: is_whitespace_def)
  have w: "is_whitespace (CHR '' '')" "is_whitespace tab" by (simp_all add: is_whitespace_def)
  show ?thesis
    unfolding MLine is_unsupported_m_line_def Let_def
    using prefix_token [OF k a(1) w(1)] prefix_token [OF k a(1) w(2)]
      prefix_token [OF k a(2) w(1)] prefix_token [OF k a(2) w(2)]
    by (simp add: m_line_trim [simplified])
qed (use assms m_line_shape [of l] in \<open>auto simp: is_unsupported_m_line_def is_m_line_def Let_def\<close>)

lemma sections_with_connection_show:
  "list_all wf_sdp_line ls \<Longrightarrow> sections_with_connection cur n (map show_sdp_line ls) = struct_with_c cur n ls"
proof (induction ls arbitrary: cur n)
  case (Cons l ls)
  then show ?case
    using m_line_shape [of l] c_line_shape [of l] by (cases l) (simp_all del: show_sdp_line.simps)
qed simp

lemma rewrite_lines_show:
  "list_all wf_sdp_line ls \<Longrightarrow>
    rewrite_lines ip ports u w cur n (map show_sdp_line ls) = map show_sdp_line (rewrite_struct ip ports u w cur n ls)"
proof (induction ls arbitrary: cur n)
  case (Cons l ls)
  show ?case
  proof (cases l)
    case (MLine k p c proto fmt)
    then show ?thesis
      using Cons m_line_shape [of l] m_line_port [of k p c proto fmt] rewrite_m_port_line [of k p c proto fmt]
      by (auto simp: Let_def simp del: show_sdp_line.simps(1) split: option.splits)
  next
    case (CLine a)
    then show ?thesis using Cons m_line_shape [of l] c_line_shape [of l] by (auto simp: Let_def)
  next
    case (OtherLine a)
    then show ?thesis using Cons by simp
  qed
qed simp

text \<open>The rewriting of a printed description is the printing of the rewritten one.\<close>

definition rewritten :: "string \<Rightarrow> (nat \<times> u16) list \<Rightarrow> sdp_line list \<Rightarrow> sdp_line list" where
  "rewritten ip media_ports ls =
     rewrite_struct ip (hm_collect media_ports) (list_ex unsupported_media ls) (struct_with_c None 0 ls) None 0 ls"

lemma rewrite_sdp_media_print:
  assumes "list_all wf_sdp_line ls"
  shows "rewrite_sdp_media (print_sdp ls) ip media_ports = join crlf (map show_sdp_line (rewritten ip media_ports ls))"
proof -
  have "list_ex is_unsupported_m_line (map show_sdp_line ls) = list_ex unsupported_media ls"
    using assms unsupported_shape by (induction ls) auto
  then show ?thesis
    by (simp add: rewrite_sdp_media_def lines_print_sdp [OF assms] Let_def rewritten_def
        rewrite_lines_show [OF assms] sections_with_connection_show [OF assms])
qed

section \<open>Reading what was rewritten\<close>

fun struct_sections :: "nat \<Rightarrow> sdp_line list \<Rightarrow> sdp_media_descriptor list" where
  "struct_sections n [] = []"
| "struct_sections n (MLine k p c proto fmt # ls) =
     (case media_kind_of (''m='' @ k) of
        None \<Rightarrow> []
      | Some kind \<Rightarrow> [\<lparr>md_kind = kind, md_media_index = n, md_port = p, md_active = (p \<noteq> 0)\<rparr>]) @
     struct_sections (n + 1) ls"
| "struct_sections n (CLine a # ls) = struct_sections n ls"
| "struct_sections n (OtherLine l # ls) = struct_sections n ls"

definition redirect :: "(nat, u16) hmap \<Rightarrow> sdp_media_descriptor \<Rightarrow> sdp_media_descriptor" where
  "redirect ports d =
     (case hm_get ports (md_media_index d) of
        None \<Rightarrow> d
      | Some q \<Rightarrow> if md_port d = 0 then d else d\<lparr>md_port := q, md_active := (q \<noteq> 0)\<rparr>)"

lemma media_sections_show:
  "list_all wf_sdp_line ls \<Longrightarrow> media_sections n (map show_sdp_line ls) = struct_sections n ls"
proof (induction ls arbitrary: n)
  case (Cons l ls)
  show ?case
  proof (cases l)
    case (MLine k p c proto fmt)
    have t: "trim_start (show_sdp_line l) = show_sdp_line l"
      unfolding MLine by (simp add: trim_start_def is_whitespace_def)
    obtain ws where w: "split_whitespace (show_sdp_line l) = (''m='' @ k) # (show_uint p @ c) # ws"
      using m_line_words [of k p c proto fmt] Cons.prems MLine by auto
    have "sdp_media_port (show_uint p @ c) = Some p" using port_token(2) [of c p] Cons.prems MLine by simp
    moreover have "is_m_line (show_sdp_line l)" using m_line_shape [of l] Cons.prems MLine by simp
    ultimately show ?thesis
      using Cons t w by (simp add: MLine del: show_sdp_line.simps split: option.splits)
  qed (use Cons m_line_shape [of l] in \<open>auto simp del: show_sdp_line.simps(2)\<close>)
qed simp

lemma struct_sections_rewrite:
  "struct_sections n (rewrite_struct ip ports u w cur n ls) = map (redirect ports) (struct_sections n ls)"
  by (induction ip ports u w cur n ls rule: rewrite_struct.induct)
    (auto simp: redirect_def split: option.splits)

lemma rewrite_struct_wf:
  assumes "lf \<notin> set ip"
  shows "list_all wf_sdp_line ls \<Longrightarrow> list_all wf_sdp_line (rewrite_struct ip ports u w cur n ls)"
  using assms by (induction ip ports u w cur n ls rule: rewrite_struct.induct) (auto split: option.splits)

lemma rewrite_struct_ne: "ls \<noteq> [] \<Longrightarrow> rewrite_struct ip ports u w cur n ls \<noteq> []"
  by (cases "(ip, ports, u, w, cur, n, ls)" rule: rewrite_struct.cases) (auto split: option.splits)

lemma lines_join_crlf:
  assumes "ls \<noteq> []" "\<forall>l \<in> set ls. lf \<notin> set l \<and> l \<noteq> []"
  shows "lines (join crlf ls) = ls"
  using assms
proof (induction ls)
  case (Cons l ls)
  show ?case
  proof (cases ls)
    case Nil
    then show ?thesis using Cons.prems by (simp add: lines_single)
  next
    case (Cons l' ls')
    then show ?thesis
      using Cons.IH Cons.prems lines_crlf [of l "join crlf ls"] by simp
  qed
qed simp

lemma show_sdp_ne [simp]: "wf_sdp_line l \<Longrightarrow> show_sdp_line l \<noteq> []"
  by (cases l) (auto simp: c_line_def)

lemma lines_rewritten:
  assumes "list_all wf_sdp_line ls" "ls \<noteq> []" "lf \<notin> set ip"
  shows "lines (rewrite_sdp_media (print_sdp ls) ip mp) = map show_sdp_line (rewritten ip mp ls)"
    "list_all wf_sdp_line (rewritten ip mp ls)"
proof -
  show wf: "list_all wf_sdp_line (rewritten ip mp ls)"
    unfolding rewritten_def by (rule rewrite_struct_wf [OF assms(3,1)])
  have "rewritten ip mp ls \<noteq> []" unfolding rewritten_def by (rule rewrite_struct_ne [OF assms(2)])
  then show "lines (rewrite_sdp_media (print_sdp ls) ip mp) = map show_sdp_line (rewritten ip mp ls)"
    unfolding rewrite_sdp_media_print [OF assms(1)]
    using wf show_sdp_no_lf show_sdp_ne by (intro lines_join_crlf) (auto simp: list_all_iff)
qed

lemma sections_rewritten:
  assumes "list_all wf_sdp_line ls" "ls \<noteq> []" "lf \<notin> set ip"
  shows "parse_sdp_media_sections (rewrite_sdp_media (print_sdp ls) ip mp) =
    map (redirect (hm_collect mp)) (parse_sdp_media_sections (print_sdp ls))"
proof -
  have "parse_sdp_media_sections (rewrite_sdp_media (print_sdp ls) ip mp) = struct_sections 0 (rewritten ip mp ls)"
    using lines_rewritten [OF assms] by (simp add: parse_sdp_media_sections_def media_sections_show)
  also have "\<dots> = map (redirect (hm_collect mp)) (struct_sections 0 ls)"
    by (simp add: rewritten_def struct_sections_rewrite)
  finally show ?thesis
    by (simp add: parse_sdp_media_sections_def lines_print_sdp [OF assms(1)] media_sections_show [OF assms(1)])
qed

section \<open>The address a peer reads\<close>

fun first_c :: "sdp_line list \<Rightarrow> string option" where
  "first_c [] = None"
| "first_c (CLine a # ls) = Some a"
| "first_c (_ # ls) = first_c ls"

fun first_audio :: "sdp_line list \<Rightarrow> u16 option" where
  "first_audio [] = None"
| "first_audio (MLine k p c proto fmt # ls) = (if k = ''audio'' then Some p else first_audio ls)"
| "first_audio (_ # ls) = first_audio ls"

lemma prefix_not_ws: "prefix (a # p) l \<Longrightarrow> \<not> is_whitespace a \<Longrightarrow> trim_start l = l"
  by (cases l) (auto simp: trim_start_def)

lemma find_c_show:
  "list_all wf_sdp_line ls \<Longrightarrow> find (prefix ''c=IN IP4 '') (map show_sdp_line ls) = map_option c_line (first_c ls)"
proof (induction ls)
  case (Cons l ls)
  show ?case
  proof (cases l)
    case (OtherLine x)
    have "\<not> prefix ''c=IN IP4 '' x"
      using Cons.prems OtherLine prefix_not_ws [of "CHR ''c''" "''=IN IP4 ''" x]
      by (auto simp: is_c_line_def is_whitespace_def)
    then show ?thesis using Cons OtherLine by simp
  qed (use Cons in \<open>auto simp: c_line_def\<close>)
qed simp

lemma find_audio_show:
  assumes "list_all wf_sdp_line ls"
  shows "(case find (\<lambda>l. prefix (''m=audio'' @ '' '') l \<or> prefix (''m=audio'' @ [tab]) l) (map show_sdp_line ls) of
      None \<Rightarrow> None
    | Some line \<Rightarrow> (case nth_opt 1 (split_whitespace line) of None \<Rightarrow> None | Some t \<Rightarrow> sdp_media_port t)) = first_audio ls"
  using assms
proof (induction ls)
  case (Cons l ls)
  have ws: "list_all (\<lambda>c. \<not> is_whitespace c) ''audio''" "is_whitespace (CHR '' '')" "is_whitespace tab"
    by (simp_all add: is_whitespace_def)
  show ?case
  proof (cases l)
    case (MLine k p c proto fmt)
    have k: "plain_token k" using Cons.prems MLine by simp
    have "(prefix (''m=audio'' @ '' '') (show_sdp_line l) \<or> prefix (''m=audio'' @ [tab]) (show_sdp_line l)) \<longleftrightarrow> k = ''audio''"
      unfolding MLine using prefix_token [OF k ws(1,2)] prefix_token [OF k ws(1,3)] by simp
    moreover have "(case nth_opt 1 (split_whitespace (show_sdp_line l)) of None \<Rightarrow> None | Some t \<Rightarrow> sdp_media_port t) = Some p"
      using m_line_port [of k p c proto fmt] Cons.prems unfolding MLine sdp_m_line_port_def by simp
    ultimately show ?thesis
      using Cons MLine by (cases "k = ''audio''") (simp_all del: show_sdp_line.simps append_Cons)
  next
    case (OtherLine x)
    have "\<not> prefix ''m=audio'' x"
      using Cons.prems OtherLine prefix_not_ws [of "CHR ''m''" "''=audio''" x]
      by (auto simp: is_m_line_def is_whitespace_def prefix_def)
    then have "\<not> prefix (''m=audio'' @ '' '') x" "\<not> prefix (''m=audio'' @ [tab]) x"
      using append_prefixD by blast+
    then show ?thesis using Cons OtherLine by (simp del: append_Cons)
  next
    case (CLine a)
    then show ?thesis using Cons by (simp add: c_line_def)
  qed
qed simp

lemma first_audio_sections:
  "first_audio ls = map_option md_port (find (\<lambda>d. md_kind d = Audio) (struct_sections n ls))"
  by (induction ls arbitrary: n rule: first_audio.induct) (auto simp: media_kind_of_def strip_prefix_def split: option.splits)

lemma first_c_rewrite:
  "first_c ls \<noteq> None \<Longrightarrow> first_c (rewrite_struct ip ports False w cur n ls) = Some ip"
  by (induction ip ports False w cur n ls rule: rewrite_struct.induct) (auto split: option.splits)

lemma redirect_single:
  assumes "find (\<lambda>m. md_kind m = Audio \<and> md_active m) ds = Some m" "find (\<lambda>m. md_kind m = Audio) ds = Some m"
    "md_port m \<noteq> 0"
  shows "find (\<lambda>m. md_kind m = Audio) (map (redirect (hm_collect [(md_media_index m, q)])) ds) =
    Some (m\<lparr>md_port := q, md_active := (q \<noteq> 0)\<rparr>)"
proof -
  have kind: "md_kind (redirect ports d) = md_kind d" for ports d
    by (simp add: redirect_def split: option.splits)
  have "find (\<lambda>m. md_kind m = Audio) (map (redirect ports) ds) = map_option (redirect ports) (find (\<lambda>m. md_kind m = Audio) ds)"
    for ports by (induction ds) (auto simp: kind)
  then show ?thesis using assms by (simp add: redirect_def hm_collect_def)
qed

lemma struct_sections_active: "d \<in> set (struct_sections n ls) \<Longrightarrow> md_active d \<longleftrightarrow> md_port d \<noteq> 0"
  by (induction n ls rule: struct_sections.induct) (auto split: option.splits)

lemma find_active:
  assumes "find P xs = Some x" "Q x"
  shows "find (\<lambda>x. P x \<and> Q x) xs = Some x"
  using assms by (induction xs) (auto split: if_splits)

lemma trim_ipv4 [simp]: "trim (show_ipv4 a b c d) = show_ipv4 a b c d"
proof -
  have "\<not> is_whitespace x" if "x \<in> set (show_ipv4 a b c d)" for x
    using that show_uint_token by (auto simp: show_ipv4_def plain_token_def list_all_iff is_whitespace_def)
  moreover have "show_ipv4 a b c d \<noteq> []" by (simp add: show_ipv4_def)
  ultimately have "trimmed (show_ipv4 a b c d)" by (simp add: trimmed_def)
  then show ?thesis by (rule trim_trimmed)
qed

lemma ipv4_no_lf: "lf \<notin> set (show_ipv4 a b c d)"
  by (simp add: show_ipv4_def str_simps)

section \<open>The properties\<close>

text \<open>
  C30: rewriting a session description changes what it should and nothing else. For every
  description made of well-formed media lines, connection lines and other lines, the media sections
  read from the rewritten text are those of the original, in the same order and with the same kind
  and index, where exactly the active sections that have a relay port carry that port.
\<close>

theorem rewrite_sdp_media_sections:
  assumes "list_all wf_sdp_line ls" "ls \<noteq> []" "lf \<notin> set ip"
  shows "parse_sdp_media_sections (rewrite_sdp_media (print_sdp ls) ip mp) =
    map (redirect (hm_collect mp)) (parse_sdp_media_sections (print_sdp ls))"
  by (rule sections_rewritten [OF assms])

definition example_sdp :: "sdp_line list" where
  "example_sdp = [OtherLine ''v=0'', CLine ''192.168.1.5'', MLine ''audio'' 49170 [] ''RTP/AVP'' ''0 8'',
     OtherLine ''a=sendrecv'', MLine ''video'' 0 [] ''RTP/AVP'' ''96'']"

lemma example_sdp_wf: "list_all wf_sdp_line example_sdp"
  by code_simp

theorem rewrite_sdp_media_sections_witness:
  "parse_sdp_media_sections (rewrite_sdp_media (print_sdp example_sdp) ''203.0.113.9'' [(0, 10000), (1, 10002)]) =
   map (redirect (hm_collect [(0, 10000), (1, 10002)])) (parse_sdp_media_sections (print_sdp example_sdp))"
  by (rule rewrite_sdp_media_sections [OF example_sdp_wf]) (simp_all add: example_sdp_def)

text \<open>
  the far end of a relayed call sends its audio to the relay. For a description without
  unsupported media, with a connection line, whose first audio section is active, the audio address
  read from the rewritten text is the relay's IPv4 address and port.
\<close>

theorem rewrite_sdp_addr:
  assumes "list_all wf_sdp_line ls" "\<not> list_ex unsupported_media ls" "first_c ls \<noteq> None"
    and "first_audio ls = Some p" "p \<noteq> 0"
  shows "sdp_rtp_addr (rewrite_sdp (print_sdp ls) (show_ipv4 a b c d) q) = Some \<lparr>sa_ip = Ipv4 a b c d, sa_port = q\<rparr>"
proof -
  let ?ds = "struct_sections 0 ls" and ?ip = "show_ipv4 a b c d"
  have ne: "ls \<noteq> []" using assms(3) by auto
  obtain m where m: "find (\<lambda>m. md_kind m = Audio) ?ds = Some m" "md_port m = p"
    using assms(4) by (auto simp: first_audio_sections [of ls 0])
  have act: "md_active m"
    using struct_sections_active m assms(5) by (metis find_Some_iff nth_mem)
  have find: "find (\<lambda>m. md_kind m = Audio \<and> md_active m) ?ds = Some m"
    using find_active [OF m(1), of md_active] act by simp
  let ?mp = "[(md_media_index m, q)]"
  have rw: "rewrite_sdp (print_sdp ls) ?ip q = rewrite_sdp_media (print_sdp ls) ?ip ?mp"
    using find by (simp add: rewrite_sdp_def parse_sdp_media_sections_def lines_print_sdp [OF assms(1)]
        media_sections_show [OF assms(1)])
  note out = lines_rewritten [OF assms(1) ne ipv4_no_lf [of a b c d], of ?mp]
  have "first_c (rewritten ?ip ?mp ls) = Some ?ip"
    using assms(2,3) by (simp add: rewritten_def first_c_rewrite)
  then have c: "sdp_connection_ip (rewrite_sdp (print_sdp ls) ?ip q) = Some ?ip"
    by (simp add: rw sdp_connection_ip_def out(1) find_c_show [OF out(2)] c_line_def)
  have "first_audio (rewritten ?ip ?mp ls) = Some q"
    using redirect_single [OF find m(1)] m(2) assms(5)
    by (simp add: first_audio_sections [of _ 0] rewritten_def struct_sections_rewrite)
  then have "sdp_audio_port (rewrite_sdp (print_sdp ls) ?ip q) = Some q"
    using find_audio_show [OF out(2)]
    by (simp only: rw sdp_audio_port_def sdp_port_of_def out(1) sdp_media_port_def [symmetric])
  with c show ?thesis by (simp add: sdp_rtp_addr_def)
qed

theorem rewrite_sdp_addr_witness:
  "sdp_rtp_addr (rewrite_sdp (print_sdp example_sdp) (show_ipv4 203 0 113 9) 10000) =
     Some \<lparr>sa_ip = Ipv4 203 0 113 9, sa_port = 10000\<rparr>"
  by (rule rewrite_sdp_addr [OF example_sdp_wf, of 49170]) (simp_all add: example_sdp_def)

section \<open>The content length\<close>

lemma find_str_skip:
  assumes "lf \<notin> set s"
  shows "find_str (crlf @ crlf) (s @ cr # lf # t) =
    map_option ((+) (length s)) (find_str (crlf @ crlf) (cr # lf # t))"
  using assms
proof (induction s)
  case Nil
  then show ?case by (simp add: option.map_id0 [unfolded id_def])
next
  case (Cons a s)
  have "\<not> prefix (crlf @ crlf) (a # s @ cr # lf # t)"
    using Cons.prems by (cases s) auto
  then have "find_str (crlf @ crlf) (a # s @ cr # lf # t) = map_option Suc (find_str (crlf @ crlf) (s @ cr # lf # t))"
    by (simp only: find_str.simps if_False)
  also have "find_str (crlf @ crlf) (s @ cr # lf # t) = map_option ((+) (length s)) (find_str (crlf @ crlf) (cr # lf # t))"
    using Cons by simp
  finally show ?case by (simp only: append_Cons option.map_comp) (simp add: comp_def)
qed

lemma find_str_line:
  assumes "lf \<notin> set l'" "l' \<noteq> []"
  shows "find_str (crlf @ crlf) (cr # lf # l' @ cr # lf # t) =
    map_option ((+) 2) (find_str (crlf @ crlf) (l' @ cr # lf # t))"
proof -
  obtain x xs where l': "l' = x # xs" using assms(2) by (cases l') auto
  have "\<not> prefix (crlf @ crlf) (cr # lf # l' @ cr # lf # t)"
    using assms by (cases xs) (auto simp: l')
  then have "find_str (crlf @ crlf) (cr # lf # l' @ cr # lf # t) = map_option Suc (find_str (crlf @ crlf) (lf # l' @ cr # lf # t))"
    by (simp only: find_str.simps if_False)
  also have "find_str (crlf @ crlf) (lf # l' @ cr # lf # t) = map_option Suc (find_str (crlf @ crlf) (l' @ cr # lf # t))"
    by simp
  finally have "find_str (crlf @ crlf) (cr # lf # l' @ cr # lf # t) =
      map_option (\<lambda>x. Suc (Suc x)) (find_str (crlf @ crlf) (l' @ cr # lf # t))"
    by (simp only: option.map_comp comp_def)
  moreover have "(\<lambda>x. Suc (Suc x)) = (+) (2 :: nat)" by (simp add: fun_eq_iff)
  ultimately show ?thesis by (simp only:)
qed

lemma find_blank_line:
  assumes "\<forall>l \<in> set ls. lf \<notin> set l \<and> l \<noteq> []" "ls \<noteq> []"
  shows "find_str (crlf @ crlf) (join crlf ls @ crlf @ crlf @ t) = Some (length (join crlf ls))"
  using assms
proof (induction ls)
  case (Cons l ls)
  show ?case
  proof (cases ls)
    case Nil
    then show ?thesis using Cons.prems find_str_skip [of l "crlf @ t"] by simp
  next
    case (Cons l' ls')
    define r where "r = join crlf ls @ crlf @ crlf @ t"
    have l': "lf \<notin> set l'" "l' \<noteq> []" "lf \<notin> set l" using Cons.prems Cons by auto
    have r: "\<exists>u. r = l' @ cr # lf # u" unfolding r_def Cons by (cases ls') auto
    have "find_str (crlf @ crlf) r = Some (length (join crlf ls))"
      using Cons.IH Cons.prems Cons by (simp add: r_def)
    moreover obtain u where u: "r = l' @ cr # lf # u" using r by blast
    ultimately have "find_str (crlf @ crlf) (l @ cr # lf # r) = Some (length l + (2 + length (join crlf ls)))"
      using find_str_skip [OF l'(3), of r] find_str_line [OF l'(1,2), of u] by simp
    then show ?thesis by (simp add: Cons r_def)
  qed
qed simp

lemma join_snoc_nil: "ls \<noteq> [] \<Longrightarrow> join sep (ls @ [[]]) = join sep ls @ sep"
proof (induction ls)
  case (Cons l ls)
  then show ?case by (cases ls) auto
qed simp

lemma join_append_single: "ls \<noteq> [] \<Longrightarrow> join sep (ls @ [x]) = join sep ls @ sep @ x"
proof (induction ls)
  case (Cons l ls)
  then show ?case by (cases ls) auto
qed simp

lemma split_crlf_join:
  assumes "ls \<noteq> []" "\<forall>l \<in> set ls. lf \<notin> set l"
  shows "split_crlf (join crlf ls) = ls"
  using assms
proof (induction ls)
  case (Cons l ls)
  then show ?case
    using split_crlf_append [of l "join crlf ls"] by (cases ls) (auto simp: split_crlf_single)
qed simp

definition is_content_length :: "string \<Rightarrow> bool" where
  "is_content_length line = prefix ''content-length:'' (to_lower line)"

lemma render_join:
  "render first hs bd = join crlf (first # map header_line hs) @ crlf @ crlf @ bd"
proof -
  have "join crlf (first # map header_line hs) @ crlf = concat (map (\<lambda>l. l @ crlf) (first # map header_line hs))"
    using join_crlf_blocks [of "[[]]" "first # map header_line hs"] join_snoc_nil [of "first # map header_line hs"] by simp
  then show ?thesis by (simp add: render_blocks)
qed

text \<open>
  replacing the body of a message fixes its length header. In every message of header lines
  printed as the server prints them, all \<open>Content-Length\<close> headers, in any capitalisation, are removed
  and one with the length of the new body is put last; the first line and the other headers keep
  their order, and the new body follows the blank line.
\<close>

theorem rewrite_content_length_render:
  assumes "first \<noteq> []" "lf \<notin> set first" "\<not> is_content_length first"
    and "\<forall>h \<in> set hs. wf_header h"
  shows "rewrite_content_length (render first hs bd) new_body =
    render first (filter (\<lambda>h. \<not> is_content_length (header_line h)) hs @
      [(''Content-Length'', show_nat (length new_body))]) new_body"
proof -
  let ?ls = "first # map header_line hs"
  have ls: "\<forall>l \<in> set ?ls. lf \<notin> set l \<and> l \<noteq> []"
    using assms by (auto simp: wf_header_def header_line_def)
  have pos: "find_str (crlf @ crlf) (render first hs bd) = Some (length (join crlf ?ls))"
    unfolding render_join by (rule find_blank_line [OF ls]) simp
  have hdrs: "take (length (join crlf ?ls)) (render first hs bd) = join crlf ?ls"
    unfolding render_join by simp
  have split: "split_crlf (join crlf ?ls) = ?ls"
    using ls by (intro split_crlf_join) auto
  have kept: "filter (\<lambda>l. l \<noteq> []) (map (\<lambda>l. if prefix ''content-length:'' (to_lower l) then [] else l) ?ls) =
      first # map header_line (filter (\<lambda>h. \<not> is_content_length (header_line h)) hs)"
  proof -
    have "filter (\<lambda>l. l \<noteq> []) (map (\<lambda>l. if prefix ''content-length:'' (to_lower l) then [] else l) xs) =
        filter (\<lambda>l. \<not> is_content_length l) xs" if "\<forall>l \<in> set xs. l \<noteq> []" for xs
      using that by (induction xs) (auto simp: is_content_length_def)
    from this [of ?ls] show ?thesis using ls assms(3) by (simp add: filter_map comp_def)
  qed
  let ?k = "first # map header_line (filter (\<lambda>h. \<not> is_content_length (header_line h)) hs)"
  have last: "header_line (''Content-Length'', n) = ''Content-Length: '' @ n" for n
    by (simp add: header_line_def)
  have j: "join crlf (?k @ [''Content-Length: '' @ n]) = join crlf ?k @ crlf @ ''Content-Length: '' @ n" for n
    by (rule join_append_single) simp
  have "contains_str (crlf @ crlf) (render first hs bd)"
    using pos by (simp add: contains_str_def)
  then show ?thesis
    unfolding rewrite_content_length_def Let_def
    by (simp only: if_True pos option.case hdrs split kept)
      (simp only: render_join map_append list.map last append_Cons [symmetric] j append_assoc)
qed

theorem rewrite_content_length_render_witness:
  "rewrite_content_length (render ''INVITE sip:a@b SIP/2.0'' [(''content-length'', ''4''), (''To'', ''<sip:a@b>'')] ''v=0x'') ''v=0'' =
   render ''INVITE sip:a@b SIP/2.0'' [(''To'', ''<sip:a@b>''), (''Content-Length'', ''3'')] ''v=0''"
proof -
  have "rewrite_content_length (render ''INVITE sip:a@b SIP/2.0'' [(''content-length'', ''4''), (''To'', ''<sip:a@b>'')] ''v=0x'') ''v=0'' =
      render ''INVITE sip:a@b SIP/2.0'' (filter (\<lambda>h. \<not> is_content_length (header_line h))
        [(''content-length'', ''4''), (''To'', ''<sip:a@b>'')] @ [(''Content-Length'', show_nat (length ''v=0''))]) ''v=0''"
    by (rule rewrite_content_length_render) (code_simp+)
  moreover have "filter (\<lambda>h. \<not> is_content_length (header_line h))
        [(''content-length'', ''4''), (''To'', ''<sip:a@b>'')] @ [(''Content-Length'', show_nat (length ''v=0''))] =
      [(''To'', ''<sip:a@b>''), (''Content-Length'', ''3'')]"
    by code_simp
  ultimately show ?thesis by (simp only:)
qed

end
