(* ===== verification/Port_Alloc.thy ===== *)
theory Port_Alloc
  imports Rust_Num
begin

text \<open>
  The three allocators of RTP ports: pairs for the relay (\<open>bind_port_pair\<close> of \<open>media.rs\<close>), single ports
  for conferences (\<open>bind_socket\<close> of \<open>conference_media.rs\<close>) and for voicemail (\<open>bind_socket\<close> of
  \<open>voicemail_media.rs\<close>). Whether the operating system grants a port is the argument \<open>free\<close>. The
  rolling counters are 32-bit words that wrap.
\<close>

section \<open>The interface\<close>

locale port_allocator =
  fixes alloc :: "'c \<Rightarrow> ('p \<Rightarrow> bool) \<Rightarrow> 'p option"
    and domain :: "'p set"
    and fair :: "'c \<Rightarrow> bool"
  assumes alloc_sound: "alloc c free = Some p \<Longrightarrow> p \<in> domain \<and> free p"
    and alloc_complete: "fair c \<Longrightarrow> p \<in> domain \<Longrightarrow> free p \<Longrightarrow> alloc c free \<noteq> None"
begin

lemma alloc_None_iff: "fair c \<Longrightarrow> alloc c free = None \<longleftrightarrow> (\<forall>p \<in> domain. \<not> free p)"
  using alloc_sound alloc_complete by (metis not_None_eq)

lemma alloc_fresh:
  "alloc c (\<lambda>p. p \<notin> set held \<and> os p) = Some p \<Longrightarrow> distinct held \<Longrightarrow> distinct (p # held)"
  using alloc_sound by fastforce

lemma alloc_exhausts:
  assumes "fair c" "finite domain" "set held \<subseteq> domain" "length held < card domain" "distinct held"
  shows "alloc c (\<lambda>p. p \<notin> set held) \<noteq> None"
proof -
  have "set held \<noteq> domain" using assms by (metis distinct_card nat_neq_iff)
  then obtain p where "p \<in> domain" "p \<notin> set held" using assms(3) by blast
  then show ?thesis by (rule alloc_complete [OF assms(1)])
qed

end

section \<open>Definitions\<close>

definition port_range :: "u16 \<Rightarrow> u16 \<Rightarrow> u32" where
  "port_range port_min port_max = (if port_min \<le> port_max then ucast (port_max - port_min) else 0)"

text \<open>One attempt per unit of the first argument; the counter advances with each.\<close>

fun pair_loop :: "nat \<Rightarrow> u16 \<Rightarrow> u32 \<Rightarrow> u32 \<Rightarrow> (u16 \<Rightarrow> bool) \<Rightarrow> (u16 \<times> u16) option \<times> u32" where
  "pair_loop 0 port_min rng counter free = (None, counter)"
| "pair_loop (Suc k) port_min rng counter free =
     (let offset = counter mod rng;
          base = port_min + (ucast offset AND NOT 1)
      in if free base \<and> free (base + 1) then (Some (base, base + 1), counter + 2)
         else pair_loop k port_min rng (counter + 2) free)"

definition bind_port_pair ::
  "u16 \<Rightarrow> u16 \<Rightarrow> u32 \<Rightarrow> (u16 \<Rightarrow> bool) \<Rightarrow> (string, u16 \<times> u16) outcome \<times> u32" where
  "bind_port_pair port_min port_max counter free =
     (let rng = port_range port_min port_max in
      if rng < 2 then (Err ''RTP port range too small'', counter)
      else (case pair_loop (unat (rng div 2)) port_min rng counter free of
              (Some ps, c) \<Rightarrow> (Ok ps, c)
            | (None, c) \<Rightarrow>
                (Err (''No available RTP port pair in range '' @ show_uint port_min @ ''-'' @ show_uint port_max), c)))"

fun conf_loop :: "nat \<Rightarrow> u16 \<Rightarrow> u32 \<Rightarrow> u32 \<Rightarrow> (u16 \<Rightarrow> bool) \<Rightarrow> u16 option \<times> u32" where
  "conf_loop 0 port_min rng counter free = (None, counter)"
| "conf_loop (Suc k) port_min rng counter free =
     (let offset = counter mod rng;
          port = port_min + ucast offset
      in if free port then (Some port, counter + 1) else conf_loop k port_min rng (counter + 1) free)"

definition conf_bind_socket ::
  "u16 \<Rightarrow> u16 \<Rightarrow> u32 \<Rightarrow> (u16 \<Rightarrow> bool) \<Rightarrow> (string, u16) outcome \<times> u32" where
  "conf_bind_socket port_min port_max counter free =
     (let rng = port_range port_min port_max in
      if rng = 0 then (Err ''conference RTP port range is empty'', counter)
      else (case conf_loop (unat rng) port_min rng counter free of
              (Some p, c) \<Rightarrow> (Ok p, c)
            | (None, c) \<Rightarrow>
                (Err (''no available conference RTP port in range '' @ show_uint port_min @ ''-'' @ show_uint port_max), c)))"

text \<open>Here the counter advances once per allocation and the attempts count from it.\<close>

fun vm_loop :: "nat \<Rightarrow> u32 \<Rightarrow> u16 \<Rightarrow> u32 \<Rightarrow> u32 \<Rightarrow> (u16 \<Rightarrow> bool) \<Rightarrow> u16 option" where
  "vm_loop 0 attempt min_port rng start free = None"
| "vm_loop (Suc k) attempt min_port rng start free =
     (let offset = (start + attempt) mod rng;
          port = ucast (ucast min_port + offset :: u32) :: u16
      in if free port then Some port else vm_loop k (attempt + 1) min_port rng start free)"

definition vm_bind_socket ::
  "u16 \<Rightarrow> u16 \<Rightarrow> u32 \<Rightarrow> (u16 \<Rightarrow> bool) \<Rightarrow> (string, u16) outcome \<times> u32" where
  "vm_bind_socket min_port max_port counter free =
     (if min_port = 0 then (Err ''voicemail RTP port range cannot start at 0'', counter)
      else if max_port < min_port
      then (Err (''voicemail RTP port range is invalid: '' @ show_uint min_port @ ''-'' @ show_uint max_port), counter)
      else (let rng = ucast max_port - ucast min_port + 1;
                start = counter mod rng
            in case vm_loop (unat rng) 0 min_port rng start free of
                 Some p \<Rightarrow> (Ok p, counter + 1)
               | None \<Rightarrow>
                   (Err (''no available voicemail RTP port in range '' @ show_uint min_port @ ''-'' @ show_uint max_port),
                    counter + 1)))"

section \<open>Candidates\<close>

lemma pair_loop_find:
  "fst (pair_loop k pm r c free) =
    find (\<lambda>p. free (fst p) \<and> free (snd p))
      (map (\<lambda>i. let b = pm + (ucast ((c + 2 * of_nat i) mod r) AND NOT 1) in (b, b + 1)) [0..<k])"
proof (induction k arbitrary: c)
  case (Suc k)
  have "map f [0..<Suc k] = f 0 # map (\<lambda>i. f (Suc i)) [0..<k]" for f :: "nat \<Rightarrow> u16 \<times> u16"
    by (subst upt_conv_Cons) (simp_all add: map_Suc_upt [symmetric] del: map_Suc_upt upt_Suc)
  with Suc [of "c + 2"] show ?case by (simp add: Let_def algebra_simps del: upt_Suc)
qed simp

lemma conf_loop_find:
  "fst (conf_loop k pm r c free) = find free (map (\<lambda>i. pm + ucast ((c + of_nat i) mod r)) [0..<k])"
proof (induction k arbitrary: c)
  case (Suc k)
  have "map f [0..<Suc k] = f 0 # map (\<lambda>i. f (Suc i)) [0..<k]" for f :: "nat \<Rightarrow> u16"
    by (subst upt_conv_Cons) (simp_all add: map_Suc_upt [symmetric] del: map_Suc_upt upt_Suc)
  with Suc [of "c + 1"] show ?case by (simp add: Let_def algebra_simps del: upt_Suc)
qed simp

lemma vm_loop_find:
  "vm_loop k a mp r s free =
    find free (map (\<lambda>i. ucast (ucast mp + (s + (a + of_nat i)) mod r :: u32) :: u16) [0..<k])"
proof (induction k arbitrary: a)
  case (Suc k)
  have "map f [0..<Suc k] = f 0 # map (\<lambda>i. f (Suc i)) [0..<k]" for f :: "nat \<Rightarrow> u16"
    by (subst upt_conv_Cons) (simp_all add: map_Suc_upt [symmetric] del: map_Suc_upt upt_Suc)
  with Suc [of "a + 1"] show ?case by (simp add: Let_def algebra_simps del: upt_Suc)
qed simp

section \<open>Ports as numbers\<close>

lemma residue_hit:
  fixes c R r :: nat
  assumes "r < R"
  shows "\<exists>i < R. (c + i) mod R = r"
proof (intro exI conjI)
  let ?i = "(r + (R - c mod R)) mod R"
  show "?i < R" using assms by simp
  have "c mod R < R" using assms by simp
  then have "(c mod R + (r + (R - c mod R))) mod R = (r + R) mod R" by simp
  then have "(c + (r + (R - c mod R))) mod R = r" using assms by (simp add: mod_add_left_eq)
  then show "(c + ?i) mod R = r" by (simp add: mod_add_right_eq)
qed

lemma counter_plus:
  fixes c :: u32
  assumes "unat c + i < 2 ^ 32"
  shows "unat (c + of_nat i) = unat c + i"
proof -
  have i: "unat (of_nat i :: u32) = i" using assms by (simp add: unat_of_nat take_bit_nat_eq_self)
  show ?thesis using assms i by (subst unat_add_lem [THEN iffD1]) simp_all
qed

lemma unat16: "unat (p :: u16) < 65536"
  using unsigned_less [of p, where 'a = nat] by simp

lemma port_range_value: "unat (port_range mn mx) = (if mn \<le> mx then unat mx - unat mn else 0)"
proof (cases "mn \<le> mx")
  case True
  then have "unat (mx - mn) = unat mx - unat mn" by (simp add: unat_sub word_le_nat_alt)
  then show ?thesis using True unat16 [of mx] by (simp add: port_range_def unsigned_ucast_eq take_bit_nat_eq_self)
qed (simp add: port_range_def)

lemma port_plus:
  assumes "unat (o32 :: u32) < 65536" "unat mn + unat o32 < 65536"
  shows "unat (mn + ucast o32 :: u16) = unat mn + unat o32"
proof -
  have "unat (ucast o32 :: u16) = unat o32"
    using assms(1) by (simp add: unsigned_ucast_eq take_bit_nat_eq_self)
  then show ?thesis using assms(2) by (subst unat_add_lem [THEN iffD1]) simp_all
qed

lemma clear_low_bit: "unat (w AND NOT 1 :: u16) = 2 * (unat w div 2)"
proof -
  have "w AND NOT 1 = push_bit 1 (drop_bit 1 w)"
    by (rule bit_word_eqI)
      (auto simp only: bit_push_bit_iff bit_and_iff bit_not_iff bit_drop_bit_eq comp_def bit_1_iff, auto)
  moreover have "unat (push_bit 1 (drop_bit 1 w) :: u16) = 2 * (unat w div 2)"
    using unat16 [of w]
    by (simp only: unsigned_push_bit_eq unat_drop_bit_eq) (simp add: take_bit_nat_eq_self drop_bit_eq_div push_bit_eq_mult)
  ultimately show ?thesis by simp
qed

section \<open>The conference and voicemail ports\<close>

definition conf_alloc :: "u16 \<Rightarrow> u16 \<Rightarrow> u32 \<Rightarrow> (u16 \<Rightarrow> bool) \<Rightarrow> u16 option" where
  "conf_alloc mn mx c free = (case fst (conf_bind_socket mn mx c free) of Ok p \<Rightarrow> Some p | _ \<Rightarrow> None)"

definition no_wrap :: "u16 \<Rightarrow> u16 \<Rightarrow> u32 \<Rightarrow> bool" where
  "no_wrap mn mx c = (unat c + unat (port_range mn mx) \<le> 2 ^ 32)"

lemma conf_alloc_find:
  "conf_alloc mn mx c free =
    find free (map (\<lambda>i. mn + ucast ((c + of_nat i) mod port_range mn mx)) [0..<unat (port_range mn mx)])"
  by (auto simp: conf_alloc_def conf_bind_socket_def Let_def conf_loop_find [symmetric] split: prod.splits option.splits)

lemma conf_candidate:
  assumes "0 < unat (port_range mn mx)"
  shows "unat (mn + ucast (x mod port_range mn mx) :: u16) = unat mn + unat x mod (unat mx - unat mn)" "mn \<le> mx"
proof -
  show le: "mn \<le> mx" using assms by (auto simp: port_range_value split: if_splits)
  have r: "unat (port_range mn mx) = unat mx - unat mn" "unat mn < unat mx"
    using assms le by (auto simp: port_range_value)
  have "unat (x mod port_range mn mx) = unat x mod (unat mx - unat mn)" by (simp add: unat_mod_distrib r)
  moreover have "unat x mod (unat mx - unat mn) < unat mx - unat mn" using r by simp
  ultimately show "unat (mn + ucast (x mod port_range mn mx) :: u16) = unat mn + unat x mod (unat mx - unat mn)"
    using port_plus [of "x mod port_range mn mx" mn] unat16 [of mx] by simp
qed

interpretation conf_ports: port_allocator "conf_alloc mn mx" "{p. mn \<le> p \<and> p < mx}" "no_wrap mn mx" for mn mx
proof
  fix c free p
  let ?R = "unat (port_range mn mx)"
  assume "conf_alloc mn mx c free = Some p"
  then obtain i where i: "i < ?R" "p = mn + ucast ((c + of_nat i) mod port_range mn mx)" "free p"
    by (auto simp: conf_alloc_find find_Some_iff)
  then have pos: "0 < ?R" by simp
  note v = conf_candidate [OF pos]
  have R: "?R = unat mx - unat mn" using v(2) by (simp add: port_range_value)
  have "unat (c + of_nat i) mod (unat mx - unat mn) < unat mx - unat mn" using pos R by simp
  then have "unat mn \<le> unat p" "unat p < unat mx" using v(1) [of "c + of_nat i"] i(2) by simp_all
  then show "p \<in> {p. mn \<le> p \<and> p < mx} \<and> free p" using i(3) by (simp add: word_le_nat_alt word_less_nat_alt)
next
  fix c p free
  let ?R = "unat (port_range mn mx)"
  assume nw: "no_wrap mn mx c" and p: "p \<in> {p. mn \<le> p \<and> p < mx}" and "free p"
  have le: "unat mn \<le> unat p" "unat p < unat mx" using p by (simp_all add: word_le_nat_alt word_less_nat_alt)
  then have R: "?R = unat mx - unat mn" "0 < ?R" by (simp_all add: port_range_value word_le_nat_alt)
  have lt: "unat p - unat mn < ?R" using le R(1) by linarith
  obtain i where i: "i < ?R" "(unat c + i) mod ?R = unat p - unat mn"
    using residue_hit [OF lt, of "unat c"] by blast
  have "unat (c + of_nat i) = unat c + i" using nw i(1) by (intro counter_plus) (simp add: no_wrap_def)
  then have "unat (mn + ucast ((c + of_nat i) mod port_range mn mx) :: u16) = unat p"
    using conf_candidate(1) [OF R(2), of "c + of_nat i"] i(2) R(1) le by simp
  then have "p = mn + ucast ((c + of_nat i) mod port_range mn mx)" by (simp only: word_unat_eq_iff)
  then show "conf_alloc mn mx c free \<noteq> None"
    using i(1) \<open>free p\<close> by (auto simp: conf_alloc_find find_None_iff)
qed

definition vm_alloc :: "u16 \<Rightarrow> u16 \<Rightarrow> u32 \<Rightarrow> (u16 \<Rightarrow> bool) \<Rightarrow> u16 option" where
  "vm_alloc mn mx c free = (case fst (vm_bind_socket mn mx c free) of Ok p \<Rightarrow> Some p | _ \<Rightarrow> None)"

definition vm_range :: "u16 \<Rightarrow> u16 \<Rightarrow> u32" where
  "vm_range mn mx = ucast mx - ucast mn + 1"

lemma vm_range_value: "mn \<le> mx \<Longrightarrow> unat (vm_range mn mx) = unat mx - unat mn + 1"
proof -
  assume "mn \<le> mx"
  have u: "unat (ucast x :: u32) = unat x" for x :: u16
    using unat16 [of x] by (simp add: unsigned_ucast_eq take_bit_nat_eq_self)
  have "unat (ucast mx - ucast mn :: u32) = unat mx - unat mn"
    using \<open>mn \<le> mx\<close> u by (subst unat_sub) (simp_all add: word_le_nat_alt)
  then show ?thesis unfolding vm_range_def using unat16 [of mx] by (subst unat_add_lem [THEN iffD1]) simp_all
qed

lemma vm_alloc_find:
  "vm_alloc mn mx c free = (if mn = 0 \<or> mx < mn then None else
    find free (map (\<lambda>i. ucast (ucast mn + (c mod vm_range mn mx + of_nat i) mod vm_range mn mx :: u32) :: u16)
      [0..<unat (vm_range mn mx)]))"
  by (auto simp: vm_alloc_def vm_bind_socket_def Let_def vm_loop_find vm_range_def [symmetric] split: option.splits)

lemma vm_candidate:
  assumes "mn \<le> mx" "i < unat (vm_range mn mx)"
  shows "unat (ucast (ucast mn + (c mod vm_range mn mx + of_nat i) mod vm_range mn mx :: u32) :: u16) =
    unat mn + (unat c mod unat (vm_range mn mx) + i) mod unat (vm_range mn mx)"
proof -
  let ?r = "vm_range mn mx" let ?R = "unat ?r"
  have R: "?R = unat mx - unat mn + 1" by (rule vm_range_value [OF assms(1)])
  have small: "?R \<le> 65536" using R unat16 [of mx] by linarith
  have c: "unat (c mod ?r) = unat c mod ?R" "unat c mod ?R < ?R" using R by (simp_all add: unat_mod_distrib)
  have "unat (c mod ?r + of_nat i) = unat c mod ?R + i"
    using counter_plus [of "c mod ?r" i] c assms(2) small by simp
  then have o: "unat ((c mod ?r + of_nat i) mod ?r) = (unat c mod ?R + i) mod ?R" by (simp add: unat_mod_distrib)
  have lt: "(unat c mod ?R + i) mod ?R < ?R" using R by simp
  have m: "unat (ucast mn :: u32) = unat mn"
    using unat16 [of mn] by (simp add: unsigned_ucast_eq take_bit_nat_eq_self)
  have "unat (ucast mn + (c mod ?r + of_nat i) mod ?r :: u32) = unat mn + (unat c mod ?R + i) mod ?R"
    using m o lt small unat16 [of mn] by (subst unat_add_lem [THEN iffD1]) simp_all
  moreover have "unat mn + (unat c mod ?R + i) mod ?R < 65536"
    using lt R assms(1) unat16 [of mx] unfolding word_le_nat_alt by linarith
  ultimately show ?thesis by (simp add: unsigned_ucast_eq take_bit_nat_eq_self)
qed

interpretation vm_ports: port_allocator "vm_alloc mn mx" "{p. 0 < mn \<and> mn \<le> p \<and> p \<le> mx}" "\<lambda>c. True" for mn mx
proof
  fix c free p
  let ?R = "unat (vm_range mn mx)"
  assume a: "vm_alloc mn mx c free = Some p"
  then have mn: "mn \<noteq> 0" "mn \<le> mx" "\<not> mx < mn" by (auto simp: vm_alloc_find split: if_splits)
  from a mn obtain i where i: "i < ?R" "free p"
    "p = ucast (ucast mn + (c mod vm_range mn mx + of_nat i) mod vm_range mn mx :: u32)"
    by (auto simp: vm_alloc_find find_Some_iff)
  have "unat p = unat mn + (unat c mod ?R + i) mod ?R" using vm_candidate [OF mn(2) i(1)] i(3) by simp
  moreover have "(unat c mod ?R + i) mod ?R < ?R" using i(1) by simp
  ultimately have "unat mn \<le> unat p" "unat p \<le> unat mx"
    using vm_range_value [OF mn(2)] mn(2) unfolding word_le_nat_alt by linarith+
  then show "p \<in> {p. 0 < mn \<and> mn \<le> p \<and> p \<le> mx} \<and> free p"
    using i(2) mn(1) by (simp add: word_le_nat_alt word_neq_0_conv)
next
  fix c :: u32 and p free
  let ?R = "unat (vm_range mn mx)"
  assume p: "p \<in> {p. 0 < mn \<and> mn \<le> p \<and> p \<le> mx}" and "free p"
  have mn: "mn \<noteq> 0" "mn \<le> mx" "\<not> mx < mn" using p by auto
  have le: "unat mn \<le> unat p" "unat p \<le> unat mx" using p by (simp_all add: word_le_nat_alt)
  have lt: "unat p - unat mn < ?R" using le vm_range_value [OF mn(2)] by linarith
  obtain i where i: "i < ?R" "(unat c mod ?R + i) mod ?R = unat p - unat mn"
    using residue_hit [OF lt, of "unat c mod ?R"] by blast
  have "unat (ucast (ucast mn + (c mod vm_range mn mx + of_nat i) mod vm_range mn mx :: u32) :: u16) = unat p"
    using vm_candidate [OF mn(2) i(1), of c] i(2) le by simp
  then have "p = ucast (ucast mn + (c mod vm_range mn mx + of_nat i) mod vm_range mn mx :: u32)"
    by (simp only: word_unat_eq_iff)
  then show "vm_alloc mn mx c free \<noteq> None"
    using i(1) \<open>free p\<close> mn by (auto simp: vm_alloc_find find_None_iff)
qed

section \<open>The relay pairs\<close>

definition pair_alloc :: "u16 \<Rightarrow> u16 \<Rightarrow> u32 \<Rightarrow> (u16 \<times> u16 \<Rightarrow> bool) \<Rightarrow> (u16 \<times> u16) option" where
  "pair_alloc mn mx c free =
     find free (map (\<lambda>i. let b = mn + (ucast ((c + 2 * of_nat i) mod port_range mn mx) AND NOT 1) in (b, b + 1))
       [0..<unat (port_range mn mx div 2)])"

lemma bind_port_pair_alloc:
  "(case fst (bind_port_pair mn mx c free) of Ok p \<Rightarrow> Some p | _ \<Rightarrow> None) =
    pair_alloc mn mx c (\<lambda>p. free (fst p) \<and> free (snd p))"
proof (cases "port_range mn mx < 2")
  case True
  then have "unat (port_range mn mx) < 2" by (simp add: word_less_nat_alt)
  then have "unat (port_range mn mx div 2) = 0" by (simp add: unat_div_distrib)
  then show ?thesis using True by (simp add: bind_port_pair_def pair_alloc_def Let_def)
next
  case False
  then show ?thesis
    using pair_loop_find [of "unat (port_range mn mx div 2)" mn "port_range mn mx" c free]
    by (auto simp: bind_port_pair_def pair_alloc_def Let_def split: prod.splits option.splits)
qed

text \<open>The pairs of the range: an even distance from its start, the second port at most its end.\<close>

definition pair_domain :: "u16 \<Rightarrow> u16 \<Rightarrow> (u16 \<times> u16) set" where
  "pair_domain mn mx = {(b, b') |b b'. \<exists>j. unat b = unat mn + 2 * j \<and> unat b' = unat b + 1 \<and> unat b < unat mx}"

lemma pair_candidate:
  assumes "0 < unat (port_range mn mx)"
  shows "unat (mn + (ucast (x mod port_range mn mx) AND NOT 1) :: u16) =
      unat mn + 2 * (unat x mod (unat mx - unat mn) div 2)"
    "unat (mn + (ucast (x mod port_range mn mx) AND NOT 1) + 1 :: u16) =
      unat mn + 2 * (unat x mod (unat mx - unat mn) div 2) + 1"
    "unat mn + 2 * (unat x mod (unat mx - unat mn) div 2) < unat mx"
proof -
  let ?o = "unat x mod (unat mx - unat mn)"
  have r: "unat (port_range mn mx) = unat mx - unat mn" "unat mn < unat mx"
    using assms by (auto simp: port_range_value word_le_nat_alt split: if_splits)
  have o: "unat (x mod port_range mn mx) = ?o" "?o < unat mx - unat mn" using r by (simp_all add: unat_mod_distrib)
  have "unat (ucast (x mod port_range mn mx) :: u16) = ?o"
    using o unat16 [of mx] by (simp add: unsigned_ucast_eq take_bit_nat_eq_self)
  then have m: "unat (ucast (x mod port_range mn mx) AND NOT 1 :: u16) = 2 * (?o div 2)"
    by (simp only: clear_low_bit)
  show lt: "unat mn + 2 * (?o div 2) < unat mx" using o(2) r(2) by linarith
  show b: "unat (mn + (ucast (x mod port_range mn mx) AND NOT 1) :: u16) = unat mn + 2 * (?o div 2)"
    using m lt unat16 [of mx] by (subst unat_add_lem [THEN iffD1]) simp_all
  show "unat (mn + (ucast (x mod port_range mn mx) AND NOT 1) + 1 :: u16) = unat mn + 2 * (?o div 2) + 1"
    using b lt unat16 [of mx] by (subst unat_add_lem [THEN iffD1]) simp_all
qed

definition pair_fair :: "u16 \<Rightarrow> u16 \<Rightarrow> u32 \<Rightarrow> bool" where
  "pair_fair mn mx c = (no_wrap mn mx c \<and> even (unat c) \<and> even (unat (port_range mn mx)))"

interpretation pair_ports: port_allocator "pair_alloc mn mx" "pair_domain mn mx" "pair_fair mn mx" for mn mx
proof
  fix c free p
  assume "pair_alloc mn mx c free = Some p"
  then obtain i where i: "i < unat (port_range mn mx div 2)" "free p"
    "p = (let b = mn + (ucast ((c + 2 * of_nat i) mod port_range mn mx) AND NOT 1) in (b, b + 1))"
    by (auto simp: pair_alloc_def find_Some_iff)
  have pos: "0 < unat (port_range mn mx)" using i(1) by (simp add: unat_div_distrib)
  show "p \<in> pair_domain mn mx \<and> free p"
    using pair_candidate [OF pos, of "c + 2 * of_nat i"] i(2,3) by (auto simp: pair_domain_def Let_def)
next
  fix c p free
  let ?R = "unat (port_range mn mx)"
  assume fair: "pair_fair mn mx c" and p: "p \<in> pair_domain mn mx" and "free p"
  obtain j b b' where j: "p = (b, b')" "unat b = unat mn + 2 * j" "unat b' = unat b + 1" "unat b < unat mx"
    using p by (auto simp: pair_domain_def)
  have R: "?R = unat mx - unat mn" using j by (simp add: port_range_value word_le_nat_alt)
  obtain r where r: "?R = 2 * r" using fair by (auto simp: pair_fair_def)
  obtain h where h: "unat c = 2 * h" using fair by (auto simp: pair_fair_def)
  have jr: "j < r" using j R r by linarith
  obtain i where i: "i < r" "(h + i) mod r = j" using residue_hit [OF jr, of h] by blast
  have "unat (c + of_nat (2 * i)) = unat c + 2 * i"
    using fair i(1) r by (intro counter_plus) (simp add: pair_fair_def no_wrap_def)
  moreover have "(2 * h + 2 * i) mod (2 * r) = 2 * j"
    by (simp only: distrib_left [symmetric] mult_mod_right [symmetric] i(2))
  ultimately have m: "unat (c + 2 * of_nat i) mod (unat mx - unat mn) = 2 * j"
    unfolding R [symmetric] r h by (simp only: of_nat_mult of_nat_numeral)
  have pos: "0 < ?R" using r jr by simp
  have "b = mn + (ucast ((c + 2 * of_nat i) mod port_range mn mx) AND NOT 1)"
    "b' = mn + (ucast ((c + 2 * of_nat i) mod port_range mn mx) AND NOT 1) + 1"
    unfolding word_unat_eq_iff pair_candidate(1,2) [OF pos] m using j(2,3) by simp_all
  then have "p = (let b = mn + (ucast ((c + 2 * of_nat i) mod port_range mn mx) AND NOT 1) in (b, b + 1))"
    using j(1) by (simp add: Let_def)
  moreover have "i < unat (port_range mn mx div 2)" using i(1) r by (simp add: unat_div_distrib)
  ultimately show "pair_alloc mn mx c free \<noteq> None"
    using \<open>free p\<close> by (auto simp: pair_alloc_def find_None_iff)
qed

section \<open>Properties\<close>

text \<open>
  the ports the relay binds are free, adjacent and inside the configured range, the first at an
  even distance from its start; and when the range has an even size and the rolling counter is even and
  does not wrap during the search, binding fails only if every such pair is taken.
\<close>

theorem port_pair_sound_complete:
  assumes "even (unat c)" "even (unat (port_range mn mx))" "unat c + unat (port_range mn mx) \<le> 2 ^ 32"
  shows "(fst (bind_port_pair mn mx c free) = Ok (a, b) \<longrightarrow>
       free a \<and> free b \<and> unat b = unat a + 1 \<and> mn \<le> a \<and> b \<le> mx \<and> even (unat a - unat mn)) \<and>
    ((\<exists>e. fst (bind_port_pair mn mx c free) = Err e) \<longleftrightarrow>
       (\<forall>(x, y) \<in> pair_domain mn mx. \<not> (free x \<and> free y)))"
proof -
  let ?f = "\<lambda>p. free (fst p) \<and> free (snd p)"
  have fair: "pair_fair mn mx c" using assms by (simp add: pair_fair_def no_wrap_def)
  have "(\<exists>e. fst (bind_port_pair mn mx c free) = Err e) \<longleftrightarrow> pair_alloc mn mx c ?f = None"
    unfolding bind_port_pair_alloc [symmetric]
    by (auto simp: bind_port_pair_def Let_def split: prod.splits option.splits)
  moreover have "free a \<and> free b \<and> unat b = unat a + 1 \<and> mn \<le> a \<and> b \<le> mx \<and> even (unat a - unat mn)"
    if "fst (bind_port_pair mn mx c free) = Ok (a, b)"
  proof -
    have "pair_alloc mn mx c ?f = Some (a, b)" using that by (simp add: bind_port_pair_alloc [symmetric])
    then show ?thesis using pair_ports.alloc_sound by (fastforce simp: pair_domain_def word_le_nat_alt)
  qed
  ultimately show ?thesis using pair_ports.alloc_None_iff [OF fair, of ?f] by (auto simp: split_beta)
qed

theorem port_pair_sound_complete_witness:
  "even (unat (2 :: u32)) \<and> even (unat (port_range 10000 10004)) \<and>
    fst (bind_port_pair 10000 10004 2 (\<lambda>p. p \<noteq> 10003)) = Ok (10000, 10001) \<and>
    even (unat (10000 :: u16) - unat (10000 :: u16)) \<and>
    \<not> (\<exists>e. fst (bind_port_pair 10000 10004 2 (\<lambda>p. p \<noteq> 10003)) = Err e)"
proof -
  have r: "port_range 10000 10004 = 4" by (simp add: port_range_def)
  have b: "fst (bind_port_pair 10000 10004 2 (\<lambda>p. p \<noteq> 10003)) = Ok (10000, 10001)"
  proof -
    have n: "unat ((4 :: u32) div 2) = Suc (Suc 0)" by simp
    show ?thesis unfolding bind_port_pair_def r Let_def n by simp
  qed
  show ?thesis
    using port_pair_sound_complete [of 2 10000 10004 "\<lambda>p. p \<noteq> 10003" 10000 10001] b by (simp add: r)
qed

text \<open>
  the voicemail allocator returns a port exactly when the range does not start at 0 and holds a free
  port, whatever the rolling counter is, and the port is a free one of the range.
\<close>

theorem vm_port_iff:
  "(\<exists>p. fst (vm_bind_socket mn mx c free) = Ok p \<and> mn \<le> p \<and> p \<le> mx \<and> free p) \<longleftrightarrow>
    0 < mn \<and> (\<exists>p. mn \<le> p \<and> p \<le> mx \<and> free p)"
proof -
  have "fst (vm_bind_socket mn mx c free) = Ok p \<longleftrightarrow> vm_alloc mn mx c free = Some p" for p
    by (auto simp: vm_alloc_def split: outcome.splits)
  moreover have "vm_alloc mn mx c free = None \<longleftrightarrow> (\<forall>p \<in> {p. 0 < mn \<and> mn \<le> p \<and> p \<le> mx}. \<not> free p)"
    by (rule vm_ports.alloc_None_iff) simp
  moreover note vm_ports.alloc_sound [of mn mx c free]
  ultimately show ?thesis by (cases "vm_alloc mn mx c free") auto
qed

end
