(* ===== verification/Media_Relay.thy ===== *)
theory Media_Relay
  imports Media_Sdp Port_Alloc
begin

text \<open>
  The RTP relay of \<open>media.rs\<close>: one pair of sockets and two forwarding tasks per active media section of
  a call. A session only holds handles: dropping a handle does not stop its task, so the tasks and the
  address cells they share live in a store of their own, \<open>mr_cells\<close>, under the identity \<open>st_id\<close> of the
  stream. A port is bound as long as one of the two tasks that hold its socket runs.
\<close>

section \<open>Definitions\<close>

record relay_ports =
  rp_kind :: sdp_media_kind
  rp_media_index :: nat
  rp_port_a :: u16
  rp_port_b :: u16

record relay_cell =
  rc_port_a :: u16
  rc_port_b :: u16
  rc_callee_rtp :: "socket_addr option"
  rc_caller_rtp :: "socket_addr option"
  rc_task_a :: bool
  rc_task_b :: bool

record media_stream =
  st_kind :: sdp_media_kind
  st_media_index :: nat
  st_port_a :: u16
  st_port_b :: u16
  st_id :: nat

record media_session =
  ms_streams :: "media_stream list"
  ms_created_at :: nat

record media_relay =
  mr_sessions :: "(string, media_session) hmap"
  mr_public_ip :: string
  mr_port_min :: u16
  mr_port_max :: u16
  mr_port_counter :: u32
  mr_cells :: "(nat, relay_cell) hmap"
  mr_next :: nat

definition media_relay_new :: "string \<Rightarrow> u16 \<Rightarrow> u16 \<Rightarrow> media_relay" where
  "media_relay_new public_ip port_min port_max =
     \<lparr>mr_sessions = [], mr_public_ip = public_ip, mr_port_min = port_min, mr_port_max = port_max,
      mr_port_counter = 0, mr_cells = [], mr_next = 0\<rparr>"

text \<open>The ports of the sockets some running task holds.\<close>

definition cell_live :: "relay_cell \<Rightarrow> bool" where
  "cell_live c = (rc_task_a c \<or> rc_task_b c)"

definition cell_ports :: "relay_cell \<Rightarrow> u16 list" where
  "cell_ports c = (if cell_live c then [rc_port_a c, rc_port_b c] else [])"

definition bound_ports :: "media_relay \<Rightarrow> u16 list" where
  "bound_ports r = concat (map (\<lambda>(i, c). cell_ports c) (mr_cells r))"

definition cell_update :: "nat \<Rightarrow> (relay_cell \<Rightarrow> relay_cell) \<Rightarrow> media_relay \<Rightarrow> media_relay" where
  "cell_update i f r = r\<lparr>mr_cells := map (\<lambda>(j, c). (j, if j = i then f c else c)) (mr_cells r)\<rparr>"

definition stream_abort :: "media_stream \<Rightarrow> media_relay \<Rightarrow> media_relay" where
  "stream_abort s = cell_update (st_id s) (\<lambda>c. c\<lparr>rc_task_a := False, rc_task_b := False\<rparr>)"

definition stream_ports :: "media_stream \<Rightarrow> relay_ports" where
  "stream_ports s = \<lparr>rp_kind = st_kind s, rp_media_index = st_media_index s, rp_port_a = st_port_a s, rp_port_b = st_port_b s\<rparr>"

definition session_abort :: "media_session \<Rightarrow> media_relay \<Rightarrow> media_relay" where
  "session_abort s = fold stream_abort (ms_streams s)"

definition first_ports :: "media_session \<Rightarrow> relay_ports option" where
  "first_ports s = (case ms_streams s of [] \<Rightarrow> None | st # _ \<Rightarrow> Some (stream_ports st))"

definition callee_sdp_ports :: "media_session \<Rightarrow> (nat \<times> u16) list" where
  "callee_sdp_ports s = map (\<lambda>st. (st_media_index st, st_port_a st)) (ms_streams s)"

definition caller_sdp_ports :: "media_session \<Rightarrow> (nat \<times> u16) list" where
  "caller_sdp_ports s = map (\<lambda>st. (st_media_index st, st_port_b st)) (ms_streams s)"

text \<open>\<open>os p\<close>: the operating system grants the port, no other process having it.\<close>

definition allocate_stream ::
  "(u16 \<Rightarrow> bool) \<Rightarrow> sdp_media_descriptor \<Rightarrow> media_relay \<Rightarrow> (string, media_stream) outcome \<times> media_relay" where
  "allocate_stream os d r =
     (case bind_port_pair (mr_port_min r) (mr_port_max r) (mr_port_counter r) (\<lambda>p. os p \<and> p \<notin> set (bound_ports r)) of
        (Ok (a, b), n) \<Rightarrow>
          (Ok \<lparr>st_kind = md_kind d, st_media_index = md_media_index d, st_port_a = a, st_port_b = b, st_id = mr_next r\<rparr>,
           r\<lparr>mr_port_counter := n, mr_next := Suc (mr_next r),
             mr_cells := hm_put (mr_next r) \<lparr>rc_port_a = a, rc_port_b = b, rc_callee_rtp = None,
               rc_caller_rtp = None, rc_task_a = True, rc_task_b = True\<rparr> (mr_cells r)\<rparr>)
      | (Err e, n) \<Rightarrow> (Err e, r\<lparr>mr_port_counter := n\<rparr>)
      | (Panic, n) \<Rightarrow> (Panic, r\<lparr>mr_port_counter := n\<rparr>))"

fun allocate_streams ::
  "(u16 \<Rightarrow> bool) \<Rightarrow> sdp_media_descriptor list \<Rightarrow> media_stream list \<Rightarrow> media_relay
    \<Rightarrow> (string, media_stream list) outcome \<times> media_relay" where
  "allocate_streams os [] streams r = (Ok streams, r)"
| "allocate_streams os (d # ds) streams r =
     (case allocate_stream os d r of
        (Ok s, r') \<Rightarrow> allocate_streams os ds (streams @ [s]) r'
      | (Err e, r') \<Rightarrow> (Err e, fold stream_abort streams r')
      | (Panic, r') \<Rightarrow> (Panic, r'))"

definition allocate_session_for_media ::
  "(u16 \<Rightarrow> bool) \<Rightarrow> nat \<Rightarrow> string \<Rightarrow> sdp_media_descriptor list \<Rightarrow> media_relay
    \<Rightarrow> (string, relay_ports list) outcome \<times> media_relay" where
  "allocate_session_for_media os now cid media r =
     (let active_media = filter md_active media in
      if active_media = [] then (Err ''No active RTP media sections to relay'', r)
      else (case allocate_streams os active_media [] r of
              (Ok streams, r') \<Rightarrow>
                (Ok (map stream_ports streams),
                 r'\<lparr>mr_sessions := hm_put cid \<lparr>ms_streams = streams, ms_created_at = now\<rparr> (mr_sessions r')\<rparr>)
            | (Err e, r') \<Rightarrow> (Err e, r')
            | (Panic, r') \<Rightarrow> (Panic, r')))"

definition allocate_session ::
  "(u16 \<Rightarrow> bool) \<Rightarrow> nat \<Rightarrow> string \<Rightarrow> media_relay \<Rightarrow> (string, u16 \<times> u16) outcome \<times> media_relay" where
  "allocate_session os now cid r =
     (case allocate_session_for_media os now cid
             [\<lparr>md_kind = Audio, md_media_index = 0, md_port = 0, md_active = True\<rparr>] r of
        (Ok [], r') \<Rightarrow> (Err ''No relay ports allocated for media session'', r')
      | (Ok (p # _), r') \<Rightarrow> (Ok (rp_port_a p, rp_port_b p), r')
      | (Err e, r') \<Rightarrow> (Err e, r')
      | (Panic, r') \<Rightarrow> (Panic, r'))"

definition remove_session :: "string \<Rightarrow> media_relay \<Rightarrow> media_relay" where
  "remove_session cid r =
     (case hm_get (mr_sessions r) cid of
        None \<Rightarrow> r
      | Some s \<Rightarrow> session_abort s (r\<lparr>mr_sessions := hm_del cid (mr_sessions r)\<rparr>))"

text \<open>\<open>duration_since\<close> saturates at zero and \<open>as_secs\<close> rounds down; instants count nanoseconds.\<close>

definition session_age_secs :: "nat \<Rightarrow> media_session \<Rightarrow> nat" where
  "session_age_secs now s = (now - ms_created_at s) div 1000000000"

definition cleanup_stale_sessions :: "nat \<Rightarrow> u64 \<Rightarrow> media_relay \<Rightarrow> media_relay" where
  "cleanup_stale_sessions now max_age_secs r =
     fold remove_session
       (map fst (filter (\<lambda>(k, s). unat max_age_secs < session_age_secs now s) (mr_sessions r))) r"

definition RTP_BUF_SIZE :: nat where "RTP_BUF_SIZE = 8192"

text \<open>
  One turn of \<open>run_relay_loop\<close> for a datagram that arrives on a bound port: the task of that side learns
  the source as its own address and forwards the datagram, cut to the buffer, from the other socket to
  the address learned on the other side. The result is the datagram sent: port, destination, payload.
\<close>

definition holds_port :: "u16 \<Rightarrow> nat \<times> relay_cell \<Rightarrow> bool" where
  "holds_port p = (\<lambda>(i, c). (rc_task_a c \<and> rc_port_a c = p) \<or> (rc_task_b c \<and> rc_port_b c = p))"

definition relay_packet ::
  "u16 \<Rightarrow> socket_addr \<Rightarrow> u8 list \<Rightarrow> media_relay \<Rightarrow> (u16 \<times> socket_addr \<times> u8 list) option \<times> media_relay" where
  "relay_packet p src datagram r =
     (case find (holds_port p) (mr_cells r) of
        None \<Rightarrow> (None, r)
      | Some (i, c) \<Rightarrow>
          if rc_task_a c \<and> rc_port_a c = p
          then (map_option (\<lambda>dst. (rc_port_b c, dst, take RTP_BUF_SIZE datagram)) (rc_caller_rtp c),
                cell_update i (\<lambda>c. c\<lparr>rc_callee_rtp := Some src\<rparr>) r)
          else (map_option (\<lambda>dst. (rc_port_a c, dst, take RTP_BUF_SIZE datagram)) (rc_callee_rtp c),
                cell_update i (\<lambda>c. c\<lparr>rc_caller_rtp := Some src\<rparr>) r))"

text \<open>An error of \<open>recv_from\<close> ends the task of that side.\<close>

definition relay_recv_error :: "u16 \<Rightarrow> media_relay \<Rightarrow> media_relay" where
  "relay_recv_error p r =
     (case find (holds_port p) (mr_cells r) of
        None \<Rightarrow> r
      | Some (i, c) \<Rightarrow>
          if rc_task_a c \<and> rc_port_a c = p then cell_update i (\<lambda>c. c\<lparr>rc_task_a := False\<rparr>) r
          else cell_update i (\<lambda>c. c\<lparr>rc_task_b := False\<rparr>) r)"

datatype relay_op =
    Allocate "u16 \<Rightarrow> bool" nat string "sdp_media_descriptor list"
  | Remove string
  | Cleanup nat u64
  | Packet u16 socket_addr "u8 list"
  | RecvError u16

fun relay_step :: "relay_op \<Rightarrow> media_relay \<Rightarrow> media_relay" where
  "relay_step (Allocate os now cid media) r = snd (allocate_session_for_media os now cid media r)"
| "relay_step (Remove cid) r = remove_session cid r"
| "relay_step (Cleanup now age) r = cleanup_stale_sessions now age r"
| "relay_step (Packet p src dg) r = snd (relay_packet p src dg r)"
| "relay_step (RecvError p) r = relay_recv_error p r"

section \<open>Cells\<close>

lemma hm_put_new: "k \<notin> fst ` set m \<Longrightarrow> hm_put k v m = m @ [(k, v)]"
  by (induction m) auto

lemma cell_update_frame [frame_simps]:
  "mr_sessions (cell_update i f r) = mr_sessions r" "mr_port_min (cell_update i f r) = mr_port_min r"
  "mr_port_max (cell_update i f r) = mr_port_max r" "mr_next (cell_update i f r) = mr_next r"
  "map fst (mr_cells (cell_update i f r)) = map fst (mr_cells r)"
  "mr_port_counter (cell_update i f r) = mr_port_counter r"
  by (auto simp: cell_update_def)

lemma cell_update_get [simp]:
  "hm_get (mr_cells (cell_update i f r)) j = (if j = i then map_option f (hm_get (mr_cells r) j) else hm_get (mr_cells r) j)"
proof -
  have "hm_get (map (\<lambda>(j, c). (j, if j = i then f c else c)) cs) j =
      (if j = i then map_option f (hm_get cs j) else hm_get cs j)" for cs :: "(nat, relay_cell) hmap"
    by (induction cs) auto
  then show ?thesis by (simp add: cell_update_def)
qed

text \<open>Whether the ports of two cells do not overlap and lie in the range, as a property of the list.\<close>

definition ports_ok :: "u16 \<Rightarrow> u16 \<Rightarrow> u16 list \<Rightarrow> bool" where
  "ports_ok mn mx ps = (distinct ps \<and> (\<forall>p \<in> set ps. mn \<le> p \<and> p \<le> mx))"

text \<open>Updates that keep the ports of a cell and start no task.\<close>

definition tame :: "(relay_cell \<Rightarrow> relay_cell) \<Rightarrow> bool" where
  "tame f = (\<forall>c. rc_port_a (f c) = rc_port_a c \<and> rc_port_b (f c) = rc_port_b c \<and>
     (rc_task_a (f c) \<longrightarrow> rc_task_a c) \<and> (rc_task_b (f c) \<longrightarrow> rc_task_b c))"

lemma tame_ports: "tame f \<Longrightarrow> cell_ports (f c) = cell_ports c \<or> cell_ports (f c) = []"
  by (auto simp: tame_def cell_ports_def cell_live_def)

lemma concat_shrink_set:
  assumes "\<forall>x \<in> set xs. g x = h x \<or> g x = []"
  shows "set (concat (map g xs)) \<subseteq> set (concat (map h xs))"
proof -
  have "set (g x) \<subseteq> set (h x)" if "x \<in> set xs" for x using assms that by (metis empty_subsetI list.set(1) order_refl)
  then show ?thesis unfolding set_concat set_map by fast
qed

lemma concat_shrink_distinct:
  "\<forall>x \<in> set xs. g x = h x \<or> g x = [] \<Longrightarrow> distinct (concat (map h xs)) \<Longrightarrow> distinct (concat (map g xs))"
proof (induction xs)
  case (Cons x xs)
  then have "distinct (concat (map g xs))" "g x = h x \<or> g x = []" by auto
  moreover have "set (concat (map g xs)) \<subseteq> set (concat (map h xs))"
    by (rule concat_shrink_set) (use Cons.prems(1) in simp)
  ultimately show ?case using Cons.prems(2) by (auto simp del: set_concat)
qed simp

lemma bound_ports_update:
  assumes "tame f"
  shows "set (bound_ports (cell_update i f r)) \<subseteq> set (bound_ports r)"
    "distinct (bound_ports r) \<Longrightarrow> distinct (bound_ports (cell_update i f r))"
proof -
  have e: "bound_ports (cell_update i f r) =
      concat (map (\<lambda>(j, c). cell_ports (if j = i then f c else c)) (mr_cells r))"
    by (simp add: bound_ports_def cell_update_def comp_def split_def)
  have shrink: "\<forall>x \<in> set (mr_cells r). (\<lambda>(j, c). cell_ports (if j = i then f c else c)) x = (\<lambda>(j, c). cell_ports c) x \<or>
      (\<lambda>(j, c). cell_ports (if j = i then f c else c)) x = []"
    using tame_ports [OF assms] by (simp add: split_beta)
  show "set (bound_ports (cell_update i f r)) \<subseteq> set (bound_ports r)"
    using concat_shrink_set [OF shrink] unfolding e unfolding bound_ports_def .
  show "distinct (bound_ports r) \<Longrightarrow> distinct (bound_ports (cell_update i f r))"
    using concat_shrink_distinct [OF shrink] unfolding e unfolding bound_ports_def .
qed

section \<open>The invariant\<close>

definition stream_cell :: "media_relay \<Rightarrow> media_stream \<Rightarrow> bool" where
  "stream_cell r s = (\<exists>c. hm_get (mr_cells r) (st_id s) = Some c \<and> rc_port_a c = st_port_a s \<and> rc_port_b c = st_port_b s)"

definition relay_wf :: "media_relay \<Rightarrow> bool" where
  "relay_wf r = (hm_wf (mr_sessions r) \<and> hm_wf (mr_cells r) \<and> (\<forall>i \<in> set (map fst (mr_cells r)). i < mr_next r) \<and>
     ports_ok (mr_port_min r) (mr_port_max r) (bound_ports r) \<and>
     (\<forall>k s st. hm_get (mr_sessions r) k = Some s \<longrightarrow> st \<in> set (ms_streams s) \<longrightarrow> stream_cell r st))"

lemma relay_wf_new: "relay_wf (media_relay_new ip mn mx)"
  by (simp add: relay_wf_def media_relay_new_def bound_ports_def ports_ok_def)

lemma stream_cell_update: "tame f \<Longrightarrow> stream_cell r s \<Longrightarrow> stream_cell (cell_update i f r) s"
  by (auto simp: stream_cell_def tame_def)

lemma relay_wf_update: "tame f \<Longrightarrow> relay_wf r \<Longrightarrow> relay_wf (cell_update i f r)"
  using bound_ports_update [where f = f and i = i and r = r] stream_cell_update [of f r]
  by (simp add: relay_wf_def ports_ok_def frame_simps) blast

lemma tame_abort [simp]: "tame (\<lambda>c. c\<lparr>rc_task_a := False, rc_task_b := False\<rparr>)"
  by (simp add: tame_def)

lemma relay_wf_abort: "relay_wf r \<Longrightarrow> relay_wf (fold stream_abort ss r)"
  by (induction ss arbitrary: r) (simp_all add: stream_abort_def relay_wf_update)

lemma relay_wf_remove: "relay_wf r \<Longrightarrow> relay_wf (remove_session k r)"
proof -
  assume wf: "relay_wf r"
  have "relay_wf (r\<lparr>mr_sessions := hm_del k (mr_sessions r)\<rparr>)"
    using wf by (auto simp: relay_wf_def hm.wf_del hm.get_del bound_ports_def stream_cell_def split: if_splits)
  then show ?thesis using wf by (simp add: remove_session_def session_abort_def relay_wf_abort split: option.split)
qed

lemma bind_port_pair_sound:
  assumes "bind_port_pair mn mx c free = (Ok (a, b), n)"
  shows "free a" "free b" "a \<noteq> b" "mn \<le> a" "a \<le> mx" "mn \<le> b" "b \<le> mx"
proof -
  have "pair_alloc mn mx c (\<lambda>p. free (fst p) \<and> free (snd p)) = Some (a, b)"
    using assms by (simp add: bind_port_pair_alloc [symmetric])
  then have "(a, b) \<in> pair_domain mn mx \<and> free a \<and> free b" using pair_ports.alloc_sound by fastforce
  then show "free a" "free b" "a \<noteq> b" "mn \<le> a" "a \<le> mx" "mn \<le> b" "b \<le> mx"
    by (auto simp: pair_domain_def word_le_nat_alt)
qed

lemma bind_port_pair_no_panic: "fst (bind_port_pair mn mx c free) \<noteq> Panic"
  by (simp add: bind_port_pair_def Let_def split: prod.split option.split)

lemma allocate_stream_Ok:
  assumes "allocate_stream os d r = (Ok s, r')" "relay_wf r"
  shows "relay_wf r'" "stream_cell r' s" "stream_cell r t \<Longrightarrow> stream_cell r' t" "st_id s = mr_next r"
    "mr_cells r' = mr_cells r @ [(mr_next r, \<lparr>rc_port_a = st_port_a s, rc_port_b = st_port_b s, rc_callee_rtp = None,
       rc_caller_rtp = None, rc_task_a = True, rc_task_b = True\<rparr>)]"
    "mr_sessions r' = mr_sessions r" "mr_next r' = Suc (mr_next r)"
    "st_port_a s \<notin> set (bound_ports r) \<and> st_port_b s \<notin> set (bound_ports r) \<and> os (st_port_a s) \<and> os (st_port_b s)"
    "st_media_index s = md_media_index d" "st_kind s = md_kind d"
proof -
  obtain a b n where bp: "bind_port_pair (mr_port_min r) (mr_port_max r) (mr_port_counter r)
      (\<lambda>p. os p \<and> p \<notin> set (bound_ports r)) = (Ok (a, b), n)"
    and s: "s = \<lparr>st_kind = md_kind d, st_media_index = md_media_index d, st_port_a = a, st_port_b = b, st_id = mr_next r\<rparr>"
    and r': "r' = r\<lparr>mr_port_counter := n, mr_next := Suc (mr_next r),
             mr_cells := hm_put (mr_next r) \<lparr>rc_port_a = a, rc_port_b = b, rc_callee_rtp = None,
               rc_caller_rtp = None, rc_task_a = True, rc_task_b = True\<rparr> (mr_cells r)\<rparr>"
    using assms(1) by (auto simp: allocate_stream_def split: prod.splits outcome.splits)
  note p = bind_port_pair_sound [OF bp]
  have new: "mr_next r \<notin> fst ` set (mr_cells r)" using assms(2) by (fastforce simp: relay_wf_def)
  note cells = hm_put_new [OF new]
  show "mr_cells r' = mr_cells r @ [(mr_next r, \<lparr>rc_port_a = st_port_a s, rc_port_b = st_port_b s, rc_callee_rtp = None,
       rc_caller_rtp = None, rc_task_a = True, rc_task_b = True\<rparr>)]"
    by (simp add: r' s cells)
  have bound: "bound_ports r' = bound_ports r @ [a, b]"
    by (simp add: bound_ports_def r' cells cell_ports_def cell_live_def)
  have none: "hm_get (mr_cells r) (mr_next r) = None" using new by (simp add: map_of_eq_None_iff)
  show keep: "stream_cell r t \<Longrightarrow> stream_cell r' t" for t
    using none by (auto simp: stream_cell_def r' hm.get_put)
  have "ports_ok (mr_port_min r) (mr_port_max r) (bound_ports r @ [a, b])"
    using assms(2) p by (auto simp: relay_wf_def ports_ok_def)
  then show "relay_wf r'"
    using assms(2) keep bound by (auto simp: relay_wf_def r' hm.wf_put cells)
  show "stream_cell r' s" "st_id s = mr_next r" "mr_sessions r' = mr_sessions r" "mr_next r' = Suc (mr_next r)"
    "st_media_index s = md_media_index d" "st_kind s = md_kind d"
    by (simp_all add: stream_cell_def r' s hm.get_put)
  show "st_port_a s \<notin> set (bound_ports r) \<and> st_port_b s \<notin> set (bound_ports r) \<and> os (st_port_a s) \<and> os (st_port_b s)"
    using p by (simp add: s)
qed

lemma allocate_stream_Err:
  assumes "allocate_stream os d r = (Err e, r')"
  shows "\<exists>n. r' = r\<lparr>mr_port_counter := n\<rparr>"
  using assms by (auto simp: allocate_stream_def split: prod.splits outcome.splits)

lemma allocate_stream_no_panic: "fst (allocate_stream os d r) \<noteq> Panic"
  using bind_port_pair_no_panic [of "mr_port_min r" "mr_port_max r" "mr_port_counter r" "\<lambda>p. os p \<and> p \<notin> set (bound_ports r)"]
  by (auto simp: allocate_stream_def split: prod.splits outcome.splits)

lemma counter_frame [simp]:
  "relay_wf (r\<lparr>mr_port_counter := n\<rparr>) = relay_wf r" "bound_ports (r\<lparr>mr_port_counter := n\<rparr>) = bound_ports r"
  "stream_cell (r\<lparr>mr_port_counter := n\<rparr>) s = stream_cell r s"
  by (simp_all add: relay_wf_def bound_ports_def stream_cell_def)

lemma allocate_streams_wf:
  "allocate_streams os ds ss r = (res, r') \<Longrightarrow> relay_wf r \<Longrightarrow> \<forall>s \<in> set ss. stream_cell r s \<Longrightarrow>
    relay_wf r' \<and> (\<forall>ss'. res = Ok ss' \<longrightarrow> (\<forall>s \<in> set ss'. stream_cell r' s)) \<and> res \<noteq> Panic"
proof (induction os ds ss r rule: allocate_streams.induct)
  case (2 os d ds ss r)
  obtain a r1 where a: "allocate_stream os d r = (a, r1)" by (cases "allocate_stream os d r")
  show ?case
  proof (cases a)
    case (Ok s)
    note ok = allocate_stream_Ok [OF a [unfolded Ok] "2.prems"(2)]
    have "\<forall>t \<in> set (ss @ [s]). stream_cell r1 t" using ok(2,3) "2.prems"(3) by auto
    then show ?thesis using "2.IH" [OF a [symmetric] Ok] ok(1) "2.prems"(1) a Ok by simp
  next
    case (Err e)
    then show ?thesis
      using allocate_stream_Err [of os d r e r1] a "2.prems" relay_wf_abort by auto
  next
    case Panic
    then show ?thesis using allocate_stream_no_panic [of os d r] a by simp
  qed
qed auto

lemma relay_wf_allocate: "relay_wf r \<Longrightarrow> relay_wf (snd (allocate_session_for_media os now k media r))"
proof -
  assume wf: "relay_wf r"
  obtain res r' where a: "allocate_streams os (filter md_active media) [] r = (res, r')"
    by (cases "allocate_streams os (filter md_active media) [] r")
  have ok: "relay_wf r'" "\<And>ss' s. res = Ok ss' \<Longrightarrow> s \<in> set ss' \<Longrightarrow> stream_cell r' s"
    using allocate_streams_wf [OF a wf] by auto
  have "relay_wf (r'\<lparr>mr_sessions := hm_put k \<lparr>ms_streams = ss, ms_created_at = now\<rparr> (mr_sessions r')\<rparr>)"
    if "res = Ok ss" for ss
    using ok(1) ok(2) [OF that]
    by (auto simp: relay_wf_def hm.wf_put hm.get_put bound_ports_def stream_cell_def split: if_splits)
  then show ?thesis using wf ok(1) a by (cases res) (auto simp: allocate_session_for_media_def Let_def)
qed

lemma relay_wf_packet: "relay_wf r \<Longrightarrow> relay_wf (snd (relay_packet p src dg r))"
  by (auto simp: relay_packet_def tame_def intro!: relay_wf_update split: option.splits)

lemma relay_wf_recv_error: "relay_wf r \<Longrightarrow> relay_wf (relay_recv_error p r)"
  by (auto simp: relay_recv_error_def tame_def intro!: relay_wf_update split: option.splits)

lemma relay_wf_fold_remove: "relay_wf r \<Longrightarrow> relay_wf (fold remove_session ks r)"
  by (induction ks arbitrary: r) (simp_all add: relay_wf_remove)

interpretation relay_kept: kept_invariant relay_step relay_wf
proof
  fix r op
  assume "relay_wf r"
  then show "relay_wf (relay_step op r)"
    by (cases op) (simp_all add: relay_wf_allocate relay_wf_remove relay_wf_packet relay_wf_recv_error
        cleanup_stale_sessions_def relay_wf_fold_remove)
qed

section \<open>Sessions and configuration\<close>

lemma hm_del_snoc: "k \<notin> fst ` set m \<Longrightarrow> hm_del k (m @ [(k, v)]) = m"
  by (induction m) auto

lemma fold_abort_cells:
  "mr_cells (fold stream_abort ss r) =
    map (\<lambda>(j, c). (j, if j \<in> st_id ` set ss then c\<lparr>rc_task_a := False, rc_task_b := False\<rparr> else c)) (mr_cells r)"
  by (induction ss arbitrary: r) (auto simp: stream_abort_def cell_update_def)

lemma fold_abort_frame [frame_simps]:
  "mr_sessions (fold stream_abort ss r) = mr_sessions r" "mr_public_ip (fold stream_abort ss r) = mr_public_ip r"
  "mr_port_min (fold stream_abort ss r) = mr_port_min r" "mr_port_max (fold stream_abort ss r) = mr_port_max r"
  by (induction ss arbitrary: r) (simp_all add: stream_abort_def cell_update_def)

lemma remove_session_sessions [simp]: "mr_sessions (remove_session k r) = hm_del k (mr_sessions r)"
  by (simp add: remove_session_def session_abort_def frame_simps delete_id map_of_eq_None_iff split: option.split)

lemma fold_remove_sessions: "mr_sessions (fold remove_session ks r) = fold hm_del ks (mr_sessions r)"
  by (induction ks arbitrary: r) simp_all

definition relay_config :: "media_relay \<Rightarrow> string \<times> u16 \<times> u16" where
  "relay_config r = (mr_public_ip r, mr_port_min r, mr_port_max r)"

lemma remove_session_config: "relay_config (remove_session k r) = relay_config r"
  by (simp add: relay_config_def remove_session_def session_abort_def frame_simps split: option.split)

lemma allocate_stream_config: "relay_config (snd (allocate_stream os d r)) = relay_config r"
  by (auto simp: allocate_stream_def relay_config_def split: prod.splits outcome.splits)

lemma allocate_streams_config: "relay_config (snd (allocate_streams os ds ss r)) = relay_config r"
proof (induction os ds ss r rule: allocate_streams.induct)
  case (2 os d ds ss r)
  obtain a r1 where a: "allocate_stream os d r = (a, r1)" by (cases "allocate_stream os d r")
  have "relay_config r1 = relay_config r" using allocate_stream_config [of os d r] a by simp
  then show ?case using "2.IH" [OF a [symmetric]] a by (cases a) (auto simp: relay_config_def frame_simps)
qed simp

lemma relay_step_config: "relay_config (relay_step op r) = relay_config r"
proof (cases op)
  case (Allocate os now k media)
  obtain res r' where a: "allocate_streams os (filter md_active media) [] r = (res, r')"
    by (cases "allocate_streams os (filter md_active media) [] r")
  then have "relay_config r' = relay_config r" using allocate_streams_config [of os "filter md_active media" "[]" r] by simp
  then show ?thesis using a Allocate by (cases res) (auto simp: allocate_session_for_media_def Let_def relay_config_def)
next
  case (Cleanup now age)
  have "relay_config (fold remove_session ks r) = relay_config r" for ks
    by (induction ks arbitrary: r) (simp_all add: remove_session_config)
  then show ?thesis using Cleanup by (simp add: cleanup_stale_sessions_def)
next
  case (Remove k)
  then show ?thesis by (simp add: remove_session_config)
qed (auto simp: relay_packet_def relay_recv_error_def relay_config_def cell_update_def split: option.splits)

lemma relay_run_config: "relay_config (fold relay_step ops r) = relay_config r"
  by (induction ops arbitrary: r) (simp_all add: relay_step_config)

section \<open>Allocation\<close>

definition fresh_cell :: "media_stream \<Rightarrow> relay_cell" where
  "fresh_cell s = \<lparr>rc_port_a = st_port_a s, rc_port_b = st_port_b s, rc_callee_rtp = None,
     rc_caller_rtp = None, rc_task_a = True, rc_task_b = True\<rparr>"

lemma allocate_streams_Ok:
  "allocate_streams os ds ss r = (Ok ss', r') \<Longrightarrow> relay_wf r \<Longrightarrow>
    \<exists>ts. ss' = ss @ ts \<and> mr_cells r' = mr_cells r @ map (\<lambda>t. (st_id t, fresh_cell t)) ts \<and>
      mr_sessions r' = mr_sessions r \<and> (\<forall>t \<in> set ts. mr_next r \<le> st_id t) \<and>
      map st_media_index ts = map md_media_index ds \<and> relay_wf r'"
proof (induction os ds ss r rule: allocate_streams.induct)
  case (1 os ss r)
  then show ?case by (intro exI [of _ "[]"]) simp
next
  case (2 os d ds ss r)
  obtain s r1 where a: "allocate_stream os d r = (Ok s, r1)"
    using "2.prems"(1) by (auto split: prod.splits outcome.splits)
  note ok = allocate_stream_Ok [OF a "2.prems"(2)]
  obtain ts where ts: "ss' = (ss @ [s]) @ ts" "mr_cells r' = mr_cells r1 @ map (\<lambda>t. (st_id t, fresh_cell t)) ts"
    "mr_sessions r' = mr_sessions r1" "\<forall>t \<in> set ts. mr_next r1 \<le> st_id t" "map st_media_index ts = map md_media_index ds" "relay_wf r'"
    using "2.IH" [OF a [symmetric] refl] "2.prems"(1) a ok(1) by auto
  show ?case
    using ts ok(4,5,6,7,9) by (intro exI [of _ "s # ts"]) (auto simp: fresh_cell_def)
qed

lemma allocate_streams_Err:
  "allocate_streams os ds ss r = (Err e, r') \<Longrightarrow> relay_wf r \<Longrightarrow>
    \<exists>ts c. mr_cells r' = map (\<lambda>(j, c). (j, if j \<in> st_id ` set (ss @ ts) then c\<lparr>rc_task_a := False, rc_task_b := False\<rparr> else c))
        (mr_cells r @ map (\<lambda>t. (st_id t, fresh_cell t)) ts) \<and> mr_sessions r' = mr_sessions r \<and>
      (\<forall>t \<in> set ts. mr_next r \<le> st_id t)"
proof (induction os ds ss r rule: allocate_streams.induct)
  case (2 os d ds ss r)
  obtain a r1 where a: "allocate_stream os d r = (a, r1)" by (cases "allocate_stream os d r")
  show ?case
  proof (cases a)
    case (Ok s)
    note ok = allocate_stream_Ok [OF a [unfolded Ok] "2.prems"(2)]
    obtain ts where ts: "mr_cells r' = map (\<lambda>(j, c). (j, if j \<in> st_id ` set ((ss @ [s]) @ ts)
        then c\<lparr>rc_task_a := False, rc_task_b := False\<rparr> else c)) (mr_cells r1 @ map (\<lambda>t. (st_id t, fresh_cell t)) ts)"
      "mr_sessions r' = mr_sessions r1" "\<forall>t \<in> set ts. mr_next r1 \<le> st_id t"
      using "2.IH" [OF a [symmetric] Ok] "2.prems"(1) a Ok ok(1) by auto
    show ?thesis
      using ts ok(4,5,6,7) by (intro exI [of _ "s # ts"]) (auto simp: fresh_cell_def)
  next
    case (Err e')
    then obtain n where "r1 = r\<lparr>mr_port_counter := n\<rparr>" using allocate_stream_Err a by blast
    then show ?thesis
      using "2.prems"(1) a Err by (intro exI [of _ "[]"]) (auto simp: fold_abort_cells frame_simps)
  next
    case Panic
    then show ?thesis using allocate_stream_no_panic [of os d r] a by simp
  qed
qed auto

text \<open>Stopping streams whose identities are new leaves the ports of the old cells bound and no other.\<close>

lemma bound_after_abort:
  assumes "\<forall>i \<in> set (map fst cs). i < n" "\<forall>t \<in> set ts. n \<le> st_id t"
    and "mr_cells r' = map (\<lambda>(j, c). (j, if j \<in> st_id ` set ts then c\<lparr>rc_task_a := False, rc_task_b := False\<rparr> else c))
        (cs @ map (\<lambda>t. (st_id t, fresh_cell t)) ts)"
  shows "bound_ports r' = concat (map (\<lambda>(i, c). cell_ports c) cs)"
proof -
  have old: "i \<notin> st_id ` set ts" if "(i, c) \<in> set cs" for i c using assms(1,2) that by fastforce
  have "map (\<lambda>(j, c). (j, if j \<in> st_id ` set ts then c\<lparr>rc_task_a := False, rc_task_b := False\<rparr> else c)) cs = cs"
    using old by (intro map_idI) auto
  moreover have "concat (map (\<lambda>t. cell_ports (fresh_cell t\<lparr>rc_task_a := False, rc_task_b := False\<rparr>)) ts) = []"
    by (simp add: cell_ports_def cell_live_def)
  ultimately show ?thesis by (simp add: bound_ports_def assms(3) comp_def)
qed

section \<open>What the tasks learn\<close>

text \<open>The second cell is the first with some tasks ended.\<close>

definition calmer :: "relay_cell \<Rightarrow> relay_cell \<Rightarrow> bool" where
  "calmer c c' = (rc_port_a c' = rc_port_a c \<and> rc_port_b c' = rc_port_b c \<and> rc_callee_rtp c' = rc_callee_rtp c \<and>
     rc_caller_rtp c' = rc_caller_rtp c \<and> (rc_task_a c' \<longrightarrow> rc_task_a c) \<and> (rc_task_b c' \<longrightarrow> rc_task_b c))"

definition cells_calmer :: "media_relay \<Rightarrow> media_relay \<Rightarrow> bool" where
  "cells_calmer r r' = (\<forall>i c. hm_get (mr_cells r) i = Some c \<longrightarrow> (\<exists>c'. hm_get (mr_cells r') i = Some c' \<and> calmer c c'))"

lemma calmer_refl [simp]: "calmer c c"
  by (simp add: calmer_def)

lemma calmer_trans: "calmer a b \<Longrightarrow> calmer b c \<Longrightarrow> calmer a c"
  by (auto simp: calmer_def)

lemma cells_calmer_refl [simp]: "cells_calmer r r"
  by (simp add: cells_calmer_def)

lemma cells_calmer_trans: "cells_calmer a b \<Longrightarrow> cells_calmer b c \<Longrightarrow> cells_calmer a c"
  unfolding cells_calmer_def using calmer_trans by blast

lemma cells_calmer_update: "(\<And>c. calmer c (f c)) \<Longrightarrow> cells_calmer r (cell_update i f r)"
  by (simp add: cells_calmer_def)

lemma cells_calmer_abort: "cells_calmer r (fold stream_abort ss r)"
proof (induction ss arbitrary: r)
  case (Cons s ss)
  have "cells_calmer r (stream_abort s r)"
    unfolding stream_abort_def by (rule cells_calmer_update) (auto simp: calmer_def)
  then show ?case using Cons [of "stream_abort s r"] cells_calmer_trans by simp
qed simp

lemma cells_calmer_remove: "cells_calmer r (remove_session k r)"
proof -
  have "cells_calmer r (fold stream_abort ss (r\<lparr>mr_sessions := m\<rparr>))" for ss m
    using cells_calmer_abort [of "r\<lparr>mr_sessions := m\<rparr>" ss] by (simp add: cells_calmer_def)
  then show ?thesis by (simp add: remove_session_def session_abort_def split: option.split)
qed

lemma cells_calmer_fold_remove: "cells_calmer r (fold remove_session ks r)"
proof (induction ks arbitrary: r)
  case (Cons k ks)
  then show ?case using cells_calmer_remove [of r k] cells_calmer_trans by fastforce
qed simp

lemma allocate_streams_calmer: "relay_wf r \<Longrightarrow> cells_calmer r (snd (allocate_streams os ds ss r))"
proof (induction os ds ss r rule: allocate_streams.induct)
  case (2 os d ds ss r)
  obtain a r1 where a: "allocate_stream os d r = (a, r1)" by (cases "allocate_stream os d r")
  show ?case
  proof (cases a)
    case (Ok s)
    note ok = allocate_stream_Ok [OF a [unfolded Ok] "2.prems"]
    have "cells_calmer r r1" by (simp add: cells_calmer_def ok(5) map_of_append)
    then show ?thesis using "2.IH" [OF a [symmetric] Ok ok(1)] a Ok cells_calmer_trans by simp
  next
    case (Err e)
    then obtain n where "r1 = r\<lparr>mr_port_counter := n\<rparr>" using allocate_stream_Err a by blast
    then show ?thesis using cells_calmer_abort [of r1 ss] a Err by (simp add: cells_calmer_def)
  next
    case Panic
    then show ?thesis using allocate_stream_no_panic [of os d r] a by simp
  qed
qed simp

lemma allocate_calmer:
  assumes "relay_wf r"
  shows "cells_calmer r (snd (allocate_session_for_media os now k media r))"
proof -
  obtain res r' where a: "allocate_streams os (filter md_active media) [] r = (res, r')"
    by (cases "allocate_streams os (filter md_active media) [] r")
  then have "cells_calmer r r'" using allocate_streams_calmer [OF assms, of os "filter md_active media" "[]"] by simp
  then show ?thesis using a by (cases res) (auto simp: allocate_session_for_media_def Let_def cells_calmer_def)
qed

lemma bound_unique:
  assumes "distinct (concat (map (\<lambda>(i, c). cell_ports c) cs))" "(i, c) \<in> set cs" "(j, d) \<in> set cs"
    and "p \<in> set (cell_ports c)" "p \<in> set (cell_ports d)"
  shows "(i, c) = (j, d)"
  using assms
proof (induction cs)
  case (Cons e cs)
  have apart: "p \<notin> set (cell_ports c')" if "(i', c') \<in> set cs" "p \<in> set (cell_ports (snd e))" for i' c'
    using Cons.prems(1) that by (cases e) force
  show ?case
  proof (cases "(i, c) = e \<or> (j, d) = e")
    case True
    then show ?thesis using apart Cons.prems(2-5) by auto
  next
    case False
    then show ?thesis using Cons.IH Cons.prems by auto
  qed
qed simp

text \<open>A port of a stream whose two tasks run belongs to it alone.\<close>

lemma find_holder:
  assumes "relay_wf r" "hm_get (mr_cells r) i = Some c" "rc_task_a c" "rc_task_b c"
    and "p = rc_port_a c \<or> p = rc_port_b c"
  shows "find (holds_port p) (mr_cells r) = Some (i, c)"
proof -
  have wf: "hm_wf (mr_cells r)" "distinct (bound_ports r)" using assms(1) by (simp_all add: relay_wf_def ports_ok_def)
  have ic: "(i, c) \<in> set (mr_cells r)" using assms(2) by (rule map_of_SomeD)
  have p: "p \<in> set (cell_ports c)" using assms(3-5) by (auto simp: cell_ports_def cell_live_def)
  have "holds_port p (i, c)" using assms(3-5) by (auto simp: holds_port_def)
  then obtain e where e: "find (holds_port p) (mr_cells r) = Some e"
    using ic by (cases "find (holds_port p) (mr_cells r)") (auto simp: find_None_iff)
  then have "e \<in> set (mr_cells r)" "holds_port p e" by (auto simp: find_Some_iff in_set_conv_nth)
  moreover have "p \<in> set (cell_ports (snd e))" if "holds_port p e"
    using that by (auto simp: holds_port_def cell_ports_def cell_live_def split: prod.splits)
  ultimately have "(i, c) = (fst e, snd e)"
    using bound_unique [of "mr_cells r" i c "fst e" "snd e" p] wf ic p by (simp add: bound_ports_def)
  then show ?thesis using e by simp
qed

fun learn :: "u16 \<Rightarrow> relay_op \<Rightarrow> socket_addr option \<Rightarrow> socket_addr option" where
  "learn p (Packet q src dg) a = (if q = p then Some src else a)"
| "learn p _ a = a"

definition last_source :: "u16 \<Rightarrow> relay_op list \<Rightarrow> socket_addr option \<Rightarrow> socket_addr option" where
  "last_source p = fold (learn p)"

definition stream_live :: "media_relay \<Rightarrow> nat \<Rightarrow> bool" where
  "stream_live r i = (case hm_get (mr_cells r) i of None \<Rightarrow> False | Some c \<Rightarrow> rc_task_a c \<and> rc_task_b c)"

definition advance :: "relay_op \<Rightarrow> relay_cell \<Rightarrow> relay_cell" where
  "advance op c = c\<lparr>rc_callee_rtp := learn (rc_port_a c) op (rc_callee_rtp c),
     rc_caller_rtp := learn (rc_port_b c) op (rc_caller_rtp c)\<rparr>"

lemma bound_two:
  assumes "relay_wf r" "hm_get (mr_cells r) i = Some c" "rc_task_a c"
  shows "rc_port_a c \<noteq> rc_port_b c"
proof -
  have "distinct (cell_ports c)"
    using assms(1) map_of_SomeD [OF assms(2)]
    by (fastforce simp: relay_wf_def ports_ok_def bound_ports_def distinct_concat_iff)
  then show ?thesis using assms(3) by (simp add: cell_ports_def cell_live_def)
qed

lemma packet_cell:
  assumes wf: "relay_wf r" and c: "hm_get (mr_cells r) i = Some c"
    and live: "stream_live (snd (relay_packet p src dg r)) i"
  shows "hm_get (mr_cells (snd (relay_packet p src dg r))) i = Some (advance (Packet p src dg) c) \<and> rc_task_a c \<and> rc_task_b c"
proof -
  have tasks: "rc_task_a c \<and> rc_task_b c"
    using live c by (auto simp: stream_live_def relay_packet_def split: option.splits if_splits)
  show ?thesis
  proof (cases "p = rc_port_a c \<or> p = rc_port_b c")
    case True
    have f: "find (holds_port p) (mr_cells r) = Some (i, c)" using find_holder [OF wf c] tasks True by blast
    show ?thesis using f tasks c True bound_two [OF wf c] by (auto simp: relay_packet_def advance_def)
  next
    case False
    have "j \<noteq> i" if "find (holds_port p) (mr_cells r) = Some (j, d)" for j d
    proof
      assume "j = i"
      have "(j, d) \<in> set (mr_cells r)" "holds_port p (j, d)" using that by (auto simp: find_Some_iff in_set_conv_nth)
      then have "d = c" using c wf \<open>j = i\<close> by (simp add: relay_wf_def)
      then show False using \<open>holds_port p (j, d)\<close> False by (auto simp: holds_port_def)
    qed
    then show ?thesis using tasks c False
      by (auto simp: relay_packet_def advance_def split: option.splits)
  qed
qed

lemma step_calmer: "relay_wf r \<Longrightarrow> (\<And>p s d. op \<noteq> Packet p s d) \<Longrightarrow> cells_calmer r (relay_step op r)"
proof (cases op)
  case (RecvError p)
  then show ?thesis
    by (auto simp: relay_recv_error_def calmer_def intro!: cells_calmer_update split: option.splits)
qed (auto simp: allocate_calmer cells_calmer_remove cleanup_stale_sessions_def cells_calmer_fold_remove)

lemma step_advance:
  assumes wf: "relay_wf r" and c: "hm_get (mr_cells r) i = Some c" and live: "stream_live (relay_step op r) i"
  shows "hm_get (mr_cells (relay_step op r)) i = Some (advance op c) \<and> rc_task_a c \<and> rc_task_b c"
proof (cases "\<exists>p s d. op = Packet p s d")
  case True
  then show ?thesis using packet_cell [OF wf c] live by auto
next
  case False
  obtain c' where c': "hm_get (mr_cells (relay_step op r)) i = Some c'" "calmer c c'"
    using step_calmer [OF wf, of op] False c unfolding cells_calmer_def by blast
  have "learn p op a = a" for p a using False by (cases op) auto
  then show ?thesis using c' live by (auto simp: stream_live_def advance_def calmer_def intro!: relay_cell.equality)
qed

lemma run_advance:
  assumes "relay_wf r" "hm_get (mr_cells r) i = Some c" "stream_live (fold relay_step ops r) i"
  shows "hm_get (mr_cells (fold relay_step ops r)) i = Some (c\<lparr>rc_callee_rtp := last_source (rc_port_a c) ops (rc_callee_rtp c),
     rc_caller_rtp := last_source (rc_port_b c) ops (rc_caller_rtp c)\<rparr>) \<and> rc_task_a c \<and> rc_task_b c"
  using assms(3)
proof (induction ops rule: rev_induct)
  case Nil
  then show ?case using assms(2) by (simp add: last_source_def stream_live_def)
next
  case (snoc op ops)
  let ?r = "fold relay_step ops r"
  have wf: "relay_wf ?r" by (rule relay_kept.run_inv [OF assms(1)])
  have "\<exists>d. hm_get (mr_cells ?r) i = Some d"
  proof -
    have keep: "(hm_get (mr_cells r) i \<noteq> None) \<longrightarrow> hm_get (mr_cells (relay_step op r)) i \<noteq> None" if "relay_wf r" for r op
    proof (cases "\<exists>p s d. op = Packet p s d")
      case True
      then show ?thesis by (auto simp: relay_packet_def split: option.splits)
    next
      case False
      then show ?thesis using step_calmer [OF that, of op] unfolding cells_calmer_def by blast
    qed
    have "relay_wf r \<Longrightarrow> hm_get (mr_cells r) i \<noteq> None \<Longrightarrow> hm_get (mr_cells (fold relay_step ops r)) i \<noteq> None" for r
      by (induction ops arbitrary: r) (use keep relay_kept.step_inv in \<open>simp_all del: not_None_eq\<close>)
    then show ?thesis using assms(1,2) by (metis option.collapse option.distinct(1))
  qed
  then obtain d where d: "hm_get (mr_cells ?r) i = Some d" ..
  have live: "stream_live (relay_step op ?r) i" using snoc.prems by simp
  note st = step_advance [OF wf d live]
  have "stream_live ?r i" using st d by (simp add: stream_live_def)
  from snoc.IH [OF this] d st show ?case by (simp add: advance_def last_source_def)
qed

section \<open>The properties\<close>

text \<open>
  whatever calls are set up, torn down, expired or disturbed by socket errors, no two running relay
  streams share a port, every bound port lies in the configured range, and each stream of a session has
  the ports its session advertises.
\<close>

theorem relay_ports_disjoint:
  assumes "r = fold relay_step ops (media_relay_new ip mn mx)"
  shows "distinct (bound_ports r) \<and> (\<forall>p \<in> set (bound_ports r). mn \<le> p \<and> p \<le> mx) \<and>
    (\<forall>k s st. hm_get (mr_sessions r) k = Some s \<longrightarrow> st \<in> set (ms_streams s) \<longrightarrow> stream_cell r st)"
proof -
  have "relay_wf r" unfolding assms by (rule relay_kept.run_inv [OF relay_wf_new])
  moreover have "relay_config r = (ip, mn, mx)"
    unfolding assms relay_run_config by (simp add: relay_config_def media_relay_new_def)
  ultimately show ?thesis by (simp add: relay_wf_def ports_ok_def relay_config_def)
qed


text \<open>
  C14: allocation and removal are balanced. For a call without a session, whether the allocation succeeds
  or fails half-way, removing the call afterwards leaves exactly the ports bound and the sessions held
  that there were before.
\<close>

theorem relay_no_leak:
  assumes "relay_wf r" "hm_get (mr_sessions r) k = None" "allocate_session_for_media os now k media r = (res, r')"
  shows "bound_ports (remove_session k r') = bound_ports r \<and> mr_sessions (remove_session k r') = mr_sessions r \<and>
    (\<forall>e. res = Err e \<longrightarrow> bound_ports r' = bound_ports r) \<and> res \<noteq> Panic"
proof -
  have ids: "\<forall>i \<in> set (map fst (mr_cells r)). i < mr_next r" using assms(1) by (simp add: relay_wf_def)
  have new: "k \<notin> fst ` set (mr_sessions r)" using assms(2) by (simp add: map_of_eq_None_iff)
  obtain res1 r1 where a: "allocate_streams os (filter md_active media) [] r = (res1, r1)"
    by (cases "allocate_streams os (filter md_active media) [] r")
  consider (none) "filter md_active media = []"
    | (ok) ss where "res1 = Ok ss" "filter md_active media \<noteq> []"
    | (err) e where "res1 = Err e" "filter md_active media \<noteq> []"
    using allocate_streams_wf [OF a assms(1)] by (cases res1) auto
  then show ?thesis
  proof cases
    case none
    then show ?thesis using assms(2,3) by (auto simp: allocate_session_for_media_def remove_session_def)
  next
    case (ok ss)
    obtain ts where ts: "ss = ts" "mr_cells r1 = mr_cells r @ map (\<lambda>t. (st_id t, fresh_cell t)) ts"
      "mr_sessions r1 = mr_sessions r" "\<forall>t \<in> set ts. mr_next r \<le> st_id t"
      using allocate_streams_Ok [OF a [unfolded ok(1)] assms(1)] by auto
    have r': "r' = r1\<lparr>mr_sessions := hm_put k \<lparr>ms_streams = ts, ms_created_at = now\<rparr> (mr_sessions r)\<rparr>" "res = Ok (map stream_ports ts)"
      using assms(3) a ok ts(1,3) by (auto simp: allocate_session_for_media_def Let_def)
    have rem: "remove_session k r' = fold stream_abort ts (r'\<lparr>mr_sessions := mr_sessions r\<rparr>)"
    proof -
      have "hm_del k (hm_put k v (mr_sessions r)) = mr_sessions r" for v
        unfolding hm_put_new [OF new] by (rule hm_del_snoc [OF new])
      then show ?thesis by (simp add: remove_session_def r' hm.get_put session_abort_def)
    qed
    have "bound_ports (remove_session k r') = bound_ports r"
      unfolding rem using bound_after_abort [OF ids ts(4)]
      by (simp add: bound_ports_def [of r] fold_abort_cells r'(1) ts(2))
    then show ?thesis using r'(2) by (simp add: rem frame_simps)
  next
    case (err e)
    obtain ts where ts: "mr_cells r1 = map (\<lambda>(j, c). (j, if j \<in> st_id ` set ts then c\<lparr>rc_task_a := False, rc_task_b := False\<rparr> else c))
        (mr_cells r @ map (\<lambda>t. (st_id t, fresh_cell t)) ts)" "mr_sessions r1 = mr_sessions r" "\<forall>t \<in> set ts. mr_next r \<le> st_id t"
      using allocate_streams_Err [OF a [unfolded err(1)] assms(1)] by auto
    have "bound_ports r1 = bound_ports r"
      using bound_after_abort [OF ids ts(3,1)] by (simp add: bound_ports_def [of r])
    moreover have "r' = r1" "res = Err e" using assms(3) a err by (auto simp: allocate_session_for_media_def Let_def)
    ultimately show ?thesis using assms(2) ts(2) by (simp add: remove_session_def)
  qed
qed

text \<open>
  allocating a second session under a Call-ID that has one loses the first: the call can then be
  removed, but the ports of the first session stay bound and no session names them.
\<close>

theorem relay_reallocation_leaks:
  assumes "relay_wf r" "hm_get (mr_sessions r) k = Some s" "st \<in> set (ms_streams s)" "stream_live r (st_id st)"
    and "allocate_session_for_media os now k media r = (Ok ps, r')"
  shows "st_port_a st \<in> set (bound_ports (remove_session k r')) \<and> st_port_b st \<in> set (bound_ports (remove_session k r')) \<and>
    hm_get (mr_sessions (remove_session k r')) k = None"
proof -
  obtain ts r1 where a: "allocate_streams os (filter md_active media) [] r = (Ok ts, r1)"
    and r': "r' = r1\<lparr>mr_sessions := hm_put k \<lparr>ms_streams = ts, ms_created_at = now\<rparr> (mr_sessions r1)\<rparr>"
    using assms(5) by (auto simp: allocate_session_for_media_def Let_def split: if_splits prod.splits outcome.splits)
  have ts: "mr_cells r1 = mr_cells r @ map (\<lambda>t. (st_id t, fresh_cell t)) ts" "\<forall>t \<in> set ts. mr_next r \<le> st_id t"
    using allocate_streams_Ok [OF a assms(1)] by auto
  obtain c where c: "hm_get (mr_cells r) (st_id st) = Some c" "rc_port_a c = st_port_a st" "rc_port_b c = st_port_b st"
    using assms(1-3) unfolding relay_wf_def stream_cell_def by blast
  have live: "cell_live c" using assms(4) c(1) by (simp add: stream_live_def cell_live_def)
  have mem: "(st_id st, c) \<in> set (mr_cells r)" using c(1) by (rule map_of_SomeD)
  then have "st_id st < mr_next r" using assms(1) by (force simp: relay_wf_def)
  then have old: "st_id st \<notin> st_id ` set ts" using ts(2) by fastforce
  have "mr_cells (remove_session k r') =
      map (\<lambda>(j, c). (j, if j \<in> st_id ` set ts then c\<lparr>rc_task_a := False, rc_task_b := False\<rparr> else c)) (mr_cells r1)"
    by (simp add: remove_session_def session_abort_def r' hm.get_put fold_abort_cells)
  moreover have "(st_id st, c) \<in> set (mr_cells r1)" using mem ts(1) by simp
  ultimately have "(st_id st, c) \<in> set (mr_cells (remove_session k r'))"
    using old by (simp only: set_map) (rule rev_image_eqI, assumption, simp)
  then have "set (cell_ports c) \<subseteq> set (bound_ports (remove_session k r'))" by (fastforce simp: bound_ports_def)
  then show ?thesis using c live by (simp add: cell_ports_def hm.get_del)
qed

section \<open>Witnesses\<close>

definition audio_section :: sdp_media_descriptor where
  "audio_section = \<lparr>md_kind = Audio, md_media_index = 0, md_port = 4000, md_active = True\<rparr>"

definition example_relay :: media_relay where
  "example_relay = snd (allocate_session_for_media (\<lambda>p. True) 0 ''c1'' [audio_section] (media_relay_new ''203.0.113.9'' 10000 10010))"

lemma example_relay_value:
  "allocate_session_for_media (\<lambda>p. True) 0 ''c1'' [audio_section] (media_relay_new ''203.0.113.9'' 10000 10010) =
    (Ok [\<lparr>rp_kind = Audio, rp_media_index = 0, rp_port_a = 10000, rp_port_b = 10001\<rparr>], example_relay)"
  "example_relay = \<lparr>mr_sessions = [(''c1'', \<lparr>ms_streams = [\<lparr>st_kind = Audio, st_media_index = 0,
      st_port_a = 10000, st_port_b = 10001, st_id = 0\<rparr>], ms_created_at = 0\<rparr>)], mr_public_ip = ''203.0.113.9'',
     mr_port_min = 10000, mr_port_max = 10010, mr_port_counter = 2,
     mr_cells = [(0, \<lparr>rc_port_a = 10000, rc_port_b = 10001, rc_callee_rtp = None, rc_caller_rtp = None,
       rc_task_a = True, rc_task_b = True\<rparr>)], mr_next = 1\<rparr>"
  by code_simp+

lemma example_relay_wf: "relay_wf (media_relay_new ''203.0.113.9'' 10000 10010)" "relay_wf example_relay"
  using relay_wf_new relay_wf_allocate [OF relay_wf_new] by (simp_all add: example_relay_def)

theorem relay_ports_disjoint_witness:
  "distinct (bound_ports example_relay) \<and> set (bound_ports example_relay) = {10000, 10001} \<and>
   list_all (\<lambda>p. 10000 \<le> p \<and> p \<le> 10010) (bound_ports example_relay)"
proof -
  have "example_relay = fold relay_step [Allocate (\<lambda>p. True) 0 ''c1'' [audio_section]] (media_relay_new ''203.0.113.9'' 10000 10010)"
    by (simp add: example_relay_def)
  note relay_ports_disjoint [OF this]
  moreover have "bound_ports example_relay = [10000, 10001]"
    by (simp add: bound_ports_def example_relay_value(2) cell_ports_def cell_live_def)
  ultimately show ?thesis by simp
qed


theorem relay_no_leak_witness:
  "bound_ports (remove_session ''c1'' example_relay) = [] \<and> mr_sessions (remove_session ''c1'' example_relay) = []"
  using relay_no_leak [OF example_relay_wf(1) _ example_relay_value(1)]
  by (simp add: media_relay_new_def bound_ports_def)

theorem relay_reallocation_leaks_witness:
  "\<exists>ps r'. allocate_session_for_media (\<lambda>p. True) 1 ''c1'' [audio_section] example_relay = (Ok ps, r') \<and>
     10000 \<in> set (bound_ports (remove_session ''c1'' r'))"
proof -
  have ok: "is_ok (fst (allocate_session_for_media (\<lambda>p. True) 1 ''c1'' [audio_section] example_relay))"
    unfolding example_relay_value(2) by code_simp
  then obtain ps r' where a: "allocate_session_for_media (\<lambda>p. True) 1 ''c1'' [audio_section] example_relay = (Ok ps, r')"
    by (cases "allocate_session_for_media (\<lambda>p. True) 1 ''c1'' [audio_section] example_relay"; cases "fst (allocate_session_for_media (\<lambda>p. True) 1 ''c1'' [audio_section] example_relay)") auto
  show ?thesis
    using relay_reallocation_leaks [OF example_relay_wf(2) _ _ _ a, of _
        "\<lparr>st_kind = Audio, st_media_index = 0, st_port_a = 10000, st_port_b = 10001, st_id = 0\<rparr>"] a
    by (simp add: example_relay_value(2) stream_live_def)
qed

end
