(* ===== verification/Utf8.thy ===== *)
theory Utf8
  imports Rust_Str
begin

text \<open>
  UTF-8 as the standard library decides it: \<open>str::from_utf8\<close> on whole byte strings and
  \<open>String::from_utf8_lossy\<close>, which puts U+FFFD for each maximal invalid part.
\<close>

definition utf8_cont :: "char \<Rightarrow> bool" where
  "utf8_cont c = (128 \<le> (of_char c :: nat) \<and> (of_char c :: nat) \<le> 191)"

definition utf8_width :: "char \<Rightarrow> nat" where
  "utf8_width c = (let b = (of_char c :: nat) in
     if b < 128 then 1 else if 194 \<le> b \<and> b \<le> 223 then 2 else if 224 \<le> b \<and> b \<le> 239 then 3
     else if 240 \<le> b \<and> b \<le> 244 then 4 else 0)"

definition utf8_second :: "char \<Rightarrow> char \<Rightarrow> bool" where
  "utf8_second c d = (let b = (of_char c :: nat); e = (of_char d :: nat) in
     if b = 224 then 160 \<le> e \<and> e \<le> 191 else if b = 237 then 128 \<le> e \<and> e \<le> 159
     else if b = 240 then 144 \<le> e \<and> e \<le> 191 else if b = 244 then 128 \<le> e \<and> e \<le> 143 else utf8_cont d)"

text \<open>The first character: whether it is one, and the bytes it or the invalid part takes.\<close>

fun utf8_char :: "string \<Rightarrow> bool \<times> nat" where
  "utf8_char [] = (True, 0)"
| "utf8_char (c # s) =
     (let w = utf8_width c in
      if w = 0 then (False, 1)
      else if w = 1 then (True, 1)
      else if s = [] \<or> \<not> utf8_second c (s ! 0) then (False, 1)
      else if w = 2 then (True, 2)
      else if length s < 2 \<or> \<not> utf8_cont (s ! 1) then (False, 2)
      else if w = 3 then (True, 3)
      else if length s < 3 \<or> \<not> utf8_cont (s ! 2) then (False, 3)
      else (True, 4))"

lemma utf8_char_bounds: "s \<noteq> [] \<Longrightarrow> 0 < snd (utf8_char s) \<and> snd (utf8_char s) \<le> length s"
  by (cases s) (auto simp: Let_def Suc_le_eq)

function utf8_valid :: "string \<Rightarrow> bool" where
  "utf8_valid s = (if s = [] then True else fst (utf8_char s) \<and> utf8_valid (drop (snd (utf8_char s)) s))"
  by auto
termination
  by (relation "measure length") (use utf8_char_bounds in \<open>auto simp del: utf8_char.simps\<close>)

function from_utf8_lossy :: "string \<Rightarrow> string" where
  "from_utf8_lossy s =
     (if s = [] then []
      else (if fst (utf8_char s) then take (snd (utf8_char s)) s else [CHR 0xEF, CHR 0xBF, CHR 0xBD]) @
        from_utf8_lossy (drop (snd (utf8_char s)) s))"
  by auto
termination
  by (relation "measure length") (use utf8_char_bounds in \<open>auto simp del: utf8_char.simps\<close>)

declare utf8_valid.simps [simp del] from_utf8_lossy.simps [simp del]

lemma utf8_nil [simp]: "utf8_valid []" "from_utf8_lossy [] = []"
  by (subst utf8_valid.simps, simp) (subst from_utf8_lossy.simps, simp)

lemma lossy_valid: "utf8_valid s \<Longrightarrow> from_utf8_lossy s = s"
proof (induction s rule: utf8_valid.induct)
  case (1 s)
  then show ?case
    by (cases "s = []") (simp_all add: utf8_valid.simps [of s] from_utf8_lossy.simps [of s] del: utf8_char.simps)
qed

lemma utf8_char_append:
  assumes "s \<noteq> []" "fst (utf8_char s)"
  shows "utf8_char (s @ t) = utf8_char s"
proof -
  obtain c r where s: "s = c # r" using assms(1) by (cases s) auto
  consider "utf8_width c = 1" | "utf8_width c = 2" "r \<noteq> []" | "utf8_width c = 3" "2 \<le> length r" | "4 \<le> utf8_width c" "3 \<le> length r"
    using assms(2) unfolding s by (simp add: Let_def split: if_splits)
  then show ?thesis unfolding s by cases (auto simp: Let_def nth_append)
qed

lemma utf8_valid_append: "utf8_valid s \<Longrightarrow> utf8_valid t \<Longrightarrow> utf8_valid (s @ t)"
proof (induction s rule: utf8_valid.induct)
  case (1 s)
  show ?case
  proof (cases "s = []")
    case False
    then have f: "fst (utf8_char s)" "utf8_valid (drop (snd (utf8_char s)) s)"
      using "1.prems"(1) by (simp_all add: utf8_valid.simps [of s] del: utf8_char.simps)
    have "utf8_valid (drop (snd (utf8_char s)) s @ t)" using "1.IH" False f "1.prems"(2) by blast
    moreover have "drop (snd (utf8_char s)) (s @ t) = drop (snd (utf8_char s)) s @ t"
      using utf8_char_bounds [OF False] by simp
    ultimately show ?thesis
      using False f(1) by (subst utf8_valid.simps) (simp add: utf8_char_append del: utf8_char.simps)
  qed (use 1 in simp)
qed

lemma utf8_valid_ascii: "(\<And>c. c \<in> set s \<Longrightarrow> (of_char c :: nat) < 128) \<Longrightarrow> utf8_valid s"
proof (induction s)
  case (Cons c s)
  then have "utf8_char (c # s) = (True, 1)" by (simp add: utf8_width_def Let_def)
  then show ?case using Cons by (subst utf8_valid.simps) simp
qed simp

lemma utf8_replacement: "utf8_valid [CHR 0xEF, CHR 0xBF, CHR 0xBD]"
  by code_simp

lemma utf8_take_char:
  assumes "s \<noteq> []" "fst (utf8_char s)"
  shows "utf8_valid (take (snd (utf8_char s)) s)"
proof -
  have "utf8_char (take (snd (utf8_char s)) s) = utf8_char s"
    using assms by (cases s) (auto simp: Let_def split: if_splits)
  moreover have "length (take (snd (utf8_char s)) s) = snd (utf8_char s)" "take (snd (utf8_char s)) s \<noteq> []"
    using utf8_char_bounds [OF assms(1)] assms(1) by auto
  ultimately show ?thesis using assms(2) by (subst utf8_valid.simps) (simp del: utf8_char.simps)
qed

lemma utf8_valid_lossy [simp]: "utf8_valid (from_utf8_lossy s)"
proof (induction s rule: from_utf8_lossy.induct)
  case (1 s)
  show ?case
  proof (cases "s = []")
    case False
    then show ?thesis using 1 utf8_take_char [OF False] utf8_replacement
      by (subst from_utf8_lossy.simps) (simp add: utf8_valid_append del: utf8_char.simps)
  qed simp
qed

end
