(* ===== verification/Stream_Framing.thy ===== *)
theory Stream_Framing
  imports Server_State Utf8
begin

text \<open>
  SIP over TCP and TLS, \<open>tcp_server.rs\<close>: messages are cut from the byte stream by their blank line and
  Content-Length, handed to a processor, and its answers and the messages queued for the peer are written
  back. The reader is given twice: as the loops of the source over the whole stream, and as the suspended
  computation that is fed byte by byte and dropped when the other branch of the \<open>select!\<close> is taken.
  \<open>mem n\<close> tells whether the allocator grants a body of \<open>n\<close> bytes; otherwise the task panics.
\<close>

section \<open>Reading one message\<close>

definition content_length_line :: "string \<Rightarrow> nat option" where
  "content_length_line line =
     (let lower = to_lower line in
      if prefix ''content-length:'' lower \<or> prefix ''l:'' lower
      then case find_char (CHR '':'') line of
             None \<Rightarrow> None
           | Some colon \<Rightarrow> parse_radix 10 (2 ^ 64 - 1) (trim (drop (colon + 1) line))
      else None)"

fun first_content_length :: "string list \<Rightarrow> nat" where
  "first_content_length [] = 0"
| "first_content_length (l # ls) = (case content_length_line l of Some n \<Rightarrow> n | None \<Rightarrow> first_content_length ls)"

definition extract_content_length :: "string \<Rightarrow> nat" where
  "extract_content_length headers = first_content_length (lines headers)"

text \<open>\<open>read_line\<close>: through the next line feed, or to the end of the stream.\<close>

definition read_line :: "string \<Rightarrow> string \<times> string" where
  "read_line bytes =
     (let l = takeWhile (\<lambda>c. c \<noteq> lf) bytes in
      (take (length l + 1) bytes, drop (length l + 1) bytes))"

definition is_blank_line :: "string \<Rightarrow> bool" where
  "is_blank_line line = (line = crlf \<or> line = [lf])"

datatype read_result = ReadClosed | ReadFailed | ReadPanic | ReadBlock string string

partial_function (option) read_headers :: "string \<Rightarrow> string \<Rightarrow> read_result option" where
  "read_headers headers_raw bytes =
     (let (line, rest) = read_line bytes in
      if line = [] then Some ReadClosed
      else if \<not> utf8_valid line then Some ReadFailed
      else if is_blank_line line then Some (ReadBlock (headers_raw @ line) rest)
      else read_headers (headers_raw @ line) rest)"

definition read_body :: "(nat \<Rightarrow> bool) \<Rightarrow> string \<Rightarrow> string \<Rightarrow> read_result" where
  "read_body mem headers_raw rest =
     (let content_length = extract_content_length headers_raw in
      if \<not> mem content_length then ReadPanic
      else if length rest < content_length then ReadFailed
      else ReadBlock (headers_raw @ from_utf8_lossy (take content_length rest)) (drop content_length rest))"

partial_function (option) read_next_sip_message :: "(nat \<Rightarrow> bool) \<Rightarrow> string \<Rightarrow> read_result option" where
  "read_next_sip_message mem bytes =
     Option.bind (read_headers [] bytes) (\<lambda>r.
       case r of
         ReadBlock headers_raw rest \<Rightarrow>
           (if trim headers_raw = [] then read_next_sip_message mem rest else Some (read_body mem headers_raw rest))
       | _ \<Rightarrow> Some r)"

section \<open>The loop over a connection\<close>

datatype conn_end = ConnClosed | ConnReadError | ConnWriteError | ConnCrashed

text \<open>What was written, the state of the processor, and how the loop ended.\<close>

type_synonym 's conn = "string list \<times> 's \<times> conn_end option"

definition process_message ::
  "(string \<Rightarrow> 's \<Rightarrow> (string, string option) outcome \<times> 's) \<Rightarrow> (string \<Rightarrow> bool) \<Rightarrow> string \<Rightarrow> string list \<Rightarrow> 's \<Rightarrow> 's conn" where
  "process_message process wfail raw written s =
     (case process raw s of
        (Ok (Some resp), s') \<Rightarrow> if wfail resp then (written, s', Some ConnWriteError) else (written @ [resp], s', None)
      | (Ok None, s') \<Rightarrow> (written, s', None)
      | (Err e, s') \<Rightarrow> (written, s', None)
      | (Panic, s') \<Rightarrow> (written, s', Some ConnCrashed))"

partial_function (option) serve ::
  "(string \<Rightarrow> 's \<Rightarrow> (string, string option) outcome \<times> 's) \<Rightarrow> (string \<Rightarrow> bool) \<Rightarrow> (nat \<Rightarrow> bool) \<Rightarrow> string \<Rightarrow> string list \<Rightarrow> 's
    \<Rightarrow> 's conn option" where
  "serve process wfail mem bytes written s =
     Option.bind (read_next_sip_message mem bytes) (\<lambda>r.
       case r of
         ReadClosed \<Rightarrow> Some (written, s, Some ConnClosed)
       | ReadFailed \<Rightarrow> Some (written, s, Some ConnReadError)
       | ReadPanic \<Rightarrow> Some (written, s, Some ConnCrashed)
       | ReadBlock raw rest \<Rightarrow>
           (let (written', s', ended) = process_message process wfail raw written s
            in if ended \<noteq> None then Some (written', s', ended) else serve process wfail mem rest written' s'))"

section \<open>The suspended reader\<close>

datatype reading = InLine string string | InBody string nat string

datatype feed_result = Waiting reading | Complete string | FeedFailed | FeedPanic

abbreviation fresh :: reading where "fresh \<equiv> InLine [] []"

fun feed_byte :: "(nat \<Rightarrow> bool) \<Rightarrow> char \<Rightarrow> reading \<Rightarrow> feed_result" where
  "feed_byte mem c (InLine headers_raw line) =
     (let line = line @ [c] in
      if c \<noteq> lf then Waiting (InLine headers_raw line)
      else if \<not> utf8_valid line then FeedFailed
      else if \<not> is_blank_line line then Waiting (InLine (headers_raw @ line) [])
      else if trim (headers_raw @ line) = [] then Waiting fresh
      else let headers = headers_raw @ line; content_length = extract_content_length headers in
           if \<not> mem content_length then FeedPanic
           else if content_length = 0 then Complete headers
           else Waiting (InBody headers content_length []))"
| "feed_byte mem c (InBody headers content_length got) =
     (let got = got @ [c] in
      if length got < content_length then Waiting (InBody headers content_length got)
      else Complete (headers @ from_utf8_lossy got))"

text \<open>End of the stream: a line without its end is checked, a body without its end is an error.\<close>

fun feed_eof :: "reading \<Rightarrow> conn_end" where
  "feed_eof (InLine headers_raw line) = (if utf8_valid line then ConnClosed else ConnReadError)"
| "feed_eof (InBody headers content_length got) = ConnReadError"

datatype conn_event = Arrive string | Deliver string | Hangup

type_synonym 's pump = "reading \<times> 's conn"

fun pump_byte ::
  "(string \<Rightarrow> 's \<Rightarrow> (string, string option) outcome \<times> 's) \<Rightarrow> (string \<Rightarrow> bool) \<Rightarrow> (nat \<Rightarrow> bool) \<Rightarrow> char \<Rightarrow> 's pump \<Rightarrow> 's pump" where
  "pump_byte process wfail mem c (r, written, s, Some e) = (r, written, s, Some e)"
| "pump_byte process wfail mem c (r, written, s, None) =
     (case feed_byte mem c r of
        Waiting r' \<Rightarrow> (r', written, s, None)
      | Complete raw \<Rightarrow> (fresh, process_message process wfail raw written s)
      | FeedFailed \<Rightarrow> (fresh, written, s, Some ConnReadError)
      | FeedPanic \<Rightarrow> (fresh, written, s, Some ConnCrashed))"

text \<open>A queued message wins the \<open>select!\<close>: the suspended read is dropped with what it had consumed.\<close>

fun pump_step ::
  "(string \<Rightarrow> 's \<Rightarrow> (string, string option) outcome \<times> 's) \<Rightarrow> (string \<Rightarrow> bool) \<Rightarrow> (nat \<Rightarrow> bool) \<Rightarrow> conn_event \<Rightarrow> 's pump \<Rightarrow> 's pump" where
  "pump_step process wfail mem (Arrive bytes) p = fold (pump_byte process wfail mem) bytes p"
| "pump_step process wfail mem (Deliver message) (r, written, s, ended) =
     (case ended of
        Some e \<Rightarrow> (r, written, s, ended)
      | None \<Rightarrow> if wfail message then (fresh, written, s, Some ConnWriteError) else (fresh, written @ [message], s, None))"
| "pump_step process wfail mem Hangup (r, written, s, ended) =
     (case ended of Some e \<Rightarrow> (r, written, s, ended) | None \<Rightarrow> (fresh, written, s, Some (feed_eof r)))"

text \<open>
  The connection with its entry in the stream registry. A panic skips \<open>unregister\<close>: the entry stays, and its
  receiving end is gone.
\<close>

definition pump_registered_stream ::
  "(string \<Rightarrow> 'a server_state_scheme \<Rightarrow> (string, string option) outcome \<times> 'a server_state_scheme) \<Rightarrow> (string \<Rightarrow> bool)
    \<Rightarrow> (nat \<Rightarrow> bool) \<Rightarrow> socket_addr \<Rightarrow> conn_event list \<Rightarrow> 'a server_state_scheme \<Rightarrow> 'a server_state_scheme conn" where
  "pump_registered_stream process wfail mem src events st =
     (case fold (pump_step process wfail mem) events (fresh, [], transport_register src st, None) of
        (r, written, st', ended) \<Rightarrow>
          (written,
           case ended of
             None \<Rightarrow> st'
           | Some ConnCrashed \<Rightarrow> st'\<lparr>sv_streams := hm_adjust src (\<lambda>_. None) (sv_streams st')\<rparr>
           | Some _ \<Rightarrow> transport_unregister src st',
           ended))"

lemma utf8_ascii: "list_all (\<lambda>c. (of_char c :: nat) < 128) s \<Longrightarrow> utf8_valid s"
  by (rule utf8_valid_ascii) (simp add: list_all_iff)

section \<open>The loops end\<close>

lemma read_line_split:
  assumes "bytes \<noteq> []"
  shows "fst (read_line bytes) \<noteq> []" "length (snd (read_line bytes)) < length bytes" "bytes = fst (read_line bytes) @ snd (read_line bytes)"
  using assms by (auto simp: read_line_def Let_def)

lemma read_line_nil [simp]: "read_line [] = ([], [])"
  by (simp add: read_line_def)

text \<open>A block leaves less of the stream than there was.\<close>

lemma read_headers_returns:
  "\<exists>r. read_headers h bytes = Some r \<and> (\<forall>b rest. r = ReadBlock b rest \<longrightarrow> length rest < length bytes)"
proof (induction "length bytes" arbitrary: h bytes rule: less_induct)
  case less
  show ?case
  proof (cases "bytes = []")
    case False
    obtain line rest where l: "read_line bytes = (line, rest)" by fastforce
    have d: "line \<noteq> []" "length rest < length bytes" using read_line_split [OF False] l by auto
    have "\<exists>r. read_headers (h @ line) rest = Some r \<and> (\<forall>b t. r = ReadBlock b t \<longrightarrow> length t < length rest)"
      by (rule less.hyps [OF d(2)])
    then show ?thesis using d l by (subst read_headers.simps) (auto intro: less_trans)
  qed (subst read_headers.simps, simp)
qed

lemma read_next_returns:
  "\<exists>r. read_next_sip_message mem bytes = Some r \<and> (\<forall>b rest. r = ReadBlock b rest \<longrightarrow> length rest < length bytes)"
proof (induction "length bytes" arbitrary: bytes rule: less_induct)
  case less
  obtain r where r: "read_headers [] bytes = Some r" "\<And>b rest. r = ReadBlock b rest \<Longrightarrow> length rest < length bytes"
    using read_headers_returns by blast
  show ?case
  proof (cases r)
    case (ReadBlock h rest)
    have d: "length rest < length bytes" using r(2) ReadBlock by blast
    have "\<exists>r. read_next_sip_message mem rest = Some r \<and> (\<forall>b t. r = ReadBlock b t \<longrightarrow> length t < length rest)"
      by (rule less.hyps [OF d])
    then show ?thesis using d r(1) ReadBlock
      by (subst read_next_sip_message.simps) (auto simp: read_body_def Let_def intro: less_trans)
  qed (use r in \<open>subst read_next_sip_message.simps; simp\<close>)+
qed

lemma serve_returns: "\<exists>r. serve process wfail mem bytes written s = Some r"
proof (induction "length bytes" arbitrary: bytes written s rule: less_induct)
  case less
  obtain r where r: "read_next_sip_message mem bytes = Some r" "\<And>b rest. r = ReadBlock b rest \<Longrightarrow> length rest < length bytes"
    using read_next_returns by blast
  show ?case
  proof (cases r)
    case (ReadBlock b rest)
    obtain w' s' e where p: "process_message process wfail b written s = (w', s', e)" by (metis prod_cases3)
    show ?thesis using r ReadBlock less.hyps [of rest w' s'] p by (subst serve.simps) simp
  qed (use r in \<open>subst serve.simps; simp\<close>)+
qed

section \<open>The suspended reader computes the loops\<close>

text \<open>Feeding the bytes of one line.\<close>

abbreviation pump_bytes where "pump_bytes process wfail mem bytes \<equiv> fold (pump_byte process wfail mem) bytes"

lemma pump_ended [simp]: "pump_bytes process wfail mem bytes (r, w, s, Some e) = (r, w, s, Some e)"
  by (induction bytes) simp_all

lemma pump_partial_line:
  "lf \<notin> set bytes \<Longrightarrow> pump_bytes process wfail mem bytes (InLine h l, w, s, None) = (InLine h (l @ bytes), w, s, None)"
  by (induction bytes arbitrary: l) (auto simp: Let_def)

lemma pump_partial_body:
  "length got + length bytes < n \<Longrightarrow>
     pump_bytes process wfail mem bytes (InBody h n got, w, s, None) = (InBody h n (got @ bytes), w, s, None)"
  by (induction bytes arbitrary: got) (auto simp: Let_def)

lemma read_line_lf:
  assumes "lf \<notin> set l"
  shows "read_line (l @ lf # rest) = (l @ [lf], rest)"
proof -
  have "takeWhile (\<lambda>c. c \<noteq> lf) (l @ lf # rest) = l" using assms by (induction l) auto
  then show ?thesis by (simp add: read_line_def)
qed

lemma read_line_cases:
  obtains (whole) l rest where "lf \<notin> set l" "bytes = l @ lf # rest" "read_line bytes = (l @ [lf], rest)"
  | (last) "lf \<notin> set bytes" "read_line bytes = (bytes, [])"
proof (cases "lf \<in> set bytes")
  case True
  then obtain l rest where b: "bytes = l @ lf # rest" "lf \<notin> set l" using split_list_first by fastforce
  then show ?thesis using whole read_line_lf by blast
next
  case False
  then have t: "takeWhile (\<lambda>c. c \<noteq> lf) bytes = bytes" by (auto simp: takeWhile_eq_all_conv)
  have "read_line bytes = (bytes, [])" unfolding read_line_def Let_def t by simp
  then show ?thesis using False last by blast
qed

text \<open>What the reader does with the block of headers that \<open>read_headers\<close> finds.\<close>

definition ended_by :: "read_result \<Rightarrow> conn_end" where
  "ended_by r = (case r of ReadClosed \<Rightarrow> ConnClosed | ReadFailed \<Rightarrow> ConnReadError | _ \<Rightarrow> ConnCrashed)"

definition resume :: "(nat \<Rightarrow> bool) \<Rightarrow> string \<Rightarrow> string \<Rightarrow> read_result option" where
  "resume mem h bytes = Option.bind (read_headers h bytes) (\<lambda>r.
     case r of
       ReadBlock hs rest \<Rightarrow> (if trim hs = [] then read_next_sip_message mem rest else Some (read_body mem hs rest))
     | _ \<Rightarrow> Some r)"

lemma read_next_resume: "read_next_sip_message mem bytes = resume mem [] bytes"
  by (subst read_next_sip_message.simps) (simp add: resume_def)

definition outcome_of ::
  "(string \<Rightarrow> 's \<Rightarrow> (string, string option) outcome \<times> 's) \<Rightarrow> (string \<Rightarrow> bool) \<Rightarrow> (nat \<Rightarrow> bool) \<Rightarrow> string list \<Rightarrow> 's \<Rightarrow> read_result \<Rightarrow> 's pump" where
  "outcome_of process wfail mem w s r = (case r of
     ReadBlock raw rest \<Rightarrow> pump_bytes process wfail mem rest (fresh, process_message process wfail raw w s)
   | _ \<Rightarrow> (fresh, w, s, Some (ended_by r)))"

lemma resume_line:
  assumes "lf \<notin> set l"
  shows "resume mem h (l @ lf # rest) =
    (let line = l @ [lf] in
     if \<not> utf8_valid line then Some ReadFailed
     else if \<not> is_blank_line line then resume mem (h @ line) rest
     else if trim (h @ line) = [] then resume mem [] rest
     else Some (read_body mem (h @ line) rest))"
  unfolding resume_def using read_line_lf [OF assms]
  by (subst read_headers.simps) (simp add: Let_def read_next_resume [unfolded resume_def])

lemma pump_body:
  assumes "0 < n"
  shows "snd (pump_step process wfail mem Hangup (pump_bytes process wfail mem rest (InBody hs n [], w, s, None))) =
    (if length rest < n then (w, s, Some ConnReadError)
     else snd (pump_step process wfail mem Hangup
       (pump_bytes process wfail mem (drop n rest) (fresh, process_message process wfail (hs @ from_utf8_lossy (take n rest)) w s))))"
proof (cases "length rest < n")
  case False
  then obtain a c t where r: "rest = a @ c # t" "Suc (length a) = n"
    using assms id_take_nth_drop [of "n - 1" rest] by (metis Suc_pred' diff_less length_take less_imp_diff_less min.absorb4 not_less_eq not_less zero_less_one less_Suc_eq_le)
  then have "n = Suc (length a)" by simp
  then show ?thesis using r(1) by (simp add: pump_partial_body)
qed (simp add: pump_partial_body)

lemma pump_resume:
  assumes "resume mem h bytes = Some r"
  shows "snd (pump_step process wfail mem Hangup (pump_bytes process wfail mem bytes (InLine h [], w, s, None))) =
    snd (pump_step process wfail mem Hangup (outcome_of process wfail mem w s r))"
  using assms
proof (induction "length bytes" arbitrary: h bytes rule: less_induct)
  case less
  show ?case
  proof (cases rule: read_line_cases [of bytes])
    case (whole l rest)
    let ?line = "l @ [lf]"
    have shorter: "length rest < length bytes" using whole by simp
    have fed: "pump_bytes process wfail mem bytes (InLine h [], w, s, None) =
        pump_bytes process wfail mem rest (pump_byte process wfail mem lf (InLine h l, w, s, None))"
      using whole by (simp add: pump_partial_line)
    consider (bad) "\<not> utf8_valid ?line" | (more) "utf8_valid ?line" "\<not> is_blank_line ?line"
      | (skip) "utf8_valid ?line" "is_blank_line ?line" "trim (h @ ?line) = []"
      | (block) "utf8_valid ?line" "is_blank_line ?line" "trim (h @ ?line) \<noteq> []" by blast
    then show ?thesis
    proof cases
      case bad
      then show ?thesis using less.prems resume_line [OF whole(1), of mem h rest] whole fed
        by (auto simp: outcome_of_def ended_by_def)
    next
      case more
      then show ?thesis using less.prems less.hyps [OF shorter] resume_line [OF whole(1), of mem h rest] whole fed by simp
    next
      case skip
      then show ?thesis using less.prems less.hyps [OF shorter] resume_line [OF whole(1), of mem h rest] whole fed by simp
    next
      case block
      then have r: "r = read_body mem (h @ ?line) rest"
        using less.prems resume_line [OF whole(1), of mem h rest] whole by simp
      show ?thesis
      proof (cases "extract_content_length (h @ ?line)")
        case 0
        then show ?thesis using block fed r by (simp add: read_body_def outcome_of_def ended_by_def Let_def)
      next
        case (Suc n)
        then show ?thesis using block fed r pump_body [of "Suc n" process wfail mem rest "h @ ?line" w s] by (simp add: read_body_def outcome_of_def ended_by_def Let_def)
      qed
    qed
  next
    case last
    have "read_headers (h @ bytes) [] = Some ReadClosed" by (subst read_headers.simps) simp
    moreover have "\<not> is_blank_line bytes" using last by (auto simp: is_blank_line_def)
    ultimately have "r = (if utf8_valid bytes then ReadClosed else ReadFailed)"
      using less.prems last unfolding resume_def by (subst (asm) read_headers.simps) (auto split: if_splits)
    then show ?thesis using last by (simp add: pump_partial_line outcome_of_def ended_by_def)
  qed
qed

lemma serve_pump:
  "serve process wfail mem bytes w s = Some (snd (pump_step process wfail mem Hangup (pump_bytes process wfail mem bytes (fresh, w, s, None))))"
proof (induction "length bytes" arbitrary: bytes w s rule: less_induct)
  case less
  obtain r where r: "read_next_sip_message mem bytes = Some r" "\<And>b rest. r = ReadBlock b rest \<Longrightarrow> length rest < length bytes"
    using read_next_returns by blast
  have p: "snd (pump_step process wfail mem Hangup (pump_bytes process wfail mem bytes (fresh, w, s, None))) =
      snd (pump_step process wfail mem Hangup (outcome_of process wfail mem w s r))"
    using r(1) unfolding read_next_resume by (rule pump_resume)
  show ?case unfolding p
  proof (cases r)
    case (ReadBlock b rest)
    obtain w' s' e where q: "process_message process wfail b w s = (w', s', e)" by (metis prod_cases3)
    show "serve process wfail mem bytes w s = Some (snd (pump_step process wfail mem Hangup (outcome_of process wfail mem w s r)))"
      using r ReadBlock less.hyps [of rest w' s'] q by (subst serve.simps) (auto simp: outcome_of_def)
  qed (use r in \<open>subst serve.simps; simp add: outcome_of_def ended_by_def\<close>)+
qed


section \<open>Well framed messages\<close>

definition header_block :: "string list \<Rightarrow> string" where
  "header_block ls = concat (map (\<lambda>l. l @ crlf) ls) @ crlf"

definition frame :: "string list \<times> string \<Rightarrow> string" where
  "frame m = header_block (fst m) @ snd m"

definition well_framed :: "(nat \<Rightarrow> bool) \<Rightarrow> string list \<times> string \<Rightarrow> bool" where
  "well_framed mem m =
     (list_all (\<lambda>l. l \<noteq> [] \<and> lf \<notin> set l \<and> utf8_valid (l @ crlf)) (fst m) \<and> trim (header_block (fst m)) \<noteq> [] \<and>
      extract_content_length (header_block (fst m)) = length (snd m) \<and> utf8_valid (snd m) \<and> mem (length (snd m)))"

fun process_all ::
  "(string \<Rightarrow> 's \<Rightarrow> (string, string option) outcome \<times> 's) \<Rightarrow> (string \<Rightarrow> bool) \<Rightarrow> string list \<Rightarrow> string list \<Rightarrow> 's \<Rightarrow> 's conn" where
  "process_all process wfail [] written s = (written, s, Some ConnClosed)"
| "process_all process wfail (raw # raws) written s =
     (let (written', s', ended) = process_message process wfail raw written s
      in if ended \<noteq> None then (written', s', ended) else process_all process wfail raws written' s')"

lemma blank_crlf: "is_blank_line crlf" "utf8_valid crlf"
  by (simp add: is_blank_line_def) (rule utf8_valid_ascii, auto)

lemma not_blank: "l \<noteq> [] \<Longrightarrow> \<not> is_blank_line (l @ crlf)"
  by (simp add: is_blank_line_def)

lemma read_headers_block:
  assumes "list_all (\<lambda>l. l \<noteq> [] \<and> lf \<notin> set l \<and> utf8_valid (l @ crlf)) ls"
  shows "read_headers h (header_block ls @ rest) = Some (ReadBlock (h @ header_block ls) rest)"
  using assms
proof (induction ls arbitrary: h)
  case Nil
  then show ?case using read_line_lf [of "[cr]" rest] blank_crlf
    by (subst read_headers.simps) (simp add: header_block_def)
next
  case (Cons l ls)
  have "header_block (l # ls) @ rest = (l @ [cr]) @ lf # header_block ls @ rest" by (simp add: header_block_def)
  moreover have "lf \<notin> set (l @ [cr])" using Cons.prems by simp
  ultimately have "read_line (header_block (l # ls) @ rest) = (l @ crlf, header_block ls @ rest)"
    using read_line_lf [of "l @ [cr]" "header_block ls @ rest"] by simp
  then show ?case using Cons not_blank [of l]
    by (subst read_headers.simps) (simp add: header_block_def)
qed

lemma read_next_frame:
  assumes "well_framed mem m"
  shows "read_next_sip_message mem (frame m @ rest) = Some (ReadBlock (frame m) rest)"
  using assms read_headers_block [of "fst m" "[]" "snd m @ rest"]
  by (subst read_next_sip_message.simps) (simp add: well_framed_def frame_def read_body_def lossy_valid)

lemma serve_frames:
  assumes "list_all (well_framed mem) ms"
  shows "serve process wfail mem (concat (map frame ms)) w s = Some (process_all process wfail (map frame ms) w s)"
  using assms
proof (induction ms arbitrary: w s)
  case Nil
  have "read_next_sip_message mem [] = Some ReadClosed"
    by (subst read_next_sip_message.simps, subst read_headers.simps) simp
  then show ?case by (subst serve.simps) simp
next
  case (Cons m ms)
  then have "read_next_sip_message mem (concat (map frame (m # ms))) = Some (ReadBlock (frame m) (concat (map frame ms)))"
    using read_next_frame [of mem m "concat (map frame ms)"] by simp
  then show ?case using Cons by (subst serve.simps) (simp add: split_beta)
qed

lemma trim_ne:
  assumes "c \<in> set s" "\<not> is_whitespace c"
  shows "trim s \<noteq> []"
proof -
  have ne: "dropWhile is_whitespace s \<noteq> []" using assms by (auto simp: dropWhile_eq_Nil_conv)
  then have "\<not> is_whitespace (hd (dropWhile is_whitespace s))" by (rule hd_dropWhile)
  then have "dropWhile is_whitespace (rev (dropWhile is_whitespace s)) \<noteq> []"
    using hd_in_set [OF ne] by (simp only: dropWhile_eq_Nil_conv set_rev) blast
  then show ?thesis by (simp add: trim_def trim_start_def trim_end_def)
qed

lemma content_length_line_show:
  assumes "n < 2 ^ 64"
  shows "content_length_line (''Content-Length: '' @ show_nat n) = Some n"
proof -
  have "find_char (CHR '':'') (''Content-Length: '' @ show_nat n) = Some 14"
    using find_char_append [of "CHR '':''" "''Content-Length''" "CHR '' '' # show_nat n"] by simp
  moreover have "prefix ''content-length:'' (to_lower (''Content-Length: '' @ show_nat n))"
  proof -
    have "to_lower ''Content-Length: '' = ''content-length: ''" by code_simp
    then show ?thesis unfolding to_lower_append by simp
  qed
  moreover have "trim (drop 15 (''Content-Length: '' @ show_nat n)) = show_nat n"
    using show_radix_trimmed [of 10 n] by (simp add: trim_trimmed)
  ultimately show ?thesis using assms parse_show_radix [of 10 n "2 ^ 64 - 1"] by (simp add: content_length_line_def Let_def)
qed

text \<open>Every message that ends its headers with its true length is well framed.\<close>

lemma well_framedI:
  assumes "\<And>l. l \<in> set ls \<Longrightarrow> l \<noteq> [] \<and> lf \<notin> set l \<and> utf8_valid l \<and> content_length_line l = None"
    and "utf8_valid body" "mem (length body)" "length body < 2 ^ 64"
  shows "well_framed mem (ls @ [''Content-Length: '' @ show_nat (length body)], body)"
proof -
  let ?c = "''Content-Length: '' @ show_nat (length body)"
  have c: "lf \<notin> set ?c" by (simp add: show_radix_no_ws)
  have ascii: "utf8_valid crlf" "utf8_valid ?c"
  proof -
    have "(of_char d :: nat) < 128" if d: "d \<in> set (show_nat (length body))" for d
    proof -
      obtain i where "i < 10" "d = digit_char i" using show_radix_digits [of 10 "length body"] d by auto
      then show ?thesis by (simp add: digit_char_def)
    qed
    then show "utf8_valid ?c" by (intro utf8_valid_ascii) auto
  qed (rule blank_crlf)
  have "lines (header_block (ls @ [?c])) = (ls @ [?c]) @ lines crlf"
    unfolding header_block_def by (rule lines_concat_crlf) (use assms(1) c in auto)
  moreover have "first_content_length (ls @ [?c] @ t) = length body" for t
    using assms(1) content_length_line_show [OF assms(4)] by (induction ls) auto
  ultimately have "extract_content_length (header_block (ls @ [?c])) = length body" by (simp add: extract_content_length_def)
  moreover have "trim (header_block (ls @ [?c])) \<noteq> []"
    by (rule trim_ne [of "CHR ''C''"]) (auto simp: header_block_def is_whitespace_def)
  moreover have "utf8_valid (l @ crlf)" "l \<noteq> []" "lf \<notin> set l" if "l \<in> set (ls @ [?c])" for l
    using that assms(1) c utf8_valid_append [OF ascii(2,1)] utf8_valid_append [OF _ ascii(1)] by (auto simp del: append_Cons append_Nil simp: append_Cons [symmetric])
  ultimately show ?thesis
    using assms(2-3) unfolding well_framed_def list_all_iff fst_conv snd_conv by blast
qed

lemma pump_line:
  assumes "l \<noteq> []" "lf \<notin> set l" "utf8_valid (l @ crlf)"
  shows "pump_bytes process wfail mem (l @ crlf) (InLine h [], w, s, None) = (InLine (h @ l @ crlf) [], w, s, None)"
  using assms not_blank [of l] by (simp add: pump_partial_line Let_def)

lemma pump_lines:
  assumes "list_all (\<lambda>l. l \<noteq> [] \<and> lf \<notin> set l \<and> utf8_valid (l @ crlf)) ls"
  shows "pump_bytes process wfail mem (concat (map (\<lambda>l. l @ crlf) ls)) (InLine h [], w, s, None) =
    (InLine (h @ concat (map (\<lambda>l. l @ crlf) ls)) [], w, s, None)"
  using assms
proof (induction ls arbitrary: h)
  case (Cons l ls)
  then show ?case using pump_line [of l process wfail mem h w s] by simp
qed simp

text \<open>Before its last byte a message leaves the processor alone.\<close>

lemma pump_header_prefix:
  assumes "list_all (\<lambda>l. l \<noteq> [] \<and> lf \<notin> set l \<and> utf8_valid (l @ crlf)) ls" "header_block ls = a @ b" "b \<noteq> []"
  shows "\<exists>h' l'. pump_bytes process wfail mem a (InLine h [], w, s, None) = (InLine h' l', w, s, None)"
  using assms
proof (induction ls arbitrary: h a)
  case Nil
  then have "a = [] \<or> a = [cr]" by (auto simp: header_block_def Cons_eq_append_conv)
  then show ?case by (auto simp: Let_def)
next
  case (Cons l ls)
  have split: "(l @ crlf) @ header_block ls = a @ b" using Cons.prems(2) by (simp add: header_block_def)
  show ?case
  proof (cases "length a < length (l @ crlf)")
    case True
    have "a @ b = (l @ [cr]) @ lf # header_block ls" using split by simp
    then have "take (length a) (a @ b) = take (length a) (l @ [cr])" using True by (simp only: take_append) simp
    then have "set a \<subseteq> set (l @ [cr])" using set_take_subset [of "length a" "l @ [cr]"] by simp
    then have "lf \<notin> set a" using Cons.prems(1) by auto
    then show ?thesis by (simp add: pump_partial_line)
  next
    case False
    obtain us where us: "l @ crlf = a @ us \<and> us @ header_block ls = b \<or> (l @ crlf) @ us = a \<and> header_block ls = us @ b"
      using split append_eq_append_conv2 [of "l @ crlf" "header_block ls" a b] by blast
    have "us = []" if "l @ crlf = a @ us" using that False arg_cong [OF that, of length] by simp
    then obtain a' where a': "a = (l @ crlf) @ a'" "header_block ls = a' @ b" using us by auto
    then show ?thesis using Cons.IH [of a' "h @ l @ crlf"] Cons.prems(1,3) pump_line [of l process wfail mem h w s] by simp
  qed
qed


lemma pump_frame_prefix:
  assumes "well_framed mem m" "frame m = a @ b" "b \<noteq> []"
  shows "\<exists>r. pump_bytes process wfail mem a (fresh, w, s, None) = (r, w, s, None)"
proof (cases "length a < length (header_block (fst m))")
  case True
  have "take (length a) (frame m) = take (length a) (header_block (fst m))" using True by (simp add: frame_def)
  then have t: "take (length a) (header_block (fst m)) = a" unfolding assms(2) by simp
  have "header_block (fst m) = a @ drop (length a) (header_block (fst m))"
    using append_take_drop_id [of "length a" "header_block (fst m)"] unfolding t by (rule sym)
  moreover have "drop (length a) (header_block (fst m)) \<noteq> []" using True by simp
  ultimately have "\<exists>h' l'. pump_bytes process wfail mem a (fresh, w, s, None) = (InLine h' l', w, s, None)"
    by (intro pump_header_prefix [of "fst m"]) (use assms(1) in \<open>simp_all only: well_framed_def\<close>)
  then show ?thesis by blast
next
  case False
  then have len_le: "length (header_block (fst m)) \<le> length a" by simp
  obtain us where us: "header_block (fst m) = a @ us \<and> us @ snd m = b \<or> header_block (fst m) @ us = a \<and> snd m = us @ b"
    using assms(2) append_eq_append_conv2 [of "header_block (fst m)" "snd m" a b] unfolding frame_def by blast
  have "us = []" if "header_block (fst m) = a @ us" using len_le arg_cong [OF that, of length] by simp
  then obtain a' where a': "a = header_block (fst m) @ a'" "snd m = a' @ b" using us by (metis append_Nil append_Nil2)
  have f: "list_all (\<lambda>l. l \<noteq> [] \<and> lf \<notin> set l \<and> utf8_valid (l @ crlf)) (fst m)" "trim (header_block (fst m)) \<noteq> []"
    "extract_content_length (header_block (fst m)) = length (snd m)" "mem (length (snd m))"
    using assms(1) by (simp_all add: well_framed_def)
  have len: "length a' < length (snd m)" using a'(2) assms(3) by simp
  have "pump_bytes process wfail mem (header_block (fst m)) (fresh, w, s, None) = (InBody (header_block (fst m)) (length (snd m)) [], w, s, None)"
  proof -
    define hs where "hs = concat (map (\<lambda>l. l @ crlf) (fst m))"
    have hb: "header_block (fst m) = hs @ crlf" by (simp add: header_block_def hs_def)
    have "pump_bytes process wfail mem hs (fresh, w, s, None) = (InLine hs [], w, s, None)"
      unfolding hs_def using pump_lines [OF f(1), of process wfail mem "[]" w s] by simp
    then show ?thesis using f(2-4) blank_crlf len unfolding hb by (auto simp: Let_def)
  qed
  then show ?thesis using a'(1) len by (simp add: pump_partial_body)
qed

section \<open>The properties of the stream\<close>

text \<open>
  C34: The connection loop ends: on every finite stream, whatever its bytes and whatever the processor answers, the loops that
  read lines, skip blank blocks and handle messages return, and they return by an end of the connection.
\<close>

theorem stream_reads_terminate:
  "\<exists>written' s' e. serve process wfail mem bytes written s = Some (written', s', Some e)"
proof -
  have "\<exists>e. snd (snd (snd (pump_step process wfail mem Hangup p))) = Some e" for p
    by (cases p) (auto split: option.splits)
  then show ?thesis unfolding serve_pump by (metis prod.collapse)
qed

text \<open>
  C35: Segmentation does not matter: however a stream is cut into arriving segments, the reader that is suspended between them
  handles the same messages and ends the same way as the loops of the source on the whole stream, as long as no message is
  queued for the peer meanwhile.
\<close>

theorem stream_segmentation:
  "serve process wfail mem (concat chunks) written s =
     Some (snd (fold (pump_step process wfail mem) (map Arrive chunks @ [Hangup]) (fresh, written, s, None)))"
proof -
  have "fold (pump_step process wfail mem) (map Arrive chunks) p = pump_bytes process wfail mem (concat chunks) p" for p
    by (induction chunks arbitrary: p) simp_all
  then show ?thesis by (simp add: serve_pump)
qed

text \<open>
  C36: Framing: a stream of messages with complete header blocks and true Content-Length is cut exactly at their boundaries;
  the processor gets each message unchanged and in order until it fails or the stream ends.
\<close>

theorem stream_frames:
  assumes "list_all (well_framed mem) ms"
  shows "serve process wfail mem (concat (map frame ms)) written s = Some (process_all process wfail (map frame ms) written s)"
  by (rule serve_frames [OF assms])

text \<open>
  An outbound message destroys a partly received one: if a message of the peer arrives in two parts and a message queued
  for the peer is written in between, the first part is lost and the processor is given what the second part reads as.
\<close>

theorem outbound_drops_partial:
  assumes "well_framed mem m" "frame m = a @ b" "b \<noteq> []" "\<not> wfail out"
  shows "Some (snd (fold (pump_step process wfail mem) [Arrive a, Deliver out, Arrive b, Hangup] (fresh, written, s, None))) =
    serve process wfail mem b (written @ [out]) s"
  using pump_frame_prefix [OF assms(1-3), of process wfail written s] assms(4) by (auto simp: serve_pump)

definition example_info :: "string list \<times> string" where
  "example_info = ([''INFO sip:a SIP/2.0'', ''Content-Length: '' @ show_nat (length ''ab'')], ''ab'')"

definition example_options :: "string list \<times> string" where
  "example_options = ([''OPTIONS sip:b SIP/2.0'', ''Content-Length: '' @ show_nat (length ([] :: string))], [])"

text \<open>A processor that keeps the messages it is given.\<close>

definition example_keep :: "string \<Rightarrow> string list \<Rightarrow> (string, string option) outcome \<times> string list" where
  "example_keep raw s = (Ok (Some ''ok''), s @ [raw])"

lemma example_framed: "list_all (well_framed (\<lambda>n. n < 10)) [example_info, example_options]"
proof -
  have l: "content_length_line ''INFO sip:a SIP/2.0'' = None" "content_length_line ''OPTIONS sip:b SIP/2.0'' = None" by code_simp+
  have "well_framed (\<lambda>n. n < 10) ([''INFO sip:a SIP/2.0''] @ [''Content-Length: '' @ show_nat (length ''ab'')], ''ab'')"
    by (rule well_framedI) (simp_all add: l utf8_ascii)
  moreover have "well_framed (\<lambda>n. n < 10) ([''OPTIONS sip:b SIP/2.0''] @ [''Content-Length: '' @ show_nat (length ([] :: string))], [])"
    by (rule well_framedI) (simp_all add: l utf8_ascii)
  ultimately show ?thesis by (simp add: example_info_def example_options_def)
qed

theorem stream_frames_witness:
  "serve example_keep (\<lambda>m. False) (\<lambda>n. n < 10) (frame example_info @ frame example_options) [] [] =
     Some ([''ok'', ''ok''], [frame example_info, frame example_options], Some ConnClosed)"
  using stream_frames [OF example_framed, of example_keep "\<lambda>m. False" "[]" "[]"]
  by (simp add: process_message_def example_keep_def)

text \<open>The INFO is cut inside its first line; what is left of it is read as another message.\<close>

theorem outbound_drops_partial_witness:
  "snd (fold (pump_step example_keep (\<lambda>m. False) (\<lambda>n. n < 10))
     [Arrive ''INF'', Deliver ''NOTIFY'', Arrive (drop 3 (frame example_info)), Hangup] (fresh, [], [], None)) =
   ([''NOTIFY'', ''ok''], [drop 3 (frame example_info)], Some ConnClosed)"
proof -
  let ?rest = "([''O sip:a SIP/2.0''] @ [''Content-Length: '' @ show_nat (length ''ab'')], ''ab'') :: string list \<times> string"
  have "content_length_line ''O sip:a SIP/2.0'' = None" by code_simp
  then have f: "well_framed (\<lambda>n. n < 10) ?rest" by (intro well_framedI) (simp_all add: utf8_ascii)
  have fr: "frame ?rest = drop 3 (frame example_info)" "frame example_info = ''INF'' @ drop 3 (frame example_info)"
    "drop 3 (frame example_info) \<noteq> []"
    by (simp_all add: frame_def header_block_def example_info_def)
  have r: "serve example_keep (\<lambda>m. False) (\<lambda>n. n < 10) (drop 3 (frame example_info)) [''NOTIFY''] [] =
      Some ([''NOTIFY'', ''ok''], [drop 3 (frame example_info)], Some ConnClosed)"
    using serve_frames [of "\<lambda>n. n < 10" "[?rest]" example_keep "\<lambda>m. False" "[''NOTIFY'']" "[]"] f fr(1)
    by (simp add: process_message_def example_keep_def)
  have w: "well_framed (\<lambda>n. n < 10) example_info" using example_framed by simp
  have "Some (snd (fold (pump_step example_keep (\<lambda>m. False) (\<lambda>n. n < 10))
      [Arrive ''INF'', Deliver ''NOTIFY'', Arrive (drop 3 (frame example_info)), Hangup] (fresh, [], [], None))) =
    serve example_keep (\<lambda>m. False) (\<lambda>n. n < 10) (drop 3 (frame example_info)) ([] @ [''NOTIFY'']) []"
    by (rule outbound_drops_partial [OF w fr(2,3)]) simp
  then show ?thesis unfolding append_Nil r by (rule option.inject [THEN iffD1])
qed

end
