(* ===== verification/G711.thy ===== *)
theory G711
  imports Rust_Num
begin

text \<open>
  \<open>backend/src/sip/g711.rs\<close>: the mu-law and A-law codecs on 16-bit samples. The arithmetic is kept at
  the width of the sources; the negation that overflows for the least sample panics in a build with
  overflow checks and wraps in one without. Both codecs meet the interface \<open>companding\<close>.
\<close>

section \<open>Definitions\<close>

definition BIAS :: i16 where "BIAS = 0x84"

definition CLIP :: i16 where "CLIP = 32635"

definition sat_add16 :: "i16 \<Rightarrow> i16 \<Rightarrow> i16" where
  "sat_add16 a b = word_of_int (max (- 32768) (min 32767 (sint a + sint b)))"

definition sat_neg16 :: "i16 \<Rightarrow> i16" where
  "sat_neg16 a = word_of_int (min 32767 (- sint a))"

text \<open>The search for the segment: the exponent of the loop is its fuel.\<close>

fun find_segment :: "nat \<Rightarrow> i16 \<Rightarrow> i16 \<Rightarrow> nat" where
  "find_segment 0 m pcm = 0"
| "find_segment (Suc exponent) m pcm =
     (if pcm AND m = 0 then find_segment exponent (drop_bit 1 m) pcm else Suc exponent)"

text \<open>The samples shifted right below are not negative, so the arithmetic shift is \<open>drop_bit\<close>.\<close>

definition linear_to_ulaw :: "bool \<Rightarrow> i16 \<Rightarrow> u8 option" where
  "linear_to_ulaw overflow_checks pcm =
     (let neg = sint pcm < 0 in
      if neg \<and> overflow_checks \<and> sint (sat_add16 pcm 0) = - 32768 then None
      else
        (let pcm1 = (if neg
               then (let p = - sat_add16 pcm 0 in if sint p < 0 then 0x7FFF else p)
               else pcm);
             sign = (if neg then 0x80 else 0 :: u8);
             pcm2 = (if sint CLIP < sint pcm1 then CLIP else pcm1);
             pcm3 = sat_add16 pcm2 BIAS;
             exponent = find_segment 7 0x4000 pcm3;
             mantissa = (ucast (drop_bit (exponent + 3) pcm3 AND 0x0F) :: u8)
         in Some (NOT (sign OR push_bit 4 (of_nat exponent) OR mantissa))))"

definition ulaw_to_linear :: "u8 \<Rightarrow> i16" where
  "ulaw_to_linear ulaw =
     (let u = NOT ulaw;
          sign = u AND 0x80;
          exponent = drop_bit 4 u AND 0x07;
          mantissa = u AND 0x0F;
          magnitude = push_bit (unat exponent) (push_bit 3 (ucast mantissa) OR 0x84) :: i16;
          sample = magnitude - BIAS
      in if sign \<noteq> 0 then - sample else sample)"

definition linear_to_alaw :: "i16 \<Rightarrow> u8" where
  "linear_to_alaw pcm =
     (let neg = sint pcm < 0;
          pcm1 = (if neg then (let p = sat_neg16 pcm in if sint p < 0 then 0x7FFF else p) else pcm);
          sign = (if neg then 0x00 else 0x80 :: u8);
          pcm2 = (if sint CLIP < sint pcm1 then CLIP else pcm1);
          alaw = (if sint pcm2 < 256
             then (ucast (drop_bit 4 pcm2 AND 0x0F) :: u8)
             else (let exponent = find_segment 7 0x4000 pcm2;
                       mantissa = (ucast (drop_bit (exponent + 3) pcm2 AND 0x0F) :: u8)
                   in push_bit 4 (of_nat exponent) OR mantissa))
      in (alaw OR sign) XOR 0x55)"

definition alaw_to_linear :: "u8 \<Rightarrow> i16" where
  "alaw_to_linear alaw =
     (let a = alaw XOR 0x55;
          sign = a AND 0x80;
          exponent = drop_bit 4 a AND 0x07;
          mantissa = ucast (a AND 0x0F) :: i16;
          magnitude = (if exponent = 0 then push_bit 4 mantissa OR 0x08
             else push_bit (unat (exponent - 1)) (push_bit 4 mantissa OR 0x108))
      in if sign \<noteq> 0 then magnitude else - magnitude)"

text \<open>The buffer functions; \<open>None\<close> when one of the samples panics.\<close>

definition encode_ulaw :: "bool \<Rightarrow> i16 list \<Rightarrow> u8 list option" where
  "encode_ulaw overflow_checks pcm =
     those (map (linear_to_ulaw overflow_checks) pcm)"

definition encode_alaw :: "i16 list \<Rightarrow> u8 list" where
  "encode_alaw pcm = map linear_to_alaw pcm"

definition decode_ulaw :: "u8 list \<Rightarrow> i16 list" where
  "decode_ulaw payload = map ulaw_to_linear payload"

definition decode_alaw :: "u8 list \<Rightarrow> i16 list" where
  "decode_alaw payload = map alaw_to_linear payload"

section \<open>From words to numbers\<close>

lemma unat_bit: "bit (w :: 'a::len word) n \<longleftrightarrow> odd (unat w div 2 ^ n)"
  by (metis bit_iff_odd bit_unsigned_iff bit_word_iff_drop_bit_and drop_bit_eq_div  bit_imp_le_length possible_bit_nat)

lemma sint16: "sint (w :: i16) = (if unat w < 32768 then int (unat w) else int (unat w) - 65536)"
proof -
  have u: "0 \<le> uint w" "uint w < 65536" using unsigned_less [of w, where 'a = int] by simp_all
  have "sint w = signed_take_bit 15 (uint w)" by (simp add: sint_uint)
  also have "\<dots> = (if uint w < 32768 then uint w else uint w - 65536)"
  proof -
    have "uint w div 32768 = (if uint w < 32768 then 0 else 1)"
      using u by (auto simp: div_pos_pos_trivial)
    then show ?thesis
      using u by (simp add: signed_take_bit_eq_take_bit_minus bit_iff_odd take_bit_eq_mod)
  qed
  finally have s: "sint w = (if uint w < 32768 then uint w else uint w - 65536)" .
  have u: "uint w = int (unat w)" by simp
  show ?thesis using s unfolding u of_nat_less_numeral_iff .
qed

lemma find_segment_at:
  assumes "2 ^ (k + 7) \<le> unat y" "unat y < 2 ^ (k + 8)" "k \<le> e" "e \<le> 7"
  shows "find_segment e (2 ^ (e + 7)) y = k"
  using assms
proof (induction e)
  case (Suc e)
  have m: "y AND 2 ^ (Suc e + 7) = 0 \<longleftrightarrow> \<not> bit y (Suc e + 7)"
    by (rule and_exp_eq_0_iff_not_bit)
  have d: "drop_bit 1 (2 ^ (Suc e + 7) :: i16) = 2 ^ (e + 7)"
  proof -
    have "e = 0 \<or> e = 1 \<or> e = 2 \<or> e = 3 \<or> e = 4 \<or> e = 5 \<or> e = 6" using Suc.prems by linarith
    then show ?thesis by (elim disjE) simp_all
  qed
  show ?case
  proof (cases "k = Suc e")
    case True
    have "unat y div 2 ^ (Suc e + 7) = 1"
      using Suc.prems True by (intro div_nat_eqI) (simp_all add: power_add)
    then show ?thesis using m True by (simp add: unat_bit)
  next
    case False
    then have k: "k + 8 \<le> Suc e + 7" using Suc.prems(3) by linarith
    have "unat y < 2 ^ (Suc e + 7)"
      by (rule order_less_le_trans [OF Suc.prems(2) power_increasing [OF k]]) simp
    then show ?thesis using Suc False m d by (simp add: unat_bit)
  qed
qed simp

lemma segment_ex:
  fixes Y :: nat
  assumes "128 \<le> Y" "Y < 32768"
  obtains k where "k \<le> 7" "2 ^ (k + 7) \<le> Y" "Y < 2 ^ (k + 8)"
proof -
  consider "Y < 256" | "256 \<le> Y" "Y < 512" | "512 \<le> Y" "Y < 1024" | "1024 \<le> Y" "Y < 2048"
    | "2048 \<le> Y" "Y < 4096" | "4096 \<le> Y" "Y < 8192" | "8192 \<le> Y" "Y < 16384" | "16384 \<le> Y"
    by linarith
  then show ?thesis
    using assms that [of 0] that [of 1] that [of 2] that [of 3] that [of 4] that [of 5] that [of 6] that [of 7]
    by cases simp_all
qed

lemma mantissa_value:
  assumes "2 ^ (k + 7) \<le> unat y" "unat (y :: i16) < 2 ^ (k + 8)"
  shows "unat (ucast (drop_bit (k + 3) y AND 0x0F) :: u8) = unat y div 2 ^ (k + 3) - 16"
    "unat y div 2 ^ (k + 3) - 16 < 16" "16 \<le> unat y div 2 ^ (k + 3)"
proof -
  let ?q = "unat y div 2 ^ (k + 3)"
  show lo: "16 \<le> ?q" using assms(1) div_le_mono [of "2 ^ (k + 7)" "unat y" "2 ^ (k + 3)"]
    by (simp add: power_add)
  have "unat y < 32 * 2 ^ (k + 3)" using assms(2) by (simp add: power_add)
  then have hi: "?q < 32" by (simp add: less_mult_imp_div_less)
  then show "?q - 16 < 16" using lo by linarith
  have "drop_bit (k + 3) y AND 0x0F = take_bit 4 (drop_bit (k + 3) y)"
    by (simp add: take_bit_eq_mask mask_eq_exp_minus_1)
  moreover have "unat (take_bit 4 (drop_bit (k + 3) y)) = ?q mod 16"
    by (simp only: unsigned_take_bit_eq unat_drop_bit_eq) (simp add: take_bit_eq_mod drop_bit_eq_div)
  ultimately have "unat (drop_bit (k + 3) y AND 0x0F) = ?q mod 16" by simp
  also have "\<dots> = ?q - 16" using lo hi by (simp add: mod_if le_mod_geq)
  finally have v: "unat (drop_bit (k + 3) y AND 0x0F) = ?q - 16" .
  have "?q - 16 < 256" using lo hi by simp
  then show "unat (ucast (drop_bit (k + 3) y AND 0x0F) :: u8) = ?q - 16"
    by (simp only: unsigned_ucast_eq v) (simp add: take_bit_eq_mod)
qed

lemma or_low:
  assumes "unat (m :: u8) < 16" "a AND 0x0F = 0"
  shows "a OR m = a + m"
proof -
  have "unat (take_bit 4 m) = unat m"
    using assms(1) by (simp only: unsigned_take_bit_eq) (simp add: take_bit_eq_mod)
  then have "take_bit 4 m = m" by (simp only: word_unat_eq_iff)
  then have m: "m AND 0x0F = m" by (simp add: take_bit_eq_mask mask_eq_exp_minus_1)
  have "a AND m = (a AND 0x0F) AND m" by (metis m and.assoc and.commute)
  then have "a AND m = 0" using assms(2) by simp
  then show ?thesis by (simp add: disjunctive_add_eq_or)
qed

lemma byte_value:
  assumes "k \<le> 7" "unat m < 16" "sg \<in> {0, 0x80}"
  shows "unat (sg OR push_bit 4 (of_nat k) OR m :: u8) = unat sg + 16 * k + unat m"
proof -
  have k: "k = 0 \<or> k = 1 \<or> k = 2 \<or> k = 3 \<or> k = 4 \<or> k = 5 \<or> k = 6 \<or> k = 7" using assms(1) by linarith
  let ?a = "sg OR push_bit 4 (of_nat k)"
  have a: "?a AND 0x0F = 0" "unat ?a = unat sg + 16 * k" "unat ?a \<le> 240"
    using k assms(3) by (elim disjE; auto)+
  have "sg OR push_bit 4 (of_nat k) OR m = ?a + m"
    using or_low [OF assms(2) a(1)] by (simp add: or.assoc)
  moreover have "unat (?a + m) = unat ?a + unat m"
    using a(3) assms(2) by (intro unat_add_lem [THEN iffD1]) simp
  ultimately show ?thesis using a(2) by simp
qed

section \<open>Decoding\<close>

definition ulaw_value :: "nat \<Rightarrow> int" where
  "ulaw_value n = (let v = (8 * int (n mod 16) + 132) * 2 ^ (n div 16 mod 8) - 132 in if 128 \<le> n then - v else v)"

definition alaw_value :: "nat \<Rightarrow> int" where
  "alaw_value n =
     (let e = n div 16 mod 8;
          v = (if e = 0 then 16 * int (n mod 16) + 8 else (16 * int (n mod 16) + 264) * 2 ^ (e - 1))
      in if 128 \<le> n then v else - v)"

text \<open>The decoders are tables of 256 entries, evaluated once.\<close>

lemma ulaw_table:
  "list_all (\<lambda>i. sint (ulaw_to_linear (NOT (word_of_int i))) = ulaw_value (nat i)) [0..255]"
  by code_simp

lemma alaw_table:
  "list_all (\<lambda>i. sint (alaw_to_linear (word_of_int i XOR 0x55)) = alaw_value (nat i)) [0..255]"
  by code_simp

lemma uint_byte: "uint (u :: u8) \<in> set [0..255]"
  using unsigned_less [of u, where 'a = int] by (simp add: atLeastAtMost_iff)

lemma ulaw_decoded: "sint (ulaw_to_linear (NOT u)) = ulaw_value (unat u)"
  using ulaw_table uint_byte [of u] unfolding list_all_iff by (metis unat_eq_nat_uint word_of_int_uint)

lemma alaw_decoded: "sint (alaw_to_linear (u XOR 0x55)) = alaw_value (unat u)"
  using alaw_table uint_byte [of u] unfolding list_all_iff by (metis unat_eq_nat_uint word_of_int_uint)

section \<open>Encoding\<close>

abbreviation segment_bits :: "u8 \<Rightarrow> i16 \<Rightarrow> u8" where
  "segment_bits sg y \<equiv> sg OR push_bit 4 (of_nat (find_segment 7 0x4000 y)) OR
     ucast (drop_bit (find_segment 7 0x4000 y + 3) y AND 0x0F)"

lemma segment_byte:
  assumes "128 \<le> unat y" "unat y < 32768" "sg \<in> {0, 0x80}"
  obtains k where "k \<le> 7" "2 ^ (k + 7) \<le> unat y" "unat y < 2 ^ (k + 8)"
    "unat (segment_bits sg y) = unat sg + 16 * k + (unat y div 2 ^ (k + 3) - 16)"
proof -
  obtain k where k: "k \<le> 7" "2 ^ (k + 7) \<le> unat y" "unat y < 2 ^ (k + 8)"
    using segment_ex [OF assms(1,2)] by blast
  have seg: "find_segment 7 0x4000 y = k" using find_segment_at [OF k(2,3,1)] by simp
  note m = mantissa_value [OF k(2,3)]
  have "unat (ucast (drop_bit (k + 3) y AND 0x0F) :: u8) < 16" using m(1,2) by linarith
  from byte_value [OF k(1) this assms(3)]
  have "unat (segment_bits sg y) = unat sg + 16 * k + (unat y div 2 ^ (k + 3) - 16)"
    unfolding seg m(1) .
  with k show ?thesis by (rule that)
qed

text \<open>The size of a sample after clipping.\<close>

definition magnitude :: "i16 \<Rightarrow> nat" where
  "magnitude x = min 32635 (nat \<bar>sint x\<bar>)"

lemma sint_bounds: "- 32768 \<le> sint (x :: i16)" "sint (x :: i16) \<le> 32767"
  using sint_greater_eq [of x] sint_less [of x] by simp_all

lemma sint_of_int16: "- 32768 \<le> i \<Longrightarrow> i \<le> 32767 \<Longrightarrow> sint (word_of_int i :: i16) = i"
  by (simp add: signed_of_int signed_take_bit_int_eq_self)

lemma nonneg_word: "0 \<le> sint (y :: i16) \<Longrightarrow> unat y = nat (sint y)"
  using unsigned_less [of y, where 'a = nat] by (auto simp: sint16 split: if_splits)

lemma sat_add_zero [simp]: "sat_add16 x 0 = x"
  using sint_bounds [of x] by (simp add: sat_add16_def)

lemma neg_word: "sint (x :: i16) \<noteq> - 32768 \<Longrightarrow> sint (- x) = - sint x"
  using sint_bounds [of x] sint_of_int16 [of "- sint x"] by (simp add: wi_hom_neg [symmetric])

lemma clip_word:
  assumes "0 \<le> sint (y :: i16)" "sint y \<le> 32767"
  shows "sint (if sint CLIP < sint y then CLIP else y) = min 32635 (sint y)"
  using assms by (auto simp: CLIP_def)

lemma ulaw_abs:
  assumes "pcm1 = (if sint x < 0 then (let p = - sat_add16 x 0 in if sint p < 0 then 0x7FFF else p) else x)"
  shows "sint pcm1 = min 32767 \<bar>sint x\<bar>"
proof (cases "sint x = - 32768")
  case True
  then have "int (unat x) = 32768" unfolding sint16 by (auto simp del: of_nat_unat split: if_splits)
  then have "x = 0x8000" by (simp add: word_uint_eq_iff)
  then show ?thesis using assms by simp
next
  case False
  then show ?thesis using assms neg_word [OF False] sint_bounds [of x] by (auto simp: Let_def)
qed

lemma linear_to_ulaw_bits:
  assumes "\<not> checks \<or> sint x \<noteq> - 32768"
  obtains y where "linear_to_ulaw checks x = Some (NOT (segment_bits (if sint x < 0 then 0x80 else 0) y))"
    "unat y = magnitude x + 132"
proof -
  define pcm1 where "pcm1 = (if sint x < 0 then (let p = - sat_add16 x 0 in if sint p < 0 then 0x7FFF else p) else x)"
  define pcm2 where "pcm2 = (if sint CLIP < sint pcm1 then CLIP else pcm1)"
  define y where "y = sat_add16 pcm2 BIAS"
  have p1: "sint pcm1 = min 32767 \<bar>sint x\<bar>" by (rule ulaw_abs [OF pcm1_def])
  have p2: "sint pcm2 = int (magnitude x)"
  proof -
    have "sint pcm2 = min 32635 (min 32767 \<bar>sint x\<bar>)" unfolding pcm2_def using clip_word [of pcm1] p1 by simp
    then show ?thesis by (auto simp: magnitude_def min_def)
  qed
  have "sint y = int (magnitude x) + 132"
    unfolding y_def sat_add16_def using p2
    by (subst sint_of_int16) (auto simp: BIAS_def magnitude_def)
  then have "unat y = magnitude x + 132" using nonneg_word [of y] by simp
  moreover have "linear_to_ulaw checks x = Some (NOT (segment_bits (if sint x < 0 then 0x80 else 0) y))"
    using assms unfolding linear_to_ulaw_def y_def pcm2_def pcm1_def by (auto simp: Let_def)
  ultimately show ?thesis using that by blast
qed

lemma quantised:
  fixes Y k :: nat
  assumes "2 ^ (k + 7) \<le> Y"
  shows "32 * \<bar>(8 * int (Y div 2 ^ (k + 3)) + 4) * 2 ^ k - int Y\<bar> \<le> int Y"
proof -
  let ?P = "2 ^ k :: int" and ?q = "int (Y div 2 ^ (k + 3))" and ?r = "int (Y mod 2 ^ (k + 3))"
  have Y: "int Y = ?q * (8 * ?P) + ?r"
  proof -
    have "Y = Y div 2 ^ (k + 3) * 2 ^ (k + 3) + Y mod 2 ^ (k + 3)" by (rule div_mult_mod_eq [symmetric])
    then have "int Y = ?q * 2 ^ (k + 3) + ?r" by (metis of_nat_add of_nat_mult of_nat_numeral of_nat_power)
    then show ?thesis by (simp add: power_add mult.commute)
  qed
  have "Y mod 2 ^ (k + 3) < 2 ^ (k + 3)" by simp
  then have "?r < int (2 ^ (k + 3))" by (simp only: of_nat_less_iff)
  then have r: "0 \<le> ?r" "?r < 8 * ?P" by (simp_all add: power_add)
  have "int (2 ^ (k + 7)) \<le> int Y" using assms by (simp only: of_nat_le_iff)
  then have lo: "128 * ?P \<le> int Y" by (simp add: power_add)
  have "(8 * ?q + 4) * ?P - int Y = 4 * ?P - ?r" unfolding Y by (simp add: algebra_simps)
  then show ?thesis using r lo by (simp add: abs_if)
qed

lemma segment_parts:
  assumes "k \<le> 7" "m < 16" "s = 0 \<or> s = (128 :: nat)"
  shows "(s + 16 * k + m) mod 16 = m" "(s + 16 * k + m) div 16 mod 8 = k" "128 \<le> s + 16 * k + m \<longleftrightarrow> s = 128"
proof -
  have n: "s + 16 * k + m = (s div 16 + k) * 16 + m" "s div 16 + k = (s div 128) * 8 + k" using assms(3) by auto
  show "(s + 16 * k + m) mod 16 = m" unfolding n(1) by (simp only: mod_mult_self3 mod_less [OF assms(2)])
  have "(s + 16 * k + m) div 16 = s div 16 + k" unfolding n(1) using assms(2) by (simp only: div_mult_self3)
  then show "(s + 16 * k + m) div 16 mod 8 = k" using n(2) assms(1) by simp
  show "128 \<le> s + 16 * k + m \<longleftrightarrow> s = 128" using assms by auto
qed

text \<open>The decoded value of an encoded sample is within one part in 32 of the biased magnitude.\<close>

lemma ulaw_close:
  assumes "\<not> checks \<or> sint x \<noteq> - 32768"
  obtains b where "linear_to_ulaw checks x = Some b"
    "0 \<le> sint x \<Longrightarrow> 32 * \<bar>sint (ulaw_to_linear b) - int (magnitude x)\<bar> \<le> int (magnitude x) + 132"
    "sint x < 0 \<Longrightarrow> 32 * \<bar>sint (ulaw_to_linear b) + int (magnitude x)\<bar> \<le> int (magnitude x) + 132"
proof -
  let ?s = "if sint x < 0 then 0x80 else 0 :: u8"
  obtain y where enc: "linear_to_ulaw checks x = Some (NOT (segment_bits ?s y))" and y: "unat y = magnitude x + 132"
    using linear_to_ulaw_bits [OF assms] by blast
  have "128 \<le> unat y" "unat y < 32768" using y by (auto simp: magnitude_def)
  then obtain k where k: "k \<le> 7" "2 ^ (k + 7) \<le> unat y" "unat y < 2 ^ (k + 8)"
    and bits: "unat (segment_bits ?s y) = unat ?s + 16 * k + (unat y div 2 ^ (k + 3) - 16)"
    using segment_byte [of y ?s] by (metis insertCI)
  let ?q = "unat y div 2 ^ (k + 3)"
  note m = mantissa_value(2,3) [OF k(2,3)]
  have s: "unat ?s = 0 \<or> unat ?s = 128" "unat ?s = 128 \<longleftrightarrow> sint x < 0" by auto
  have q: "8 * int (?q - 16) + 132 = 8 * int ?q + 4" using m(2) by simp
  have "ulaw_value (unat (segment_bits ?s y)) =
      (if sint x < 0 then - ((8 * int ?q + 4) * 2 ^ k - 132) else (8 * int ?q + 4) * 2 ^ k - 132)"
    unfolding ulaw_value_def bits segment_parts [OF k(1) m(1) s(1)] Let_def s(2) q ..
  moreover have "32 * \<bar>(8 * int ?q + 4) * 2 ^ k - int (unat y)\<bar> \<le> int (unat y)" by (rule quantised [OF k(2)])
  moreover have "int (unat y) = int (magnitude x) + 132" unfolding y by simp
  ultimately show ?thesis using that [OF enc] unfolding ulaw_decoded by (auto simp: abs_if split: if_splits)
qed

lemma linear_to_alaw_bits:
  obtains y where "sint y = int (magnitude x)"
    "linear_to_alaw x = ((if sint y < 256 then ucast (drop_bit 4 y AND 0x0F)
       else push_bit 4 (of_nat (find_segment 7 0x4000 y)) OR ucast (drop_bit (find_segment 7 0x4000 y + 3) y AND 0x0F))
       OR (if sint x < 0 then 0x00 else 0x80)) XOR 0x55"
proof -
  define pcm1 where "pcm1 = (if sint x < 0 then (let p = sat_neg16 x in if sint p < 0 then 0x7FFF else p) else x)"
  define y where "y = (if sint CLIP < sint pcm1 then CLIP else pcm1)"
  have neg: "sint (sat_neg16 x) = min 32767 (- sint x)"
    using sint_bounds [of x] unfolding sat_neg16_def by (intro sint_of_int16) auto
  have p1: "sint pcm1 = min 32767 \<bar>sint x\<bar>"
    unfolding pcm1_def Let_def using neg sint_bounds [of x] by auto
  have "sint y = min 32635 (min 32767 \<bar>sint x\<bar>)" unfolding y_def using clip_word [of pcm1] p1 by simp
  then have "sint y = int (magnitude x)" by (auto simp: magnitude_def min_def)
  moreover have "linear_to_alaw x = ((if sint y < 256 then ucast (drop_bit 4 y AND 0x0F)
       else push_bit 4 (of_nat (find_segment 7 0x4000 y)) OR ucast (drop_bit (find_segment 7 0x4000 y + 3) y AND 0x0F))
       OR (if sint x < 0 then 0x00 else 0x80)) XOR 0x55"
    unfolding linear_to_alaw_def Let_def pcm1_def [unfolded Let_def, symmetric] y_def [symmetric] by simp
  ultimately show ?thesis by (rule that)
qed

lemma low_nibble: "unat (y :: i16) < 256 \<Longrightarrow> unat (ucast (drop_bit 4 y AND 0x0F) :: u8) = unat y div 16"
proof -
  assume y: "unat y < 256"
  have "drop_bit 4 y AND 0x0F = take_bit 4 (drop_bit 4 y)"
    by (simp add: take_bit_eq_mask mask_eq_exp_minus_1)
  moreover have "unat (take_bit 4 (drop_bit 4 y)) = unat y div 16 mod 16"
    by (simp only: unsigned_take_bit_eq unat_drop_bit_eq) (simp add: take_bit_eq_mod drop_bit_eq_div)
  ultimately have v: "unat (drop_bit 4 y AND 0x0F) = unat y div 16" using y by simp
  show ?thesis using y by (simp only: unsigned_ucast_eq v) (simp add: take_bit_eq_mod)
qed

lemma alaw_close:
  shows "0 \<le> sint x \<Longrightarrow> 32 * \<bar>sint (alaw_to_linear (linear_to_alaw x)) - int (magnitude x)\<bar> \<le> max 256 (int (magnitude x))"
    and "sint x < 0 \<Longrightarrow> 32 * \<bar>sint (alaw_to_linear (linear_to_alaw x)) + int (magnitude x)\<bar> \<le> max 256 (int (magnitude x))"
proof -
  let ?s = "if sint x < 0 then 0x00 else 0x80 :: u8"
  obtain y where y: "sint y = int (magnitude x)" and enc: "linear_to_alaw x =
      ((if sint y < 256 then ucast (drop_bit 4 y AND 0x0F)
       else push_bit 4 (of_nat (find_segment 7 0x4000 y)) OR ucast (drop_bit (find_segment 7 0x4000 y + 3) y AND 0x0F))
       OR ?s) XOR 0x55"
    by (rule linear_to_alaw_bits)
  have uy: "unat y = magnitude x" "unat y < 32768" using nonneg_word [of y] y by (auto simp: magnitude_def)
  have s: "unat ?s = 0 \<or> unat ?s = 128" "unat ?s = 128 \<longleftrightarrow> \<not> sint x < 0" "?s \<in> {0, 0x80}" by auto
  have "\<exists>v. sint (alaw_to_linear (linear_to_alaw x)) = (if \<not> sint x < 0 then v else - v) \<and>
      32 * \<bar>v - int (magnitude x)\<bar> \<le> max 256 (int (magnitude x))"
  proof (cases "sint y < 256")
    case True
    then have lt: "unat y < 256" using y uy by simp
    have m: "unat (ucast (drop_bit 4 y AND 0x0F) :: u8) = unat y div 16" "unat y div 16 < 16"
      using low_nibble [OF lt] lt by simp_all
    have "linear_to_alaw x = (?s OR push_bit 4 (of_nat 0) OR ucast (drop_bit 4 y AND 0x0F)) XOR 0x55"
      using enc True by (simp add: or.commute)
    moreover have "unat (?s OR push_bit 4 (of_nat 0) OR ucast (drop_bit 4 y AND 0x0F) :: u8) = unat ?s + 16 * 0 + unat y div 16"
      using byte_value [of 0 "ucast (drop_bit 4 y AND 0x0F)" ?s] m s(3) by (simp only: m(1))
    ultimately have "sint (alaw_to_linear (linear_to_alaw x)) = alaw_value (unat ?s + 16 * 0 + unat y div 16)"
      by (simp only: alaw_decoded)
    also have "\<dots> = (if \<not> sint x < 0 then 16 * int (unat y div 16) + 8 else - (16 * int (unat y div 16) + 8))"
      unfolding alaw_value_def segment_parts [OF le0 m(2) s(1)] Let_def s(2) by simp
    finally show ?thesis
    proof (intro exI conjI)
      have "int (unat y) = 16 * int (unat y div 16) + int (unat y mod 16)"
        by (metis of_nat_add of_nat_mult of_nat_numeral div_mult_mod_eq mult.commute)
      moreover have "int (unat y mod 16) < 16" "0 \<le> int (unat y mod 16)" by simp_all
      ultimately have "\<bar>16 * int (unat y div 16) + 8 - int (unat y)\<bar> \<le> 8" by linarith
      then show "32 * \<bar>16 * int (unat y div 16) + 8 - int (magnitude x)\<bar> \<le> max 256 (int (magnitude x))"
        unfolding uy(1) [symmetric] by (intro max.coboundedI1) simp
    qed
  next
    case False
    then have ge: "256 \<le> unat y" using y uy by simp
    obtain k where k: "k \<le> 7" "2 ^ (k + 7) \<le> unat y" "unat y < 2 ^ (k + 8)"
      and bits: "unat (segment_bits ?s y) = unat ?s + 16 * k + (unat y div 2 ^ (k + 3) - 16)"
      by (rule segment_byte [OF _ uy(2) s(3)]) (use ge in simp)
    let ?q = "unat y div 2 ^ (k + 3)"
    note m = mantissa_value(2,3) [OF k(2,3)]
    have k1: "k \<noteq> 0" using ge k(3) by (cases k) auto
    have "16 * int (?q - 16) + 264 = (8 * int ?q + 4) * 2" using m(2) by simp
    moreover have "(2 :: int) ^ k = 2 * 2 ^ (k - 1)" using k1 by (cases k) simp_all
    ultimately have q: "(16 * int (?q - 16) + 264) * 2 ^ (k - 1) = (8 * int ?q + 4) * 2 ^ k" by simp
    have "linear_to_alaw x = segment_bits ?s y XOR 0x55"
      unfolding enc if_not_P [OF False] by (simp only: or.commute [of _ ?s] or.assoc)
    then have "sint (alaw_to_linear (linear_to_alaw x)) = alaw_value (unat (segment_bits ?s y))"
      by (simp only: alaw_decoded)
    also have "\<dots> = (if \<not> sint x < 0 then (8 * int ?q + 4) * 2 ^ k else - ((8 * int ?q + 4) * 2 ^ k))"
      unfolding alaw_value_def bits segment_parts [OF k(1) m(1) s(1)] Let_def s(2) using k1 q by simp
    finally show ?thesis
    proof (intro exI conjI)
      show "32 * \<bar>(8 * int ?q + 4) * 2 ^ k - int (magnitude x)\<bar> \<le> max 256 (int (magnitude x))"
        using quantised [OF k(2)] unfolding uy(1) [symmetric] by (intro max.coboundedI2)
    qed
  qed
  then show "0 \<le> sint x \<Longrightarrow> 32 * \<bar>sint (alaw_to_linear (linear_to_alaw x)) - int (magnitude x)\<bar> \<le> max 256 (int (magnitude x))"
    "sint x < 0 \<Longrightarrow> 32 * \<bar>sint (alaw_to_linear (linear_to_alaw x)) + int (magnitude x)\<bar> \<le> max 256 (int (magnitude x))"
    by (auto simp: abs_minus_commute)
qed

section \<open>Encoding what was decoded\<close>

lemma segment_unique:
  assumes "2 ^ (k + 7) \<le> (Y :: nat)" "Y < 2 ^ (k + 8)" "2 ^ (e + 7) \<le> Y" "Y < 2 ^ (e + 8)"
  shows "k = e"
proof -
  have "(2 :: nat) ^ (k + 7) < 2 ^ (e + 8)" "(2 :: nat) ^ (e + 7) < 2 ^ (k + 8)"
    using assms by linarith+
  then have "k + 7 < e + 8" "e + 7 < k + 8" by (simp_all only: power_strict_increasing_iff)
  then show ?thesis by simp
qed

text \<open>A level of segment \<open>e\<close>, with the bias, is in the middle of its step.\<close>

lemma level_bits:
  assumes "unat y = (8 * m + 132) * 2 ^ e" "m < 16" "e \<le> 7" "sg \<in> {0, 0x80}"
  shows "unat (segment_bits sg y) = unat sg + 16 * e + m"
proof -
  have "132 * 2 ^ e \<le> unat y" unfolding assms(1) by (intro mult_right_mono) simp_all
  then have lo: "2 ^ (e + 7) \<le> unat y" by (simp add: power_add)
  have "unat y < 256 * 2 ^ e" unfolding assms(1) using assms(2) by (intro mult_strict_right_mono) simp_all
  then have hi: "unat y < 2 ^ (e + 8)" by (simp add: power_add)
  have "(2 :: nat) ^ (e + 8) \<le> 2 ^ 15" using assms(3) by (intro power_increasing) simp_all
  then have y: "unat y < 32768" using hi by simp
  have "(2 :: nat) ^ 7 \<le> 2 ^ (e + 7)" by (intro power_increasing) simp_all
  from le_trans [OF this lo] have y': "128 \<le> unat y" by simp
  obtain k where "2 ^ (k + 7) \<le> unat y" "unat y < 2 ^ (k + 8)"
    "unat (segment_bits sg y) = unat sg + 16 * k + (unat y div 2 ^ (k + 3) - 16)"
    using segment_byte [OF y' y assms(4)] by blast
  moreover from this(1,2) lo hi have "k = e" by (rule segment_unique)
  moreover have "unat y div 2 ^ (e + 3) = m + 16"
  proof -
    have p: "(2 :: nat) ^ (e + 3) = 2 ^ e * 8" by (simp add: power_add)
    have "unat y div 2 ^ e = 8 * m + 132" unfolding assms(1) by simp
    then show ?thesis unfolding p div_mult2_eq by simp
  qed
  ultimately show ?thesis by simp
qed

lemma byte_parts: "n < 256 \<Longrightarrow> (n :: nat) = (if 128 \<le> n then 128 else 0) + 16 * (n div 16 mod 8) + n mod 16"
proof -
  assume n: "n < 256"
  define q where "q = n div 16"
  have q: "q < 16" "128 \<le> n \<longleftrightarrow> 8 \<le> q" using n by (auto simp: q_def)
  then have "q = (if 8 \<le> q then 8 else 0) + q mod 8" using le_mod_geq [of 8 q] by (auto simp: not_le)
  moreover have "n = 16 * q + n mod 16" by (simp add: q_def)
  ultimately have "n = (if 8 \<le> q then 128 else 0) + 16 * (q mod 8) + n mod 16"
    by (cases "8 \<le> q"; simp only: if_True if_False; linarith)
  then show ?thesis unfolding q(2) q_def [symmetric] .
qed

lemma level_bounds:
  assumes "m < 16" "e \<le> 7"
  shows "0 \<le> (8 * int m + 132) * 2 ^ e - 132" "(8 * int m + 132) * 2 ^ e - 132 \<le> 32124"
proof -
  have "(8 * int m + 132) * 2 ^ e \<le> 252 * 2 ^ 7"
    using assms by (intro mult_mono power_increasing) simp_all
  then show "(8 * int m + 132) * 2 ^ e - 132 \<le> 32124" by simp
  have "132 * 1 \<le> (8 * int m + 132) * 2 ^ e" by (intro mult_mono) simp_all
  then show "0 \<le> (8 * int m + 132) * 2 ^ e - 132" by simp
qed

lemma ulaw_stable:
  shows "linear_to_ulaw checks (ulaw_to_linear b) = Some b \<or> ulaw_to_linear b = 0"
proof -
  define u x where "u = NOT b" and "x = ulaw_to_linear b"
  define m e where "m = unat u mod 16" and "e = unat u div 16 mod 8"
  define v where "v = (8 * int m + 132) * 2 ^ e - 132"
  have n: "unat u < 256" using unsigned_less [of u, where 'a = nat] by simp
  have me: "m < 16" "e \<le> 7" by (simp_all add: m_def e_def)
  have x: "sint x = (if 128 \<le> unat u then - v else v)"
    using ulaw_decoded [of u] by (simp add: u_def x_def ulaw_value_def Let_def v_def m_def e_def)
  have v: "0 \<le> v" "v \<le> 32124" using level_bounds [OF me] by (simp_all add: v_def)
  show ?thesis
  proof (cases "v = 0")
    case True
    then have "unat x = 0" using x nonneg_word [of x] by simp
    then have "x = 0" by (simp add: unat_eq_0)
    then show ?thesis by (simp add: x_def)
  next
    case False
    have neg: "sint x < 0 \<longleftrightarrow> 128 \<le> unat u" using x v False by simp
    have mag: "magnitude x = nat v" using x v by (simp add: magnitude_def)
    have "\<not> checks \<or> sint x \<noteq> - 32768" using x v by simp
    then obtain y where enc: "linear_to_ulaw checks x = Some (NOT (segment_bits (if sint x < 0 then 0x80 else 0) y))"
      and y: "unat y = magnitude x + 132"
      by (rule linear_to_ulaw_bits)
    have "int (unat y) = int ((8 * m + 132) * 2 ^ e)" unfolding y mag using v by (simp add: v_def)
    then have lev: "unat y = (8 * m + 132) * 2 ^ e" by (simp only: of_nat_eq_iff)
    have "unat (segment_bits (if sint x < 0 then 0x80 else 0) y) = (if 128 \<le> unat u then 128 else 0) + 16 * e + m"
      using level_bits [OF lev me, of "if sint x < 0 then 0x80 else 0"] neg by simp
    also have "\<dots> = unat u" unfolding m_def e_def by (rule byte_parts [OF n, symmetric])
    finally have "segment_bits (if sint x < 0 then 0x80 else 0) y = u" by (simp only: word_unat_eq_iff)
    then show ?thesis using enc by (simp only: x_def u_def) simp
  qed
qed

lemma alaw_stable: "linear_to_alaw (alaw_to_linear b) = b"
proof -
  define u x where "u = b XOR 0x55" and "x = alaw_to_linear b"
  define m e where "m = unat u mod 16" and "e = unat u div 16 mod 8"
  define v where "v = (if e = 0 then 16 * m + 8 else (8 * m + 132) * 2 ^ e)"
  have b: "b = u XOR 0x55" by (simp add: u_def xor.assoc)
  have n: "unat u < 256" using unsigned_less [of u, where 'a = nat] by simp
  have me: "m < 16" "e \<le> 7" by (simp_all add: m_def e_def)
  have "(16 * int m + 264) * 2 ^ (e - 1) = (8 * int m + 132) * 2 ^ e" if "e \<noteq> 0"
    using that by (cases e) simp_all
  then have x: "sint x = (if 128 \<le> unat u then int v else - int v)"
    using alaw_decoded [of u] by (simp add: b x_def alaw_value_def Let_def v_def m_def [symmetric] e_def [symmetric])
  have "(8 * m + 132) * 2 ^ e \<le> 252 * 2 ^ 7" using me by (intro mult_mono power_increasing) simp_all
  then have v: "0 < v" "v \<le> 32256" using me(1) by (auto simp: v_def)
  have neg: "sint x < 0 \<longleftrightarrow> \<not> 128 \<le> unat u" using x v by simp
  have mag: "magnitude x = v" using x v by (simp add: magnitude_def)
  let ?s = "if sint x < 0 then 0x00 else 0x80 :: u8"
  have s: "unat ?s = (if 128 \<le> unat u then 128 else 0)" "?s \<in> {0, 0x80}" using neg by simp_all
  obtain y where y: "sint y = int (magnitude x)" and enc: "linear_to_alaw x =
      ((if sint y < 256 then ucast (drop_bit 4 y AND 0x0F)
       else push_bit 4 (of_nat (find_segment 7 0x4000 y)) OR ucast (drop_bit (find_segment 7 0x4000 y + 3) y AND 0x0F))
       OR ?s) XOR 0x55"
    by (rule linear_to_alaw_bits)
  have uy: "unat y = v" using nonneg_word [of y] y mag by simp
  have "\<exists>w. linear_to_alaw x = w XOR 0x55 \<and> unat w = unat ?s + 16 * e + m"
  proof (cases "e = 0")
    case True
    then have lt: "unat y < 256" "unat y div 16 = m" using uy me by (simp_all add: v_def)
    have nib: "unat (ucast (drop_bit 4 y AND 0x0F) :: u8) = m" using low_nibble [OF lt(1)] lt(2) by simp
    have "linear_to_alaw x = (?s OR push_bit 4 (of_nat 0) OR ucast (drop_bit 4 y AND 0x0F)) XOR 0x55"
      using enc y mag uy lt(1) by (simp add: or.commute)
    moreover have "unat (?s OR push_bit 4 (of_nat 0) OR ucast (drop_bit 4 y AND 0x0F) :: u8) = unat ?s + 16 * e + m"
      using byte_value [OF le0 _ s(2), of "ucast (drop_bit 4 y AND 0x0F)"] nib me(1) True by simp
    ultimately show ?thesis by blast
  next
    case False
    then have lev: "unat y = (8 * m + 132) * 2 ^ e" using uy by (simp add: v_def)
    have "132 * 2 ^ 1 \<le> (8 * m + 132) * 2 ^ e" using False by (intro mult_mono power_increasing) simp_all
    then have "\<not> sint y < 256" using y mag uy lev by simp
    then have "linear_to_alaw x = segment_bits ?s y XOR 0x55"
      unfolding enc by (simp only: if_False or.commute [of _ ?s] or.assoc)
    then show ?thesis using level_bits [OF lev me s(2)] by blast
  qed
  then obtain w where w: "linear_to_alaw x = w XOR 0x55" "unat w = (if 128 \<le> unat u then 128 else 0) + 16 * e + m"
    using s(1) by auto
  from w(2) have "unat w = unat u" unfolding m_def e_def byte_parts [OF n, symmetric] .
  then have "w = u" by (simp only: word_unat_eq_iff)
  then show ?thesis using w(1) b by (simp add: x_def)
qed

lemma ulaw_value_zero: "list_all (\<lambda>n. ulaw_value n = 0 \<longrightarrow> n = 0 \<or> n = 128) [0..<256]"
  by code_simp

lemma ulaw_zero:
  assumes "ulaw_to_linear b = 0"
  shows "b = 0xFF \<or> b = 0x7F"
proof -
  have "unat (NOT b) < 256" using unsigned_less [of "NOT b", where 'a = nat] by simp
  moreover have "ulaw_value (unat (NOT b)) = 0" using ulaw_decoded [of "NOT b"] assms by simp
  ultimately have "unat (NOT b) = 0 \<or> unat (NOT b) = 128"
    using ulaw_value_zero unfolding list_all_iff set_upt by (meson atLeastLessThan_iff le0)
  then have "unat (NOT b) = unat (0 :: u8) \<or> unat (NOT b) = unat (128 :: u8)" by simp
  then have "NOT b = 0 \<or> NOT b = 128" by (simp only: word_unat_eq_iff)
  then have "b = NOT 0 \<or> b = NOT 128" by (metis bit.double_compl)
  moreover have "NOT 0 = (0xFF :: u8)" "NOT 128 = (0x7F :: u8)" by code_simp+
  ultimately show ?thesis by metis
qed

section \<open>The interface of the codecs\<close>

definition clipped :: "int \<Rightarrow> int" where
  "clipped i = max (- 32635) (min 32635 i)"

lemma clipped_near: "- 32768 \<le> j \<Longrightarrow> j \<le> 32767 \<Longrightarrow> \<bar>clipped j - j\<bar> \<le> 133 \<and> \<bar>clipped j\<bar> \<le> 32635"
  by (auto simp: clipped_def)

locale companding =
  fixes enc :: "i16 \<Rightarrow> u8"
    and dec :: "u8 \<Rightarrow> i16"
  assumes dec_enc_dec: "dec (enc (dec b)) = dec b"
    and close: "32 * \<bar>sint (dec (enc x)) - clipped (sint x)\<bar> \<le> max 256 (\<bar>clipped (sint x)\<bar> + 132)"
begin

lemma transcode_again: "map dec (map enc (map dec bs)) = map dec bs"
  by (simp add: dec_enc_dec)

lemma error_bound: "\<bar>sint (dec (enc x)) - sint x\<bar> \<le> 1156"
proof -
  have c: "\<bar>clipped (sint x) - sint x\<bar> \<le> 133" "\<bar>clipped (sint x)\<bar> \<le> 32635"
    using clipped_near [OF sint_bounds] by auto
  then have "max 256 (\<bar>clipped (sint x)\<bar> + 132) \<le> 32767" by simp
  with close [of x] have "32 * \<bar>sint (dec (enc x)) - clipped (sint x)\<bar> \<le> 32767" by (rule order_trans)
  then have "\<bar>sint (dec (enc x)) - clipped (sint x)\<bar> \<le> 1023" by simp
  then show ?thesis using c(1) by linarith
qed

end

lemma magnitude_clipped: "int (magnitude x) = \<bar>clipped (sint x)\<bar>"
  by (auto simp: magnitude_def clipped_def)

lemma clipped_sign: "clipped i = (if i < 0 then - \<bar>clipped i\<bar> else \<bar>clipped i\<bar>)"
  by (auto simp: clipped_def)

interpretation ulaw: companding "\<lambda>x. the (linear_to_ulaw False x)" ulaw_to_linear
proof
  fix b :: u8
  show "ulaw_to_linear (the (linear_to_ulaw False (ulaw_to_linear b))) = ulaw_to_linear b"
  proof (cases "ulaw_to_linear b = 0")
    case True
    have "linear_to_ulaw False 0 = Some 0xFF" "ulaw_to_linear 0xFF = 0" by code_simp+
    with True show ?thesis by simp
  qed (use ulaw_stable [of False b] in auto)
next
  fix x :: i16
  obtain b where "linear_to_ulaw False x = Some b"
    "0 \<le> sint x \<Longrightarrow> 32 * \<bar>sint (ulaw_to_linear b) - int (magnitude x)\<bar> \<le> int (magnitude x) + 132"
    "sint x < 0 \<Longrightarrow> 32 * \<bar>sint (ulaw_to_linear b) + int (magnitude x)\<bar> \<le> int (magnitude x) + 132"
    using ulaw_close [of False x] by blast
  then show "32 * \<bar>sint (ulaw_to_linear (the (linear_to_ulaw False x))) - clipped (sint x)\<bar>
      \<le> max 256 (\<bar>clipped (sint x)\<bar> + 132)"
    unfolding magnitude_clipped by (cases "sint x < 0") (subst clipped_sign; auto)+
qed

interpretation alaw: companding linear_to_alaw alaw_to_linear
proof
  show "alaw_to_linear (linear_to_alaw (alaw_to_linear b)) = alaw_to_linear b" for b
    by (simp add: alaw_stable)
  show "32 * \<bar>sint (alaw_to_linear (linear_to_alaw x)) - clipped (sint x)\<bar> \<le> max 256 (\<bar>clipped (sint x)\<bar> + 132)" for x
    using alaw_close [of x] unfolding magnitude_clipped by (cases "sint x < 0") (subst clipped_sign; auto)+
qed

section \<open>The properties\<close>

text \<open>
  C29: the codecs lose nothing that was ever encoded. Every A-law byte, and every mu-law byte but
  the negative zero \<open>0x7F\<close>, is the encoding of its own decoding, whether or not the build checks for
  overflow.
\<close>

theorem g711_roundtrip:
  "linear_to_alaw (alaw_to_linear b) = b \<and>
   (b \<noteq> 0x7F \<longrightarrow> linear_to_ulaw checks (ulaw_to_linear b) = Some b)"
proof -
  have "linear_to_ulaw checks 0 = Some 0xFF" by (cases checks; code_simp)
  then show ?thesis using alaw_stable [of b] ulaw_stable [of checks b] ulaw_zero [of b] by auto
qed

theorem g711_roundtrip_witness:
  "linear_to_ulaw True (ulaw_to_linear 0x12) = Some 0x12"
  using g711_roundtrip [of "0x12" True] by simp

text \<open>
  both codecs are accurate. A sample decodes to a value whose distance to the clipped sample is
  at most 8 or one part in 32 of its size plus the bias, so that no sample moves by more than 1156.
\<close>

theorem g711_error_bound:
  assumes "linear_to_ulaw False x = Some u"
  shows "32 * \<bar>sint (ulaw_to_linear u) - clipped (sint x)\<bar> \<le> max 256 (\<bar>clipped (sint x)\<bar> + 132) \<and>
    32 * \<bar>sint (alaw_to_linear (linear_to_alaw x)) - clipped (sint x)\<bar> \<le> max 256 (\<bar>clipped (sint x)\<bar> + 132) \<and>
    \<bar>sint (ulaw_to_linear u) - sint x\<bar> \<le> 1156 \<and> \<bar>sint (alaw_to_linear (linear_to_alaw x)) - sint x\<bar> \<le> 1156"
  using ulaw.close [of x] ulaw.error_bound [of x] alaw.close [of x] alaw.error_bound [of x] assms by simp

theorem g711_error_bound_witness:
  "\<exists>u. linear_to_ulaw False 1000 = Some u \<and> \<bar>sint (ulaw_to_linear u) - 1000\<bar> \<le> 1156"
proof -
  have u: "linear_to_ulaw False 1000 = Some 0xCE" by code_simp
  show ?thesis using g711_error_bound [OF u] u by simp
qed

text \<open>
  encoding to mu-law panics exactly for the least sample in a build with overflow checks: the
  guard written for that sample comes after the negation that overflows.
\<close>

theorem linear_to_ulaw_panics_iff:
  "linear_to_ulaw checks x = None \<longleftrightarrow> checks \<and> sint x = - 32768"
  using linear_to_ulaw_bits [of checks x] by (auto simp: linear_to_ulaw_def Let_def)

end
