(* ===== verification/Rtp.thy ===== *)
theory Rtp
  imports G711
begin

text \<open>
  RTP packets as both media endpoints read and write them: \<open>build_rtp_packet\<close> and \<open>rtp_payload_offset\<close> of
  \<open>conference_media.rs\<close> and \<open>voicemail_media.rs\<close>. The conference version trusts its caller for the
  header length, the voicemail version checks every field. Offsets stay below \<open>2 ^ 19\<close>, so \<open>usize\<close>
  arithmetic does not overflow and is on natural numbers.
\<close>

section \<open>Definitions\<close>

definition RTP_HEADER_LEN :: nat where "RTP_HEADER_LEN = 12"

definition SAMPLES_PER_FRAME :: nat where "SAMPLES_PER_FRAME = 160"

definition build_rtp_packet :: "u8 \<Rightarrow> u16 \<Rightarrow> u32 \<Rightarrow> u32 \<Rightarrow> u8 list \<Rightarrow> u8 list" where
  "build_rtp_packet pt seq ts ssrc payload =
     [0x80, pt AND 0x7F] @ be_bytes16 seq @ be_bytes32 ts @ be_bytes32 ssrc @ payload"

text \<open>The voicemail version asserts the payload type in a build with debug assertions.\<close>

definition vm_build_rtp_packet :: "bool \<Rightarrow> u8 \<Rightarrow> u16 \<Rightarrow> u32 \<Rightarrow> u32 \<Rightarrow> u8 list \<Rightarrow> u8 list option" where
  "vm_build_rtp_packet checks pt seq ts ssrc payload =
     (if checks \<and> 127 < pt then None else Some (build_rtp_packet pt seq ts ssrc payload))"

text \<open>\<open>None\<close> is the panic of reading byte 0 of an empty packet.\<close>

definition rtp_payload_offset :: "u8 list \<Rightarrow> nat option" where
  "rtp_payload_offset packet =
     (case packet of [] \<Rightarrow> None
      | b0 # _ \<Rightarrow>
          let cc = unat (b0 AND 0x0F);
              offset = RTP_HEADER_LEN + 4 * cc;
              extension = (b0 AND 0x10 \<noteq> 0)
          in if extension \<and> offset + 4 \<le> length packet
             then Some (offset + 4 + 4 * unat (from_be16 (packet ! (offset + 2)) (packet ! (offset + 3))))
             else Some offset)"

text \<open>Here \<open>None\<close> is the value \<open>None\<close> of the source.\<close>

definition vm_rtp_payload_offset :: "u8 list \<Rightarrow> nat option" where
  "vm_rtp_payload_offset packet =
     (if length packet < RTP_HEADER_LEN \<or> drop_bit 6 (packet ! 0) \<noteq> 2 then None
      else let cc = unat (packet ! 0 AND 0x0F);
               offset = RTP_HEADER_LEN + 4 * cc
           in if length packet < offset then None
              else if packet ! 0 AND 0x10 \<noteq> 0
              then (let header_end = offset + 4 in
                    if length packet < header_end then None
                    else let ext_words = unat (from_be16 (packet ! (offset + 2)) (packet ! (offset + 3)));
                             offset' = header_end + 4 * ext_words
                         in if length packet < offset' then None else Some offset')
              else Some offset)"

text \<open>\<open>truncate\<close> or \<open>resize\<close> with zeros to one frame.\<close>

definition fit_frame :: "i16 list \<Rightarrow> i16 list" where
  "fit_frame pcm = take SAMPLES_PER_FRAME pcm @ replicate (SAMPLES_PER_FRAME - length pcm) 0"

lemma length_fit_frame [simp]: "length (fit_frame pcm) = SAMPLES_PER_FRAME"
  by (simp add: fit_frame_def)

section \<open>Reading what was written\<close>

lemma length_rtp_packet: "length (build_rtp_packet pt seq ts ssrc payload) = RTP_HEADER_LEN + length payload"
  by (simp add: build_rtp_packet_def RTP_HEADER_LEN_def)

lemma rtp_packet_fields:
  "build_rtp_packet pt seq ts ssrc payload ! 0 = 0x80"
  "build_rtp_packet pt seq ts ssrc payload ! 1 = pt AND 0x7F"
  "drop RTP_HEADER_LEN (build_rtp_packet pt seq ts ssrc payload) = payload"
  "from_be16 (build_rtp_packet pt seq ts ssrc payload ! 2) (build_rtp_packet pt seq ts ssrc payload ! 3) = seq"
  "from_be32 (build_rtp_packet pt seq ts ssrc payload ! 4) (build_rtp_packet pt seq ts ssrc payload ! 5)
     (build_rtp_packet pt seq ts ssrc payload ! 6) (build_rtp_packet pt seq ts ssrc payload ! 7) = ts"
  by (simp_all add: build_rtp_packet_def RTP_HEADER_LEN_def be_bytes16_def be_bytes32_def nth_append
      from_be16_bytes from_be32_bytes)

lemma rtp_offset_built:
  "rtp_payload_offset (build_rtp_packet pt seq ts ssrc payload) = Some RTP_HEADER_LEN"
  "vm_rtp_payload_offset (build_rtp_packet pt seq ts ssrc payload) = Some RTP_HEADER_LEN"
proof -
  have c: "build_rtp_packet pt seq ts ssrc payload =
      0x80 # (pt AND 0x7F) # be_bytes16 seq @ be_bytes32 ts @ be_bytes32 ssrc @ payload"
    by (simp add: build_rtp_packet_def)
  have b: "(0x80 :: u8) AND 0x0F = 0" "(0x80 :: u8) AND 0x10 = 0" "drop_bit 6 (0x80 :: u8) = 2" by simp_all
  show "rtp_payload_offset (build_rtp_packet pt seq ts ssrc payload) = Some RTP_HEADER_LEN"
    unfolding rtp_payload_offset_def c list.case Let_def b by simp
  show "vm_rtp_payload_offset (build_rtp_packet pt seq ts ssrc payload) = Some RTP_HEADER_LEN"
    unfolding vm_rtp_payload_offset_def rtp_packet_fields(1) Let_def b length_rtp_packet by simp
qed

lemma vm_rtp_offset_bound: "vm_rtp_payload_offset p = Some k \<Longrightarrow> RTP_HEADER_LEN \<le> k \<and> k \<le> length p"
  by (auto simp: vm_rtp_payload_offset_def Let_def split: if_splits)

lemma rtp_offset_some: "p \<noteq> [] \<Longrightarrow> \<exists>k. rtp_payload_offset p = Some k \<and> RTP_HEADER_LEN \<le> k"
  by (cases p) (auto simp: rtp_payload_offset_def Let_def)

lemma rtp_offsets_agree: "vm_rtp_payload_offset p = Some k \<Longrightarrow> rtp_payload_offset p = Some k"
  by (cases p) (auto simp: vm_rtp_payload_offset_def rtp_payload_offset_def Let_def RTP_HEADER_LEN_def split: if_splits)

lemma rtp_offsets_differ:
  assumes "rtp_payload_offset p = Some k" "RTP_HEADER_LEN \<le> length p" "drop_bit 6 (p ! 0) = 2" "k \<le> length p"
    and "p ! 0 AND 0x10 = 0 \<or> RTP_HEADER_LEN + 4 * unat (p ! 0 AND 0x0F) + 4 \<le> length p"
  shows "vm_rtp_payload_offset p = Some k"
  using assms by (cases p) (auto simp: vm_rtp_payload_offset_def rtp_payload_offset_def Let_def split: if_splits)

section \<open>The properties\<close>

text \<open>
  the two readers of RTP agree and read what the server writes. A packet the strict voicemail reader
  accepts has the same payload offset, inside the packet, for the lenient conference reader; and from
  a packet the server built both find the payload, and the sequence number and timestamp at their places.
\<close>

theorem rtp_readers_agree:
  "(vm_rtp_payload_offset p = Some k \<longrightarrow> rtp_payload_offset p = Some k \<and> RTP_HEADER_LEN \<le> k \<and> k \<le> length p) \<and>
   vm_rtp_payload_offset (build_rtp_packet pt seq ts ssrc payload) = Some RTP_HEADER_LEN \<and>
   drop RTP_HEADER_LEN (build_rtp_packet pt seq ts ssrc payload) = payload \<and>
   from_be16 (build_rtp_packet pt seq ts ssrc payload ! 2) (build_rtp_packet pt seq ts ssrc payload ! 3) = seq \<and>
   from_be32 (build_rtp_packet pt seq ts ssrc payload ! 4) (build_rtp_packet pt seq ts ssrc payload ! 5)
     (build_rtp_packet pt seq ts ssrc payload ! 6) (build_rtp_packet pt seq ts ssrc payload ! 7) = ts"
  using rtp_offsets_agree [of p k] vm_rtp_offset_bound [of p k] by (simp add: rtp_offset_built(2) rtp_packet_fields)

theorem rtp_readers_agree_witness:
  "vm_rtp_payload_offset (build_rtp_packet 8 5 7 9 [1, 2]) = Some RTP_HEADER_LEN \<and>
   rtp_payload_offset (build_rtp_packet 8 5 7 9 [1, 2]) = Some RTP_HEADER_LEN"
  using rtp_readers_agree [of "build_rtp_packet 8 5 7 9 [1, 2]" RTP_HEADER_LEN 8 5 7 9 "[1, 2]"] by simp

end
