(* ===== verification/Sdp_Negotiation.thy ===== *)
theory Sdp_Negotiation
  imports Media_Sdp
begin

text \<open>
  Offer and answer of the two media endpoints of the server: \<open>conference_sdp.rs\<close> and
  \<open>voicemail_sdp.rs\<close>. Both scan the first audio section of an offer in the same way and differ in the
  codec they prefer and in the session name of the answer.
\<close>

section \<open>The interface\<close>

text \<open>An endpoint that answers offers and reads its own answers.\<close>

locale sdp_endpoint =
  fixes negotiate :: "string \<Rightarrow> (string, 'n) outcome"
    and answer :: "string \<Rightarrow> u16 \<Rightarrow> 'n \<Rightarrow> u64 \<Rightarrow> string"
    and proper :: "'n \<Rightarrow> bool"
  assumes negotiated_proper: "negotiate offer = Ok n \<Longrightarrow> proper n"
    and reads_own_answer: "proper n \<Longrightarrow> lf \<notin> set ip \<Longrightarrow> negotiate (answer ip port n sid) = Ok n"
begin

lemma renegotiation_stable:
  "negotiate offer = Ok n \<Longrightarrow> lf \<notin> set ip \<Longrightarrow> negotiate (answer ip port n sid) = Ok n"
  by (intro reads_own_answer negotiated_proper)

end

section \<open>Definitions\<close>

datatype conference_codec = ConfPcmu | ConfPcma

primrec rtpmap_name :: "conference_codec \<Rightarrow> string" where
  "rtpmap_name ConfPcmu = ''PCMU''"
| "rtpmap_name ConfPcma = ''PCMA''"

primrec conf_static_pt :: "conference_codec \<Rightarrow> u8" where
  "conf_static_pt ConfPcmu = 0"
| "conf_static_pt ConfPcma = 8"

record conference_negotiation =
  cn_codec :: conference_codec
  cn_audio_pt :: u8
  cn_telephone_event_pt :: "u8 option"

text \<open>The local variables of the scan over the lines of the offer.\<close>

record offer_scan =
  os_in_audio :: bool
  os_audio_pts :: "u8 list"
  os_profile_ok :: bool
  os_rtpmaps :: "(u8 \<times> string \<times> u32) list"

definition scan_start :: offer_scan where
  "scan_start = \<lparr>os_in_audio = False, os_audio_pts = [], os_profile_ok = False, os_rtpmaps = []\<rparr>"

definition next_or_empty :: "string list \<Rightarrow> string" where
  "next_or_empty ps = (case ps of [] \<Rightarrow> [] | p # _ \<Rightarrow> p)"

definition scan_media :: "string \<Rightarrow> offer_scan \<Rightarrow> offer_scan" where
  "scan_media rest s =
     (let parts = split_whitespace rest in
      if next_or_empty parts \<noteq> ''audio'' then s
      else s\<lparr>os_in_audio := True, os_profile_ok := (next_or_empty (drop 2 parts) = ''RTP/AVP''),
             os_audio_pts := os_audio_pts s @ List.map_filter parse_u8 (drop 3 parts)\<rparr>)"

definition scan_rtpmap :: "string \<Rightarrow> offer_scan \<Rightarrow> offer_scan" where
  "scan_rtpmap rest s =
     (let sp = split_whitespace rest;
          mapping = next_or_empty (drop 1 sp)
      in case parse_u8 (next_or_empty sp) of
           None \<Rightarrow> s
         | Some pt \<Rightarrow>
             let mp = split_on (CHR ''/'') mapping;
                 name = to_upper (next_or_empty mp);
                 clock = (case nth_opt 1 mp of None \<Rightarrow> 0 | Some c \<Rightarrow> (case parse_u32 c of None \<Rightarrow> 0 | Some v \<Rightarrow> v))
             in s\<lparr>os_rtpmaps := os_rtpmaps s @ [(pt, name, clock)]\<rparr>)"

fun scan_offer :: "string list \<Rightarrow> offer_scan \<Rightarrow> offer_scan" where
  "scan_offer [] s = s"
| "scan_offer (line # rest) s =
     (let trimmed = trim line in
      case strip_prefix ''m='' trimmed of
        Some r \<Rightarrow> if os_in_audio s then s else scan_offer rest (scan_media r s)
      | None \<Rightarrow>
          if \<not> os_in_audio s then scan_offer rest s
          else (case strip_prefix ''a=rtpmap:'' trimmed of
                  Some r \<Rightarrow> scan_offer rest (scan_rtpmap r s)
                | None \<Rightarrow> scan_offer rest s))"

definition resolve_pt :: "(u8 \<times> string \<times> u32) list \<Rightarrow> u8 \<Rightarrow> (string \<times> u32) option" where
  "resolve_pt rtpmaps pt =
     (case find (\<lambda>(p, _, _). p = pt) rtpmaps of
        Some (_, name, clock) \<Rightarrow>
          if name = ''PCMU'' then Some (''PCMU'', clock)
          else if name = ''PCMA'' then Some (''PCMA'', clock)
          else if name = ''TELEPHONE-EVENT'' then Some (''telephone-event'', clock)
          else None
      | None \<Rightarrow> if pt = 0 then Some (''PCMU'', 8000) else if pt = 8 then Some (''PCMA'', 8000) else None)"

fun conf_choose ::
  "(u8 \<Rightarrow> (string \<times> u32) option) \<Rightarrow> u8 list \<Rightarrow> (conference_codec \<times> u8) option \<Rightarrow> u8 option
    \<Rightarrow> (conference_codec \<times> u8) option \<times> u8 option" where
  "conf_choose resolve [] chosen te = (chosen, te)"
| "conf_choose resolve (pt # pts) chosen te =
     (let r = resolve pt in
      if r = Some (''PCMU'', 8000) \<and> chosen = None then conf_choose resolve pts (Some (ConfPcmu, pt)) te
      else if r = Some (''PCMA'', 8000) \<and> chosen = None then conf_choose resolve pts (Some (ConfPcma, pt)) te
      else if r = Some (''telephone-event'', 8000) \<and> te = None then conf_choose resolve pts chosen (Some pt)
      else conf_choose resolve pts chosen te)"

definition conf_negotiate_offer :: "string \<Rightarrow> (string, conference_negotiation) outcome" where
  "conf_negotiate_offer sdp =
     (let s = scan_offer (lines sdp) scan_start in
      if \<not> os_in_audio s then Err ''no m=audio section in offer''
      else if \<not> os_profile_ok s then Err ''audio profile is not RTP/AVP (encrypted-only offer)''
      else (case conf_choose (resolve_pt (os_rtpmaps s)) (os_audio_pts s) None None of
              (None, _) \<Rightarrow> Err ''no PCMU or PCMA payload type offered for audio''
            | (Some (codec, pt), te) \<Rightarrow>
                Ok \<lparr>cn_codec = codec, cn_audio_pt = pt, cn_telephone_event_pt = te\<rparr>))"

text \<open>The lines both answers consist of.\<close>

definition answer_lines :: "string \<Rightarrow> string \<Rightarrow> u16 \<Rightarrow> u64 \<Rightarrow> u8 \<Rightarrow> string \<Rightarrow> u8 option \<Rightarrow> string list" where
  "answer_lines session_name ip port sid pt rtpmap te =
     [''v=0'',
      ''o=sip3 '' @ show_uint sid @ '' '' @ show_uint sid @ '' IN IP4 '' @ ip,
      ''s='' @ session_name,
      ''c=IN IP4 '' @ ip,
      ''t=0 0'',
      ''m=audio '' @ show_uint port @ '' RTP/AVP '' @ show_uint pt @
        (case te of None \<Rightarrow> [] | Some t \<Rightarrow> '' '' @ show_uint t),
      ''a=rtpmap:'' @ show_uint pt @ '' '' @ rtpmap] @
     (case te of None \<Rightarrow> []
      | Some t \<Rightarrow> [''a=rtpmap:'' @ show_uint t @ '' telephone-event/8000'', ''a=fmtp:'' @ show_uint t @ '' 0-15'']) @
     [''a=ptime:20'', ''a=sendrecv'']"

definition conf_build_answer :: "string \<Rightarrow> u16 \<Rightarrow> conference_negotiation \<Rightarrow> u64 \<Rightarrow> string" where
  "conf_build_answer public_ip relay_port n session_id =
     concat (map (\<lambda>l. l @ crlf) (answer_lines ''SIP3 Conference'' public_ip relay_port session_id
       (cn_audio_pt n) (rtpmap_name (cn_codec n) @ ''/8000'') (cn_telephone_event_pt n)))"

datatype voicemail_codec = VmPcmu | VmPcma

primrec vm_static_pt :: "voicemail_codec \<Rightarrow> u8" where
  "vm_static_pt VmPcmu = 0"
| "vm_static_pt VmPcma = 8"

primrec vm_rtpmap :: "voicemail_codec \<Rightarrow> string" where
  "vm_rtpmap VmPcmu = ''PCMU/8000''"
| "vm_rtpmap VmPcma = ''PCMA/8000''"

record voicemail_negotiation =
  vn_codec :: voicemail_codec
  vn_audio_pt :: u8
  vn_telephone_event_pt :: "u8 option"

fun vm_choose ::
  "(u8 \<Rightarrow> (string \<times> u32) option) \<Rightarrow> u8 list \<Rightarrow> u8 option \<Rightarrow> u8 option \<Rightarrow> u8 option
    \<Rightarrow> u8 option \<times> u8 option \<times> u8 option" where
  "vm_choose resolve [] pcmu pcma te = (pcmu, pcma, te)"
| "vm_choose resolve (pt # pts) pcmu pcma te =
     (let r = resolve pt in
      if r = Some (''PCMU'', 8000) then vm_choose resolve pts (Some pt) pcma te
      else if r = Some (''PCMA'', 8000) \<and> pcma = None then vm_choose resolve pts pcmu (Some pt) te
      else if r = Some (''telephone-event'', 8000) \<and> te = None then vm_choose resolve pts pcmu pcma (Some pt)
      else vm_choose resolve pts pcmu pcma te)"

definition vm_negotiate_offer :: "string \<Rightarrow> (string, voicemail_negotiation) outcome" where
  "vm_negotiate_offer sdp =
     (let s = scan_offer (lines sdp) scan_start in
      if \<not> os_in_audio s then Err ''no m=audio section in offer''
      else if \<not> os_profile_ok s then Err ''audio profile is not RTP/AVP (encrypted-only offer)''
      else (case vm_choose (resolve_pt (os_rtpmaps s)) (os_audio_pts s) None None None of
              (Some pt, _, te) \<Rightarrow> Ok \<lparr>vn_codec = VmPcmu, vn_audio_pt = pt, vn_telephone_event_pt = te\<rparr>
            | (None, Some pt, te) \<Rightarrow> Ok \<lparr>vn_codec = VmPcma, vn_audio_pt = pt, vn_telephone_event_pt = te\<rparr>
            | (None, None, _) \<Rightarrow> Err ''no PCMU or PCMA payload type offered for audio''))"

definition vm_build_answer :: "string \<Rightarrow> u16 \<Rightarrow> voicemail_negotiation \<Rightarrow> u64 \<Rightarrow> string" where
  "vm_build_answer public_ip relay_port n session_id =
     concat (map (\<lambda>l. l @ crlf) (answer_lines ''SIP3 Voicemail'' public_ip relay_port session_id
       (vn_audio_pt n) (vm_rtpmap (vn_codec n)) (vn_telephone_event_pt n)))"

section \<open>What is chosen\<close>

lemma find_app: "find P (xs @ ys) = (case find P xs of None \<Rightarrow> find P ys | Some x \<Rightarrow> Some x)"
  by (induction xs) auto

lemma conf_choose_spec:
  "conf_choose res pts ch te =
    (case ch of Some c \<Rightarrow> Some c
     | None \<Rightarrow> map_option (\<lambda>pt. (if res pt = Some (''PCMU'', 8000) then ConfPcmu else ConfPcma, pt))
         (find (\<lambda>pt. res pt = Some (''PCMU'', 8000) \<or> res pt = Some (''PCMA'', 8000)) pts),
     case te of Some t \<Rightarrow> Some t | None \<Rightarrow> find (\<lambda>pt. res pt = Some (''telephone-event'', 8000)) pts)"
  by (induction res pts ch te rule: conf_choose.induct) (auto simp: Let_def split: option.splits)

text \<open>Voicemail takes the last mu-law payload type of the offer, the first A-law one.\<close>

lemma vm_choose_spec:
  "vm_choose res pts pcmu pcma te =
    (case find (\<lambda>pt. res pt = Some (''PCMU'', 8000)) (rev pts) of Some p \<Rightarrow> Some p | None \<Rightarrow> pcmu,
     case pcma of Some p \<Rightarrow> Some p | None \<Rightarrow> find (\<lambda>pt. res pt = Some (''PCMA'', 8000)) pts,
     case te of Some t \<Rightarrow> Some t | None \<Rightarrow> find (\<lambda>pt. res pt = Some (''telephone-event'', 8000)) pts)"
  by (induction res pts pcmu pcma te rule: vm_choose.induct)
    (auto simp: Let_def find_app split: option.splits)

section \<open>Reading an answer\<close>

lemma trim_Cons: "\<not> is_whitespace c \<Longrightarrow> \<exists>r. trim (c # s) = c # r"
proof -
  assume c: "\<not> is_whitespace c"
  have "trim_end (c # s) = c # (if trim_end s = [] then [] else trim_end s)"
    using c trim_end_append [of s "[c]"] by (auto simp: trim_end_def dropWhile_append dropWhile_eq_Nil_conv)
  then show ?thesis using c by (simp add: trim_def trim_start_def)
qed

text \<open>Before the audio section every line but a media line is skipped.\<close>

lemma scan_skip:
  assumes "\<not> is_whitespace c" "c \<noteq> CHR ''m''" "\<not> os_in_audio s"
  shows "scan_offer ((c # l) # ls) s = scan_offer ls s"
proof -
  obtain r where "trim (c # l) = c # r" using trim_Cons [OF assms(1)] by blast
  then show ?thesis using assms by (simp add: strip_prefix_def)
qed

lemma scan_attr:
  assumes "trimmed l" "os_in_audio s" "\<not> prefix ''m='' l" "\<not> prefix ''a=rtpmap:'' l"
  shows "scan_offer (l # ls) s = scan_offer ls s"
  using assms by (simp add: strip_prefix_def trim_trimmed)

lemma scan_audio_line:
  assumes "\<not> os_in_audio s" "trimmed (''m=audio '' @ show_uint p @ '' RTP/AVP '' @ fmts)"
  shows "scan_offer ((''m=audio '' @ show_uint (p :: u16) @ '' RTP/AVP '' @ fmts) # ls) s =
    scan_offer ls (s\<lparr>os_in_audio := True, os_profile_ok := True,
      os_audio_pts := os_audio_pts s @ List.map_filter parse_u8 (split_whitespace fmts)\<rparr>)"
proof -
  have t: "plain_token ''audio''" "plain_token (show_uint p)" "plain_token ''RTP/AVP''"
    using show_uint_token [of p] by (simp_all add: plain_token_def is_whitespace_def)
  have "split_whitespace (''audio '' @ show_uint p @ '' RTP/AVP '' @ fmts) =
      ''audio'' # show_uint p # ''RTP/AVP'' # split_whitespace fmts"
    using split_whitespace_token(1) [OF t(1), of "show_uint p @ '' RTP/AVP '' @ fmts"]
      split_whitespace_token(1) [OF t(2), of "''RTP/AVP '' @ fmts"] split_whitespace_token(1) [OF t(3), of fmts] by simp
  then show ?thesis
    using assms by (simp add: strip_prefix_def trim_trimmed scan_media_def Let_def next_or_empty_def)
qed

lemma scan_rtpmap_line:
  assumes "os_in_audio s" "plain_token (name @ ''/8000'')" "CHR ''/'' \<notin> set name"
  shows "scan_offer ((''a=rtpmap:'' @ show_uint pt @ '' '' @ name @ ''/8000'') # ls) s =
    scan_offer ls (s\<lparr>os_rtpmaps := os_rtpmaps s @ [(pt, to_upper name, 8000)]\<rparr>)"
proof -
  have "split_whitespace (show_uint pt @ '' '' @ name @ ''/8000'') = [show_uint pt, name @ ''/8000'']"
    using split_whitespace_token(1) [OF show_uint_token [of pt], of "name @ ''/8000''"] split_whitespace_token(2) [OF assms(2)]
    by simp
  moreover have "split_on (CHR ''/'') (name @ ''/8000'') = [name, ''8000'']"
    using split_on_append [OF assms(3), of "''8000''"] by simp
  moreover have "trimmed (''a=rtpmap:'' @ show_uint pt @ '' '' @ name @ ''/8000'')"
    by (simp add: trimmed_def is_whitespace_def)
  moreover have "parse_u32 ''8000'' = Some 8000" by (simp add: parse_uint_def parse_radix_def digit_value_def Let_def)
  ultimately show ?thesis
    using assms(1) by (simp add: strip_prefix_def trim_trimmed scan_rtpmap_def Let_def next_or_empty_def nth_opt_def)
qed

lemma split_whitespace_fmts:
  "List.map_filter parse_u8 (split_whitespace (show_uint pt @ (case te of None \<Rightarrow> [] | Some t \<Rightarrow> '' '' @ show_uint t))) =
    pt # (case te of None \<Rightarrow> [] | Some t \<Rightarrow> [t])"
  using split_whitespace_token(1) [OF show_uint_token [of pt]]
  by (auto simp: List.map_filter_def split_whitespace_token(2) [OF show_uint_token] split: option.split)

lemma trimmed_fmts:
  "trimmed (''m=audio '' @ show_uint p @ '' RTP/AVP '' @ show_uint pt @ (case te of None \<Rightarrow> [] | Some t \<Rightarrow> '' '' @ show_uint t))"
  using show_uint_plain(8,9) [of pt] show_uint_plain(8,9) [of "the te"]
  by (cases te) (auto simp: trimmed_def is_whitespace_def str_simps)

definition answer_rtpmaps :: "u8 \<Rightarrow> string \<Rightarrow> u8 option \<Rightarrow> (u8 \<times> string \<times> u32) list" where
  "answer_rtpmaps pt name te =
     (pt, to_upper name, 8000) # (case te of None \<Rightarrow> [] | Some t \<Rightarrow> [(t, ''TELEPHONE-EVENT'', 8000)])"

lemma scan_answer:
  assumes "plain_token (name @ ''/8000'')" "CHR ''/'' \<notin> set name"
  shows "scan_offer (answer_lines sn ip port sid pt (name @ ''/8000'') te) scan_start =
    \<lparr>os_in_audio = True, os_audio_pts = pt # (case te of None \<Rightarrow> [] | Some t \<Rightarrow> [t]), os_profile_ok = True,
     os_rtpmaps = answer_rtpmaps pt name te\<rparr>"
proof -
  have tel: "plain_token (''telephone-event'' @ ''/8000'')" "CHR ''/'' \<notin> set ''telephone-event''"
    by (simp_all add: plain_token_def is_whitespace_def)
  have up: "to_upper ''telephone-event'' = ''TELEPHONE-EVENT''" by code_simp
  have skip: "scan_offer (''v=0'' # (''o=sip3 '' @ a) # (''s='' @ b) # (''c=IN IP4 '' @ c) # ''t=0 0'' # ls) scan_start =
      scan_offer ls scan_start" for a b c ls
    by (simp add: scan_skip scan_start_def is_whitespace_def del: scan_offer.simps(2))
  have tail: "scan_offer [''a=ptime:20'', ''a=sendrecv''] s = s" if "os_in_audio s" for s
    using that by (simp add: scan_attr trimmed_def is_whitespace_def del: scan_offer.simps(2))
  have fmtp: "scan_offer ((''a=fmtp:'' @ show_uint t @ '' 0-15'') # ls) s = scan_offer ls s" if "os_in_audio s" for t ls s
    using that by (intro scan_attr) (auto simp: trimmed_def is_whitespace_def)
  have tell: "scan_offer ((''a=rtpmap:'' @ show_uint t @ '' telephone-event/8000'') # ls) s =
      scan_offer ls (s\<lparr>os_rtpmaps := os_rtpmaps s @ [(t, ''TELEPHONE-EVENT'', 8000)]\<rparr>)" if "os_in_audio s" for t ls s
    using scan_rtpmap_line [OF that tel, of t ls] by (simp add: up)
  define M where "M = ''m=audio '' @ show_uint port @ '' RTP/AVP '' @ show_uint pt @ (case te of None \<Rightarrow> [] | Some t \<Rightarrow> '' '' @ show_uint t)"
  define R where "R = ''a=rtpmap:'' @ show_uint pt @ '' '' @ name @ ''/8000''"
  define T where "T = (case te of None \<Rightarrow> []
      | Some t \<Rightarrow> [''a=rtpmap:'' @ show_uint t @ '' telephone-event/8000'', ''a=fmtp:'' @ show_uint t @ '' 0-15''])"
  let ?s1 = "\<lparr>os_in_audio = True, os_audio_pts = pt # (case te of None \<Rightarrow> [] | Some t \<Rightarrow> [t]), os_profile_ok = True, os_rtpmaps = []\<rparr>"
  have "answer_lines sn ip port sid pt (name @ ''/8000'') te = ''v=0'' # (''o=sip3 '' @ show_uint sid @ '' '' @ show_uint sid @ '' IN IP4 '' @ ip) #
      (''s='' @ sn) # (''c=IN IP4 '' @ ip) # ''t=0 0'' # M # R # T @ [''a=ptime:20'', ''a=sendrecv'']"
    by (simp add: answer_lines_def M_def R_def T_def)
  then have "scan_offer (answer_lines sn ip port sid pt (name @ ''/8000'') te) scan_start =
      scan_offer (M # R # T @ [''a=ptime:20'', ''a=sendrecv'']) scan_start" by (simp only: skip)
  also have "\<dots> = scan_offer (R # T @ [''a=ptime:20'', ''a=sendrecv'']) ?s1"
    unfolding M_def by (subst scan_audio_line) (simp_all add: scan_start_def trimmed_fmts [simplified] split_whitespace_fmts [simplified])
  also have "\<dots> = scan_offer (T @ [''a=ptime:20'', ''a=sendrecv'']) (?s1\<lparr>os_rtpmaps := [(pt, to_upper name, 8000)]\<rparr>)"
    unfolding R_def by (subst scan_rtpmap_line [OF _ assms]) simp_all
  also have "\<dots> = ?s1\<lparr>os_rtpmaps := answer_rtpmaps pt name te\<rparr>"
  proof (cases te)
    case None
    then show ?thesis using tail by (simp add: T_def answer_rtpmaps_def del: scan_offer.simps(2))
  next
    case (Some t)
    have "scan_offer (T @ [''a=ptime:20'', ''a=sendrecv'']) s = s\<lparr>os_rtpmaps := os_rtpmaps s @ [(t, ''TELEPHONE-EVENT'', 8000)]\<rparr>"
      if "os_in_audio s" for s
    proof -
      have "T @ [''a=ptime:20'', ''a=sendrecv''] = (''a=rtpmap:'' @ show_uint t @ '' telephone-event/8000'') #
          (''a=fmtp:'' @ show_uint t @ '' 0-15'') # [''a=ptime:20'', ''a=sendrecv'']" by (simp add: T_def Some)
      then show ?thesis using that by (simp only: tell) (subst fmtp, simp, subst tail, simp_all)
    qed
    then show ?thesis by (simp add: answer_rtpmaps_def Some del: scan_offer.simps(2))
  qed
  finally show ?thesis by simp
qed

section \<open>The endpoints\<close>

lemma find_SomeD: "find P xs = Some x \<Longrightarrow> P x"
  by (auto simp: find_Some_iff)

lemma lines_answer:
  assumes "lf \<notin> set ip" "lf \<notin> set sn" "lf \<notin> set rm"
  shows "lines (concat (map (\<lambda>l. l @ crlf) (answer_lines sn ip port sid pt rm te))) = answer_lines sn ip port sid pt rm te"
proof -
  have "lf \<notin> set l" if "l \<in> set (answer_lines sn ip port sid pt rm te)" for l
    using that assms by (auto simp: answer_lines_def str_simps split: option.splits)
  then show ?thesis using lines_concat_crlf [of "answer_lines sn ip port sid pt rm te" "[]"] by simp
qed

lemma resolve_answer:
  assumes "te \<noteq> Some pt" "name = ''PCMU'' \<or> name = ''PCMA''"
  shows "resolve_pt (answer_rtpmaps pt name te) pt = Some (name, 8000)"
    "te = Some t \<Longrightarrow> resolve_pt (answer_rtpmaps pt name te) t = Some (''telephone-event'', 8000)"
proof -
  have "to_upper ''PCMU'' = ''PCMU''" "to_upper ''PCMA'' = ''PCMA''" by code_simp+
  then show "resolve_pt (answer_rtpmaps pt name te) pt = Some (name, 8000)"
    "te = Some t \<Longrightarrow> resolve_pt (answer_rtpmaps pt name te) t = Some (''telephone-event'', 8000)"
    using assms by (auto simp: resolve_pt_def answer_rtpmaps_def)
qed

interpretation conf_sdp: sdp_endpoint conf_negotiate_offer conf_build_answer "\<lambda>n. cn_telephone_event_pt n \<noteq> Some (cn_audio_pt n)"
proof
  fix offer n
  assume "conf_negotiate_offer offer = Ok n"
  then show "cn_telephone_event_pt n \<noteq> Some (cn_audio_pt n)"
    by (auto simp: conf_negotiate_offer_def Let_def conf_choose_spec find_Some_iff split: if_splits option.splits)
next
  fix n :: conference_negotiation and ip port sid
  assume te: "cn_telephone_event_pt n \<noteq> Some (cn_audio_pt n)" and ip: "lf \<notin> set ip"
  define name where "name = rtpmap_name (cn_codec n)"
  have name: "name = ''PCMU'' \<or> name = ''PCMA''" by (cases "cn_codec n") (simp_all add: name_def)
  then have tok: "plain_token (name @ ''/8000'')" "CHR ''/'' \<notin> set name" "lf \<notin> set (name @ ''/8000'')"
    by (auto simp: plain_token_def is_whitespace_def)
  note r = resolve_answer [OF te name]
  have c: "(if name = ''PCMU'' then ConfPcmu else ConfPcma) = cn_codec n" by (cases "cn_codec n") (simp_all add: name_def)
  show "conf_negotiate_offer (conf_build_answer ip port n sid) = Ok n"
    using name r c unfolding conf_negotiate_offer_def conf_build_answer_def name_def [symmetric]
    by (auto simp: lines_answer [OF ip _ tok(3)] scan_answer [OF tok(1,2)] conf_choose_spec split: option.splits)
qed

interpretation vm_sdp: sdp_endpoint vm_negotiate_offer vm_build_answer "\<lambda>n. vn_telephone_event_pt n \<noteq> Some (vn_audio_pt n)"
proof
  fix offer n
  assume "vm_negotiate_offer offer = Ok n"
  then show "vn_telephone_event_pt n \<noteq> Some (vn_audio_pt n)"
    by (auto simp: vm_negotiate_offer_def Let_def vm_choose_spec split: if_splits option.splits dest!: find_SomeD)
next
  fix n :: voicemail_negotiation and ip port sid
  assume te: "vn_telephone_event_pt n \<noteq> Some (vn_audio_pt n)" and ip: "lf \<notin> set ip"
  define name where "name = (case vn_codec n of VmPcmu \<Rightarrow> ''PCMU'' | VmPcma \<Rightarrow> ''PCMA'')"
  have map: "vm_rtpmap (vn_codec n) = name @ ''/8000''" by (cases "vn_codec n") (simp_all add: name_def)
  have name: "name = ''PCMU'' \<or> name = ''PCMA''" by (cases "vn_codec n") (simp_all add: name_def)
  then have tok: "plain_token (name @ ''/8000'')" "CHR ''/'' \<notin> set name" "lf \<notin> set (name @ ''/8000'')"
    by (auto simp: plain_token_def is_whitespace_def)
  note r = resolve_answer [OF te name]
  have c: "(if name = ''PCMU'' then VmPcmu else VmPcma) = vn_codec n" by (cases "vn_codec n") (simp_all add: name_def)
  show "vm_negotiate_offer (vm_build_answer ip port n sid) = Ok n"
  proof -
    let ?te = "vn_telephone_event_pt n" and ?pt = "vn_audio_pt n"
    have "vm_choose (resolve_pt (answer_rtpmaps ?pt name ?te)) (?pt # (case ?te of None \<Rightarrow> [] | Some t \<Rightarrow> [t])) None None None =
        (if name = ''PCMU'' then (Some ?pt, None, ?te) else (None, Some ?pt, ?te))"
      using name r by (cases ?te) auto
    then have "vm_negotiate_offer (vm_build_answer ip port n sid) =
        Ok \<lparr>vn_codec = (if name = ''PCMU'' then VmPcmu else VmPcma), vn_audio_pt = ?pt, vn_telephone_event_pt = ?te\<rparr>"
      unfolding vm_negotiate_offer_def vm_build_answer_def map
      by (simp add: lines_answer [OF ip _ tok(3)] scan_answer [OF tok(1,2)])
    then show ?thesis using c by simp
  qed
qed

section \<open>The properties\<close>

text \<open>
  C31: negotiation is stable. When an endpoint accepts an offer, reading the answer it sends back gives
  the same codec and the same audio and telephone-event payload types, for the conference endpoint and
  for the voicemail endpoint, whatever the offer was.
\<close>

theorem sdp_negotiation_stable:
  assumes "lf \<notin> set ip"
  shows "(conf_negotiate_offer offer = Ok n \<longrightarrow> conf_negotiate_offer (conf_build_answer ip port n sid) = Ok n) \<and>
    (vm_negotiate_offer offer = Ok v \<longrightarrow> vm_negotiate_offer (vm_build_answer ip port v sid) = Ok v)"
  using conf_sdp.renegotiation_stable [OF _ assms] vm_sdp.renegotiation_stable [OF _ assms] by blast

definition example_offer :: string where
  "example_offer = concat (map (\<lambda>l. l @ crlf)
     [''v=0'', ''m=audio 7078 RTP/AVP 8 0 101'', ''a=rtpmap:101 telephone-event/8000''])"

lemma example_offer_scan:
  "scan_offer (lines example_offer) scan_start =
    \<lparr>os_in_audio = True, os_audio_pts = [8, 0, 101], os_profile_ok = True, os_rtpmaps = [(101, ''TELEPHONE-EVENT'', 8000)]\<rparr>"
proof -
  have l: "lines example_offer = [''v=0'', ''m=audio 7078 RTP/AVP 8 0 101'', ''a=rtpmap:101 telephone-event/8000'']"
    by code_simp
  have p: "parse_u32 ''8000'' = Some 8000" "parse_u8 ''8'' = Some 8" "parse_u8 ''0'' = Some 0" "parse_u8 ''101'' = Some 101"
    by (simp_all add: parse_uint_def parse_radix_def digit_value_def Let_def)
  have s: "split_whitespace ''audio 7078 RTP/AVP 8 0 101'' = [''audio'', ''7078'', ''RTP/AVP'', ''8'', ''0'', ''101'']"
    "split_whitespace ''101 telephone-event/8000'' = [''101'', ''telephone-event/8000'']"
    "split_on (CHR ''/'') ''telephone-event/8000'' = [''telephone-event'', ''8000'']"
    "to_upper ''telephone-event'' = ''TELEPHONE-EVENT''" by code_simp+
  show ?thesis
    unfolding l
    by (simp add: trim_trimmed trimmed_def is_whitespace_def strip_prefix_def scan_media_def scan_rtpmap_def s p
        next_or_empty_def nth_opt_def scan_start_def List.map_filter_def)
qed

theorem sdp_negotiation_stable_witness:
  "conf_negotiate_offer example_offer = Ok \<lparr>cn_codec = ConfPcma, cn_audio_pt = 8, cn_telephone_event_pt = Some 101\<rparr> \<and>
   conf_negotiate_offer (conf_build_answer ''203.0.113.5'' 10100
     \<lparr>cn_codec = ConfPcma, cn_audio_pt = 8, cn_telephone_event_pt = Some 101\<rparr> 42) =
     Ok \<lparr>cn_codec = ConfPcma, cn_audio_pt = 8, cn_telephone_event_pt = Some 101\<rparr> \<and>
   vm_negotiate_offer example_offer = Ok \<lparr>vn_codec = VmPcmu, vn_audio_pt = 0, vn_telephone_event_pt = Some 101\<rparr>"
proof -
  have o: "conf_negotiate_offer example_offer = Ok \<lparr>cn_codec = ConfPcma, cn_audio_pt = 8, cn_telephone_event_pt = Some 101\<rparr>"
    "vm_negotiate_offer example_offer = Ok \<lparr>vn_codec = VmPcmu, vn_audio_pt = 0, vn_telephone_event_pt = Some 101\<rparr>"
    by (simp_all add: conf_negotiate_offer_def vm_negotiate_offer_def example_offer_scan resolve_pt_def)
  show ?thesis using sdp_negotiation_stable [of "''203.0.113.5''" example_offer _ 10100 42] o by simp
qed

end
