(* ===== verification/Voicemail_Storage.thy ===== *)
theory Voicemail_Storage
  imports Rust_Num
begin

text \<open>
  The storage of recordings, \<open>storage/voicemail.rs\<close>: keys that cannot leave the root directory, unique
  file names, and WAV files written and read as bytes. The file system is a map from paths to contents;
  its faults are arguments. The names \<open>Uuid::new_v4\<close> draws are an argument too. Lengths of byte slices
  fit \<open>usize\<close> and are natural numbers.
\<close>

section \<open>Definitions\<close>

definition MAX_WAV_SAMPLES :: nat where "MAX_WAV_SAMPLES = 10000000"

record decoded_wav =
  wav_sample_rate :: u32
  wav_samples :: "i16 list"

datatype storage_error = InvalidKey | DirFailed | CreateFailed | WriteFailed | NoUniqueKey | ReadFailed | DeleteFailed

record voicemail_storage =
  vs_root :: string
  vs_files :: "(string, u8 list) hmap"

text \<open>Which call of the file system fails; a failed write leaves the bytes it had written.\<close>

datatype write_fault = NoFault | DirFault | CreateFault | WriteFault nat

definition path_join :: "string \<Rightarrow> string \<Rightarrow> string" where
  "path_join root key = (if suffix ''/'' root then root @ key else root @ ''/'' @ key)"

definition path_for_key :: "string \<Rightarrow> string \<Rightarrow> (storage_error, string) outcome" where
  "path_for_key root key =
     (if contains_str ''..'' key \<or> prefix ''/'' key then Err InvalidKey else Ok (path_join root key))"

definition sanitize_key_part :: "string \<Rightarrow> string" where
  "sanitize_key_part input =
     map (\<lambda>c. if c \<in> {CHR ''/'', backslash, CHR '':'', CHR 0x00} then CHR ''_'' else c) input"

definition message_key :: "string \<Rightarrow> string \<Rightarrow> string \<Rightarrow> string" where
  "message_key mailbox cid uuid = mailbox @ ''/'' @ cid @ ''-'' @ uuid @ ''.wav''"

text \<open>The loop over at most eight names; the list holds the names still to be drawn.\<close>

fun write_loop ::
  "write_fault \<Rightarrow> string \<Rightarrow> string \<Rightarrow> u8 list \<Rightarrow> string list \<Rightarrow> voicemail_storage
    \<Rightarrow> (storage_error, string) outcome \<times> voicemail_storage" where
  "write_loop fault mailbox cid bytes [] s = (Err NoUniqueKey, s)"
| "write_loop fault mailbox cid bytes (uuid # uuids) s =
     (let key = message_key mailbox cid uuid in
      case path_for_key (vs_root s) key of
        Ok path \<Rightarrow>
          if hm_get (vs_files s) path \<noteq> None then write_loop fault mailbox cid bytes uuids s
          else (case fault of
                  CreateFault \<Rightarrow> (Err CreateFailed, s)
                | WriteFault n \<Rightarrow> (Err WriteFailed, s\<lparr>vs_files := hm_put path (take n bytes) (vs_files s)\<rparr>)
                | _ \<Rightarrow> (Ok key, s\<lparr>vs_files := hm_put path bytes (vs_files s)\<rparr>))
      | Err e \<Rightarrow> (Err e, s)
      | Panic \<Rightarrow> (Panic, s))"

definition write_message ::
  "write_fault \<Rightarrow> (nat \<Rightarrow> string) \<Rightarrow> string \<Rightarrow> string \<Rightarrow> u8 list \<Rightarrow> voicemail_storage
    \<Rightarrow> (storage_error, string) outcome \<times> voicemail_storage" where
  "write_message fault uuids mailbox cid bytes s =
     (let mailbox = sanitize_key_part mailbox;
          cid = sanitize_key_part cid
      in case path_for_key (vs_root s) mailbox of
           Ok dir \<Rightarrow> if fault = DirFault then (Err DirFailed, s) else write_loop fault mailbox cid bytes (map uuids [0..<8]) s
         | Err e \<Rightarrow> (Err e, s)
         | Panic \<Rightarrow> (Panic, s))"

definition storage_read :: "string \<Rightarrow> voicemail_storage \<Rightarrow> (storage_error, u8 list) outcome" where
  "storage_read key s =
     (case path_for_key (vs_root s) key of
        Ok path \<Rightarrow> (case hm_get (vs_files s) path of None \<Rightarrow> Err ReadFailed | Some bytes \<Rightarrow> Ok bytes)
      | Err e \<Rightarrow> Err e
      | Panic \<Rightarrow> Panic)"

definition storage_delete :: "bool \<Rightarrow> string \<Rightarrow> voicemail_storage \<Rightarrow> (storage_error, unit) outcome \<times> voicemail_storage" where
  "storage_delete fails key s =
     (case path_for_key (vs_root s) key of
        Ok path \<Rightarrow>
          if hm_get (vs_files s) path = None then (Ok (), s)
          else if fails then (Err DeleteFailed, s)
          else (Ok (), s\<lparr>vs_files := hm_del path (vs_files s)\<rparr>)
      | Err e \<Rightarrow> (Err e, s)
      | Panic \<Rightarrow> (Panic, s))"

text \<open>\<open>None\<close> is a panic: a zero sample rate, or a size that does not fit 32 bits.\<close>

definition pcm16_wav_bytes :: "i16 list \<Rightarrow> u32 \<Rightarrow> u8 list option" where
  "pcm16_wav_bytes samples sample_rate =
     (if sample_rate = 0 \<or> 2 ^ 32 \<le> 2 * length samples \<or> 2 ^ 32 \<le> 2 * unat sample_rate \<or>
         2 ^ 32 \<le> 36 + 2 * length samples
      then None
      else let data_len = of_nat (2 * length samples) :: u32 in
        Some ([0x52, 0x49, 0x46, 0x46] @ le_bytes32 (36 + data_len) @
              [0x57, 0x41, 0x56, 0x45, 0x66, 0x6D, 0x74, 0x20] @ le_bytes32 16 @ le_bytes16 1 @ le_bytes16 1 @
              le_bytes32 sample_rate @ le_bytes32 (2 * sample_rate) @ le_bytes16 2 @ le_bytes16 16 @
              [0x64, 0x61, 0x74, 0x61] @ le_bytes32 data_len @ concat (map le_bytes16 samples)))"

datatype wav_error = NotWav | NotMonoPcm16 | TruncatedData | TooManySamples | ChunkPastEnd | NoDataChunk

fun le_samples :: "u8 list \<Rightarrow> i16 list" where
  "le_samples (a # b # r) = from_le16 a b # le_samples r"
| "le_samples _ = []"

function wav_chunks :: "u8 list \<Rightarrow> u32 \<Rightarrow> nat \<Rightarrow> (wav_error, decoded_wav) outcome" where
  "wav_chunks bytes rate offset =
     (if offset + 8 \<le> length bytes then
        (let id = take 4 (drop offset bytes);
             len = unat (from_le32 (bytes ! (offset + 4)) (bytes ! (offset + 5)) (bytes ! (offset + 6)) (bytes ! (offset + 7)));
             offset = offset + 8
         in if id = [0x64, 0x61, 0x74, 0x61] then
              (if length bytes < offset + len then Err TruncatedData
               else if MAX_WAV_SAMPLES < len div 2 then Err TooManySamples
               else Ok \<lparr>wav_sample_rate = rate, wav_samples = le_samples (take len (drop offset bytes))\<rparr>)
            else (let padding = len mod 2; offset = offset + len + padding
                  in if length bytes < offset then Err ChunkPastEnd else wav_chunks bytes rate offset))
      else Err NoDataChunk)"
  by pat_completeness auto
termination
  by (relation "measure (\<lambda>(bytes, rate, offset). length bytes - offset)") auto

declare wav_chunks.simps [simp del]

definition read_pcm16_wav :: "u8 list \<Rightarrow> (wav_error, decoded_wav) outcome" where
  "read_pcm16_wav bytes =
     (if length bytes < 44 \<or> take 4 bytes \<noteq> [0x52, 0x49, 0x46, 0x46] \<or> take 4 (drop 8 bytes) \<noteq> [0x57, 0x41, 0x56, 0x45]
      then Err NotWav
      else let audio_format = from_le16 (bytes ! 20) (bytes ! 21);
               channels = from_le16 (bytes ! 22) (bytes ! 23);
               sample_rate = from_le32 (bytes ! 24) (bytes ! 25) (bytes ! 26) (bytes ! 27);
               bits_per_sample = from_le16 (bytes ! 34) (bytes ! 35)
           in if audio_format \<noteq> 1 \<or> channels \<noteq> 1 \<or> bits_per_sample \<noteq> 16 then Err NotMonoPcm16
              else wav_chunks bytes sample_rate 12)"

section \<open>WAV round trip\<close>

lemma le_bytes_cons:
  "le_bytes16 w = [ucast w, ucast (drop_bit 8 w)]"
  "le_bytes32 v = [ucast v, ucast (drop_bit 8 v), ucast (drop_bit 16 v), ucast (drop_bit 24 v)]"
  by (simp_all add: le_bytes16_def be_bytes16_def le_bytes32_def be_bytes32_def)

lemma from_le_bytes [word_simps]:
  "from_le16 (ucast w) (ucast (drop_bit 8 w)) = w"
  "from_le32 (ucast v) (ucast (drop_bit 8 v)) (ucast (drop_bit 16 v)) (ucast (drop_bit 24 v)) = v"
  by (simp_all add: from_le16_def from_be16_bytes from_le32_def from_be32_bytes)

lemma le_samples_bytes: "le_samples (concat (map le_bytes16 xs)) = xs"
  by (induction xs) (simp_all add: le_bytes_cons from_le_bytes)

lemma length_le_concat: "length (concat (map le_bytes16 xs)) = 2 * length xs"
  by (induction xs) simp_all

definition wav_header :: "u32 \<Rightarrow> u32 \<Rightarrow> u8 list" where
  "wav_header rate data_len =
     [0x52, 0x49, 0x46, 0x46] @ le_bytes32 (36 + data_len) @
     [0x57, 0x41, 0x56, 0x45, 0x66, 0x6D, 0x74, 0x20] @ le_bytes32 16 @ le_bytes16 1 @ le_bytes16 1 @
     le_bytes32 rate @ le_bytes32 (2 * rate) @ le_bytes16 2 @ le_bytes16 16 @
     [0x64, 0x61, 0x74, 0x61] @ le_bytes32 data_len"

lemma wav_header_fields:
  assumes b: "b = wav_header rate dl @ d"
  shows "length b = 44 + length d"
    "take 4 b = [0x52, 0x49, 0x46, 0x46]" "take 4 (drop 8 b) = [0x57, 0x41, 0x56, 0x45]"
    "from_le16 (b ! 20) (b ! 21) = 1" "from_le16 (b ! 22) (b ! 23) = 1" "from_le16 (b ! 34) (b ! 35) = 16"
    "from_le32 (b ! 24) (b ! 25) (b ! 26) (b ! 27) = rate"
    "take 4 (drop 12 b) = [0x66, 0x6D, 0x74, 0x20]" "from_le32 (b ! 16) (b ! 17) (b ! 18) (b ! 19) = 16"
    "take 4 (drop 36 b) = [0x64, 0x61, 0x74, 0x61]" "from_le32 (b ! 40) (b ! 41) (b ! 42) (b ! 43) = dl"
    "drop 44 b = d"
  unfolding b wav_header_def le_bytes_cons
  using from_le_bytes(1) [of 1] from_le_bytes(1) [of 16] from_le_bytes(2) [of 16] from_le_bytes(2) [of rate] from_le_bytes(2) [of dl]
  by (simp_all del: word_of_int_numeral)

lemma wav_round_trip:
  assumes "length xs \<le> MAX_WAV_SAMPLES" "rate \<noteq> 0" "2 * unat rate < 2 ^ 32"
  shows "\<exists>bytes. pcm16_wav_bytes xs rate = Some bytes \<and>
    read_pcm16_wav bytes = Ok \<lparr>wav_sample_rate = rate, wav_samples = xs\<rparr>"
proof -
  define dl where "dl = (of_nat (2 * length xs) :: u32)"
  define b where "b = wav_header rate dl @ concat (map le_bytes16 xs)"
  have small: "2 * length xs + 36 < 2 ^ 32" using assms(1) by (simp add: MAX_WAV_SAMPLES_def)
  have "unat (of_nat n :: u32) = n" if "n < 2 ^ 32" for n using that by (simp add: unat_of_nat take_bit_nat_eq_self)
  from this [of "2 * length xs"] have dl: "unat dl = 2 * length xs" unfolding dl_def using small by linarith
  have w: "pcm16_wav_bytes xs rate = Some b"
    using assms small by (simp add: pcm16_wav_bytes_def b_def wav_header_def dl_def Let_def)
  note f = wav_header_fields [OF b_def]
  have len: "length b = 44 + 2 * length xs" using f(1) by (simp only: length_le_concat)
  have data: "wav_chunks b rate 36 = Ok \<lparr>wav_sample_rate = rate, wav_samples = xs\<rparr>"
    using assms(1)
    by (subst wav_chunks.simps) (simp add: f(2-) len dl le_samples_bytes length_le_concat del: length_concat)
  have "wav_chunks b rate 12 = wav_chunks b rate 36"
    by (subst wav_chunks.simps) (simp add: f(2-) len)
  then have "read_pcm16_wav b = Ok \<lparr>wav_sample_rate = rate, wav_samples = xs\<rparr>"
    using data by (simp add: read_pcm16_wav_def f(2-) len Let_def)
  then show ?thesis using w by blast
qed

section \<open>Keys\<close>

lemma sanitize_plain: "CHR ''/'' \<notin> set (sanitize_key_part s)" "backslash \<notin> set (sanitize_key_part s)"
  by (auto simp: sanitize_key_part_def)

text \<open>The components of a path, and whether one of them climbs to the parent directory.\<close>

definition climbs :: "string \<Rightarrow> bool" where
  "climbs path = (''..'' \<in> set (split_on (CHR ''/'') path))"

lemma sublist_join: "p \<in> set ps \<Longrightarrow> sublist p (join sep ps)"
proof (induction sep ps rule: join.induct)
  case (3 sep x y ps)
  have "sublist q (x @ sep @ r)" if "sublist q r" for q r using that by (auto simp: sublist_def) (metis append_assoc)
  then show ?case using 3 by auto
qed auto

lemma climbs_contains: "climbs key \<Longrightarrow> contains_str ''..'' key"
  using sublist_join [of "''..''" "split_on (CHR ''/'') key" "''/''"]
  by (simp add: climbs_def contains_str_iff join_split_on)

lemma path_for_key_Ok: "path_for_key root key = Ok path \<Longrightarrow> \<not> climbs key \<and> \<not> prefix ''/'' key \<and> path = path_join root key"
  using climbs_contains [of key] by (auto simp: path_for_key_def split: if_splits)

lemma path_join_inj: "path_join r k = path_join r k' \<Longrightarrow> k = k'"
  by (auto simp: path_join_def split: if_splits)

lemma write_loop_Ok:
  "write_loop fault mb cid bytes us s = (Ok key, s') \<Longrightarrow>
    \<exists>path u. u \<in> set us \<and> key = message_key mb cid u \<and> path_for_key (vs_root s) key = Ok path \<and> hm_get (vs_files s) path = None \<and>
      s' = s\<lparr>vs_files := hm_put path bytes (vs_files s)\<rparr>"
  by (induction us)
    (auto simp: Let_def split: outcome.splits write_fault.splits if_splits)

lemma write_message_Ok:
  assumes "write_message fault us mb cid bytes s = (Ok key, s')"
  shows "\<exists>path u. key = message_key (sanitize_key_part mb) (sanitize_key_part cid) u \<and> path_for_key (vs_root s) key = Ok path \<and>
    hm_get (vs_files s) path = None \<and> s' = s\<lparr>vs_files := hm_put path bytes (vs_files s)\<rparr>"
  using assms write_loop_Ok [of fault "sanitize_key_part mb" "sanitize_key_part cid" bytes "map us [0..<8]" s key s']
  by (auto simp: write_message_def Let_def split: outcome.splits if_splits)

section \<open>The properties\<close>

text \<open>
  A stored recording comes back. When a message of at most ten million samples at a valid rate is
  written, its bytes exist, the returned key names no parent directory and no absolute path, reading that
  key gives the same samples and rate, and no file that was there before has changed.
\<close>

theorem stored_recording_roundtrip:
  assumes "length xs \<le> MAX_WAV_SAMPLES" "rate \<noteq> 0" "2 * unat rate < 2 ^ 32" "pcm16_wav_bytes xs rate = Some bytes"
    and "write_message fault uuids mailbox cid bytes s = (Ok key, s')"
  shows "\<not> climbs key \<and> \<not> prefix ''/'' key \<and>
    (\<exists>b. storage_read key s' = Ok b \<and> read_pcm16_wav b = Ok \<lparr>wav_sample_rate = rate, wav_samples = xs\<rparr>) \<and>
    (\<forall>p b. hm_get (vs_files s) p = Some b \<longrightarrow> hm_get (vs_files s') p = Some b)"
proof -
  obtain path where p: "path_for_key (vs_root s) key = Ok path" "hm_get (vs_files s) path = None"
    "s' = s\<lparr>vs_files := hm_put path bytes (vs_files s)\<rparr>"
    using write_message_Ok [OF assms(5)] by auto
  have "storage_read key s' = Ok bytes" using p by (simp add: storage_read_def hm.get_put)
  moreover have "read_pcm16_wav bytes = Ok \<lparr>wav_sample_rate = rate, wav_samples = xs\<rparr>"
    using wav_round_trip [OF assms(1-3)] assms(4) by auto
  moreover have "\<forall>q b. hm_get (vs_files s) q = Some b \<longrightarrow> hm_get (vs_files s') q = Some b"
    using p(2,3) by (auto simp: hm.get_put)
  ultimately show ?thesis using path_for_key_Ok [OF p(1)] by blast
qed

theorem stored_recording_roundtrip_witness:
  "\<exists>bytes key s' b. pcm16_wav_bytes [1, - 2] 8000 = Some bytes \<and>
     write_message NoFault (\<lambda>i. ''u'') ''1001'' ''c/1'' bytes \<lparr>vs_root = ''/data'', vs_files = []\<rparr> = (Ok key, s') \<and>
     key = ''1001/c_1-u.wav'' \<and> storage_read key s' = Ok b \<and>
     read_pcm16_wav b = Ok \<lparr>wav_sample_rate = 8000, wav_samples = [1, - 2]\<rparr>"
proof -
  obtain bytes where b: "pcm16_wav_bytes [1, - 2] 8000 = Some bytes"
    using wav_round_trip [of "[1, - 2]" 8000] by (auto simp: MAX_WAV_SAMPLES_def)
  have k: "path_for_key ''/data'' ''1001'' = Ok ''/data/1001''" "path_for_key ''/data'' ''1001/c_1-u.wav'' = Ok ''/data/1001/c_1-u.wav''"
    by code_simp+
  have "sanitize_key_part ''1001'' = ''1001''" "sanitize_key_part ''c/1'' = ''c_1''" by code_simp+
  then have w: "write_message NoFault (\<lambda>i. ''u'') ''1001'' ''c/1'' bytes \<lparr>vs_root = ''/data'', vs_files = []\<rparr> =
      (Ok ''1001/c_1-u.wav'', \<lparr>vs_root = ''/data'', vs_files = [(''/data/1001/c_1-u.wav'', bytes)]\<rparr>)"
    using k by (simp add: write_message_def Let_def message_key_def upt_conv_Cons)
  show ?thesis using stored_recording_roundtrip [OF _ _ _ b w] b w by (auto simp: MAX_WAV_SAMPLES_def)
qed

end
