(* ===== verification/Voicemail_Media.thy ===== *)
theory Voicemail_Media
  imports Rtp Port_Alloc Sdp_Negotiation Voicemail_Storage Net_Addr
begin

text \<open>
  The media of voicemail calls, \<open>voicemail_media.rs\<close>: the registry of sessions with their sockets, the loop
  that records RTP into a stored WAV file, and the loop that plays a file. Session objects live in a store,
  because a running task keeps its clone of a session, with the socket, after the registry forgot it. What a
  loop reads from outside in one iteration (clock, flag, datagram) is an event; the lists of events are
  finite, and a loop still waiting at their end has no result.
\<close>

section \<open>Sessions\<close>

definition VM_SAMPLE_RATE :: nat where "VM_SAMPLE_RATE = 8000"
definition VM_RTP_BUF_SIZE :: nat where "VM_RTP_BUF_SIZE = 4096"
definition MAX_RECORD_SAMPLES :: nat where "MAX_RECORD_SAMPLES = 10000000"
definition PLAY_PEER_WAIT :: nat where "PLAY_PEER_WAIT = 5 * 1000000000"

datatype voicemail_dtmf = DtmfOne | DtmfTwo | DtmfSeven | DtmfNine | DtmfPound | DtmfStar | DtmfDigit char

record vm_session =
  vm_port :: u16
  vm_codec :: voicemail_codec
  vm_audio_pt :: u8
  vm_telephone_event_pt :: "u8 option"
  vm_peer :: "socket_addr option"
  vm_active :: bool

record voicemail_media =
  vm_public_ip :: string
  vm_min_port :: u16
  vm_max_port :: u16
  vm_port_counter :: u32
  vm_sessions :: "(nat, vm_session) hmap"
  vm_registry :: "(string, nat) hmap"
  vm_held :: "nat list"
  vm_next :: nat

definition voicemail_media_new :: "string \<Rightarrow> u16 \<Rightarrow> u16 \<Rightarrow> voicemail_media" where
  "voicemail_media_new public_ip min_port max_port =
     \<lparr>vm_public_ip = public_ip, vm_min_port = min_port, vm_max_port = max_port, vm_port_counter = 0,
      vm_sessions = [], vm_registry = [], vm_held = [], vm_next = 0\<rparr>"

text \<open>The sockets that exist: of registered sessions and of sessions a task holds.\<close>

definition vm_bound_ports :: "voicemail_media \<Rightarrow> u16 list" where
  "vm_bound_ports s =
     map (\<lambda>(i, x). vm_port x) (filter (\<lambda>(i, x). i \<in> set (map snd (vm_registry s)) \<or> i \<in> set (vm_held s)) (vm_sessions s))"

definition validate_payload_type :: "u8 \<Rightarrow> (string, unit) outcome" where
  "validate_payload_type pt =
     (if 127 < pt then Err (''RTP payload type must be in 0..=127, got '' @ show_uint pt) else Ok ())"

definition vm_allocate ::
  "(u16 \<Rightarrow> bool) \<Rightarrow> string \<Rightarrow> voicemail_codec \<Rightarrow> u8 \<Rightarrow> u8 option \<Rightarrow> voicemail_media
    \<Rightarrow> (string, u16) outcome \<times> voicemail_media" where
  "vm_allocate os cid codec audio_pt te s =
     (case validate_payload_type audio_pt of
        Err e \<Rightarrow> (Err e, s)
      | Panic \<Rightarrow> (Panic, s)
      | Ok _ \<Rightarrow>
          (case (case te of None \<Rightarrow> Ok () | Some pt \<Rightarrow> validate_payload_type pt) of
             Err e \<Rightarrow> (Err e, s)
           | Panic \<Rightarrow> (Panic, s)
           | Ok _ \<Rightarrow>
               (case vm_bind_socket (vm_min_port s) (vm_max_port s) (vm_port_counter s)
                       (\<lambda>p. os p \<and> p \<notin> set (vm_bound_ports s)) of
                  (Ok port, n) \<Rightarrow>
                    (let s = s\<lparr>vm_port_counter := n\<rparr> in
                     if hm_get (vm_registry s) cid \<noteq> None
                     then (Err (''voicemail media call id already exists: '' @ cid), s)
                     else (Ok port, s\<lparr>vm_sessions := hm_put (vm_next s)
                              \<lparr>vm_port = port, vm_codec = codec, vm_audio_pt = audio_pt, vm_telephone_event_pt = te,
                               vm_peer = None, vm_active = True\<rparr> (vm_sessions s),
                            vm_registry := hm_put cid (vm_next s) (vm_registry s), vm_next := vm_next s + 1\<rparr>))
                | (Err e, n) \<Rightarrow> (Err e, s\<lparr>vm_port_counter := n\<rparr>)
                | (Panic, n) \<Rightarrow> (Panic, s\<lparr>vm_port_counter := n\<rparr>))))"

definition vm_remove :: "string \<Rightarrow> voicemail_media \<Rightarrow> voicemail_media" where
  "vm_remove cid s =
     (case hm_get (vm_registry s) cid of
        None \<Rightarrow> s
      | Some i \<Rightarrow> s\<lparr>vm_registry := hm_del cid (vm_registry s),
                    vm_sessions := hm_adjust i (\<lambda>x. x\<lparr>vm_active := False\<rparr>) (vm_sessions s)\<rparr>)"

definition get_session :: "string \<Rightarrow> voicemail_media \<Rightarrow> (string, nat) outcome" where
  "get_session cid s =
     (case hm_get (vm_registry s) cid of
        None \<Rightarrow> Err (''voicemail media session not found for '' @ cid)
      | Some i \<Rightarrow> Ok i)"

section \<open>Packets\<close>

definition validated_rtp_packet :: "vm_session \<Rightarrow> u8 list \<Rightarrow> (u8 \<times> nat) option" where
  "validated_rtp_packet session packet =
     (case vm_rtp_payload_offset packet of
        None \<Rightarrow> None
      | Some payload_offset \<Rightarrow>
          if length packet \<le> payload_offset then None
          else let pt = packet ! 1 AND 0x7F in
               if pt \<noteq> vm_audio_pt session \<and> Some pt \<noteq> vm_telephone_event_pt session then None
               else Some (pt, payload_offset))"

definition learn_or_verify_peer :: "socket_addr \<Rightarrow> vm_session \<Rightarrow> bool \<times> vm_session" where
  "learn_or_verify_peer src session =
     (case vm_peer session of
        Some existing \<Rightarrow> (existing = src, session)
      | None \<Rightarrow> (True, session\<lparr>vm_peer := Some src\<rparr>))"

definition rtp_dtmf_is_end :: "u8 list \<Rightarrow> bool" where
  "rtp_dtmf_is_end payload = (4 \<le> length payload \<and> payload ! 1 AND 0x80 \<noteq> 0)"

definition dtmf_from_rtp_event :: "u8 \<Rightarrow> voicemail_dtmf option" where
  "dtmf_from_rtp_event event =
     (if event = 1 then Some DtmfOne else if event = 2 then Some DtmfTwo else if event = 7 then Some DtmfSeven
      else if event = 9 then Some DtmfNine else if event = 10 then Some DtmfStar else if event = 11 then Some DtmfPound
      else None)"

text \<open>The first line \<open>Signal=value\<close> with a known value.\<close>

definition dtmf_relay_line :: "string \<Rightarrow> voicemail_dtmf option" where
  "dtmf_relay_line line =
     (case split_once (CHR ''='') line of
        None \<Rightarrow> None
      | Some (name, value) \<Rightarrow>
          if to_lower (trim name) \<noteq> ''signal'' then None
          else let d = trim value in
            if d = ''1'' then Some DtmfOne else if d = ''2'' then Some DtmfTwo else if d = ''7'' then Some DtmfSeven
            else if d = ''9'' then Some DtmfNine else if d = ''#'' then Some DtmfPound else if d = ''*'' then Some DtmfStar
            else if length d = 1 \<and> is_ascii_digit (hd d) then Some (DtmfDigit (hd d)) else None)"

fun find_map :: "('a \<Rightarrow> 'b option) \<Rightarrow> 'a list \<Rightarrow> 'b option" where
  "find_map f [] = None"
| "find_map f (x # xs) = (case f x of Some y \<Rightarrow> Some y | None \<Rightarrow> find_map f xs)"

definition parse_dtmf_relay :: "string \<Rightarrow> voicemail_dtmf option" where
  "parse_dtmf_relay body = find_map dtmf_relay_line (lines body)"

definition max_record_samples :: "u32 \<Rightarrow> (string, nat) outcome" where
  "max_record_samples max_secs =
     (if max_secs = 0 then Err ''voicemail max recording duration must be positive''
      else let samples = unat max_secs * VM_SAMPLE_RATE in
           if MAX_RECORD_SAMPLES < samples
           then Err (''voicemail max recording duration exceeds '' @ show_nat MAX_RECORD_SAMPLES @ '' samples'')
           else Ok samples)"

text \<open>The sum stays far below \<open>usize::MAX\<close> for any vector that exists.\<close>

definition duration_secs :: "nat \<Rightarrow> u32" where
  "duration_secs samples =
     (let s = (samples + (VM_SAMPLE_RATE - 1)) div VM_SAMPLE_RATE in if s < 2 ^ 32 then of_nat s else - 1)"

section \<open>Recording\<close>

datatype recv = RecvTimeout | RecvError string | RecvPacket "u8 list" socket_addr

record iteration =
  it_active :: bool
  it_now :: nat
  it_recv :: recv
  it_after :: nat

record recording =
  rec_samples :: "i16 list"
  rec_started :: nat
  rec_last_activity :: nat

datatype 'a loop = Again 'a | Stop 'a | Fail string

definition decode_payload :: "voicemail_codec \<Rightarrow> u8 list \<Rightarrow> i16 list" where
  "decode_payload codec payload = (case codec of VmPcmu \<Rightarrow> decode_ulaw payload | VmPcma \<Rightarrow> decode_alaw payload)"

definition record_packet ::
  "nat \<Rightarrow> nat \<Rightarrow> u8 list \<Rightarrow> socket_addr \<Rightarrow> vm_session \<times> recording \<Rightarrow> (vm_session \<times> recording) loop" where
  "record_packet max_samples now datagram src sr =
     (let (session, r) = sr;
          packet = take VM_RTP_BUF_SIZE datagram
      in case validated_rtp_packet session packet of
           None \<Rightarrow> Again (session, r)
         | Some (pt, payload_offset) \<Rightarrow>
             (let (ok, session) = learn_or_verify_peer src session in
              if \<not> ok then Again (session, r)
              else let payload = drop payload_offset packet in
                if Some pt = vm_telephone_event_pt session then
                  (if rtp_dtmf_is_end payload \<and> dtmf_from_rtp_event (payload ! 0) = Some DtmfPound then Stop (session, r)
                   else Again (session, r\<lparr>rec_last_activity := now\<rparr>))
                else if pt \<noteq> vm_audio_pt session then Again (session, r)
                else let pcm = decode_payload (vm_codec session) payload in
                  if pcm = [] then Again (session, r)
                  else Again (session, r\<lparr>rec_samples := rec_samples r @ take (max_samples - length (rec_samples r)) pcm,
                                         rec_last_activity := now\<rparr>)))"

definition record_iteration ::
  "nat \<Rightarrow> u32 \<Rightarrow> u32 \<Rightarrow> iteration \<Rightarrow> vm_session \<times> recording \<Rightarrow> (vm_session \<times> recording) loop" where
  "record_iteration max_samples max_secs idle_secs it sr =
     (let (session, r) = sr in
      if \<not> (it_active it \<and> length (rec_samples r) < max_samples) then Stop sr
      else if 0 < max_secs \<and> unat max_secs * 1000000000 \<le> it_now it - rec_started r then Stop sr
      else if 0 < idle_secs \<and> unat idle_secs * 1000000000 \<le> it_now it - rec_last_activity r then Stop sr
      else case it_recv it of
             RecvTimeout \<Rightarrow> Again sr
           | RecvError e \<Rightarrow> Fail e
           | RecvPacket datagram src \<Rightarrow> record_packet max_samples (it_after it) datagram src sr)"

text \<open>\<open>None\<close> when the loop waits for more.\<close>

fun record_loop ::
  "nat \<Rightarrow> u32 \<Rightarrow> u32 \<Rightarrow> iteration list \<Rightarrow> vm_session \<times> recording \<Rightarrow> (string, vm_session \<times> recording) outcome option" where
  "record_loop max_samples max_secs idle_secs [] sr = None"
| "record_loop max_samples max_secs idle_secs (it # its) sr =
     (case record_iteration max_samples max_secs idle_secs it sr of
        Stop sr' \<Rightarrow> Some (Ok sr')
      | Fail e \<Rightarrow> Some (Err e)
      | Again sr' \<Rightarrow> record_loop max_samples max_secs idle_secs its sr')"

definition storage_error_text :: "storage_error \<Rightarrow> string" where
  "storage_error_text e = ''voicemail storage error''"

text \<open>What follows the loop: the WAV file and its key, with the duration.\<close>

definition store_recording ::
  "write_fault \<Rightarrow> (nat \<Rightarrow> string) \<Rightarrow> string \<Rightarrow> string \<Rightarrow> i16 list \<Rightarrow> voicemail_storage
    \<Rightarrow> (string, string \<times> u32) outcome \<times> voicemail_storage" where
  "store_recording fault uuids mailbox cid samples storage =
     (case pcm16_wav_bytes samples (of_nat VM_SAMPLE_RATE) of
        None \<Rightarrow> (Panic, storage)
      | Some wav \<Rightarrow>
          (case write_message fault uuids mailbox cid wav storage of
             (Ok key, storage') \<Rightarrow> (Ok (key, duration_secs (length samples)), storage')
           | (Err e, storage') \<Rightarrow> (Err (storage_error_text e), storage')
           | (Panic, storage') \<Rightarrow> (Panic, storage')))"

definition record_to_storage ::
  "write_fault \<Rightarrow> (nat \<Rightarrow> string) \<Rightarrow> nat \<Rightarrow> string \<Rightarrow> string \<Rightarrow> u32 \<Rightarrow> u32 \<Rightarrow> iteration list \<Rightarrow> vm_session \<Rightarrow> voicemail_storage
    \<Rightarrow> ((string, string \<times> u32) outcome \<times> voicemail_storage) option" where
  "record_to_storage fault uuids now cid mailbox max_secs idle_secs its session storage =
     (case max_record_samples max_secs of
        Err e \<Rightarrow> Some (Err e, storage)
      | Panic \<Rightarrow> Some (Panic, storage)
      | Ok max_samples \<Rightarrow>
          (case record_loop max_samples max_secs idle_secs its
                  (session, \<lparr>rec_samples = [], rec_started = now, rec_last_activity = now\<rparr>) of
             None \<Rightarrow> None
           | Some (Ok (session', r)) \<Rightarrow> Some (store_recording fault uuids mailbox cid (rec_samples r) storage)
           | Some (Err e) \<Rightarrow> Some (Err e, storage)
           | Some Panic \<Rightarrow> Some (Panic, storage)))"

section \<open>Playing\<close>

fun wait_for_peer :: "nat \<Rightarrow> iteration list \<Rightarrow> vm_session \<Rightarrow> (string, socket_addr) outcome option \<times> vm_session" where
  "wait_for_peer deadline its session =
     (case vm_peer session of
        Some peer \<Rightarrow> (Some (Ok peer), session)
      | None \<Rightarrow>
          (case its of
             [] \<Rightarrow> (None, session)
           | it # its' \<Rightarrow>
               if \<not> it_active it then (Some (Err ''voicemail media session was removed''), session)
               else if deadline \<le> it_now it then (Some (Err ''timed out waiting for voicemail RTP peer''), session)
               else case it_recv it of
                      RecvTimeout \<Rightarrow> wait_for_peer deadline its' session
                    | RecvError e \<Rightarrow> (Some (Err e), session)
                    | RecvPacket datagram src \<Rightarrow>
                        if validated_rtp_packet session (take VM_RTP_BUF_SIZE datagram) = None
                        then wait_for_peer deadline its' session
                        else let (ok, session') = learn_or_verify_peer src session in
                          if ok then (Some (Ok src), session') else wait_for_peer deadline its' session'))"

declare wait_for_peer.simps [simp del]

text \<open>The datagrams that wait in the socket, read without blocking.\<close>

fun refresh_peer_nonblocking :: "(u8 list \<times> socket_addr) list \<Rightarrow> vm_session \<Rightarrow> socket_addr option \<times> vm_session" where
  "refresh_peer_nonblocking [] session = (None, session)"
| "refresh_peer_nonblocking ((datagram, src) # ds) session =
     (if validated_rtp_packet session (take VM_RTP_BUF_SIZE datagram) = None then refresh_peer_nonblocking ds session
      else let (ok, session) = learn_or_verify_peer src session;
               (latest, session) = refresh_peer_nonblocking ds session
           in (case latest of Some p \<Rightarrow> Some p | None \<Rightarrow> if ok then Some src else None, session))"

record frame_event =
  fe_active :: bool
  fe_waiting :: "(u8 list \<times> socket_addr) list"
  fe_send_fails :: bool

function frames :: "i16 list \<Rightarrow> i16 list list" where
  "frames samples = (if samples = [] then [] else take SAMPLES_PER_FRAME samples # frames (drop SAMPLES_PER_FRAME samples))"
  by auto
termination
  by (relation "measure length") (auto simp: SAMPLES_PER_FRAME_def)

declare frames.simps [simp del]

definition encode_frame :: "bool \<Rightarrow> voicemail_codec \<Rightarrow> i16 list \<Rightarrow> u8 list option" where
  "encode_frame checks codec frame = (case codec of VmPcmu \<Rightarrow> encode_ulaw checks frame | VmPcma \<Rightarrow> Some (encode_alaw frame))"

text \<open>The packets sent with their destination, and how the loop ended.\<close>

fun play_frames ::
  "bool \<Rightarrow> frame_event list \<Rightarrow> i16 list list \<Rightarrow> socket_addr \<Rightarrow> u16 \<Rightarrow> u32 \<Rightarrow> u32 \<Rightarrow> vm_session
    \<Rightarrow> (socket_addr \<times> u8 list) list \<times> (string, unit) outcome option" where
  "play_frames checks evs [] peer seq ts ssrc session = ([], Some (Ok ()))"
| "play_frames checks [] (chunk # chunks) peer seq ts ssrc session = ([], None)"
| "play_frames checks (ev # evs) (chunk # chunks) peer seq ts ssrc session =
     (if \<not> fe_active ev then ([], Some (Ok ()))
      else let (updated, session) = refresh_peer_nonblocking (fe_waiting ev) session;
               peer = (case updated of Some p \<Rightarrow> p | None \<Rightarrow> peer);
               frame = fit_frame chunk
           in case encode_frame checks (vm_codec session) frame of
                None \<Rightarrow> ([], Some Panic)
              | Some payload \<Rightarrow>
                  (case vm_build_rtp_packet checks (vm_audio_pt session) seq ts ssrc payload of
                     None \<Rightarrow> ([], Some Panic)
                   | Some packet \<Rightarrow>
                       if fe_send_fails ev then ([], Some (Err ''send error''))
                       else let (sent, res) = play_frames checks evs chunks peer (seq + 1) (ts + of_nat SAMPLES_PER_FRAME) ssrc session
                            in ((peer, packet) # sent, res)))"

definition wav_error_text :: "wav_error \<Rightarrow> string" where
  "wav_error_text e = ''invalid WAV file''"

definition play_wav ::
  "bool \<Rightarrow> nat \<Rightarrow> u16 \<times> u32 \<times> u32 \<Rightarrow> iteration list \<Rightarrow> frame_event list \<Rightarrow> string \<Rightarrow> vm_session \<Rightarrow> voicemail_storage
    \<Rightarrow> (socket_addr \<times> u8 list) list \<times> (string, unit) outcome option" where
  "play_wav checks now rnd its evs key session storage =
     (case storage_read key storage of
        Err e \<Rightarrow> ([], Some (Err (storage_error_text e)))
      | Panic \<Rightarrow> ([], Some Panic)
      | Ok bytes \<Rightarrow>
          (case read_pcm16_wav bytes of
             Err e \<Rightarrow> ([], Some (Err (wav_error_text e)))
           | Panic \<Rightarrow> ([], Some Panic)
           | Ok wav \<Rightarrow>
               if unat (wav_sample_rate wav) \<noteq> VM_SAMPLE_RATE
               then ([], Some (Err (''voicemail WAV sample rate must be '' @ show_nat VM_SAMPLE_RATE @ '' Hz, got '' @
                      show_uint (wav_sample_rate wav))))
               else (case wait_for_peer (now + PLAY_PEER_WAIT) its session of
                       (None, _) \<Rightarrow> ([], None)
                     | (Some (Err e), _) \<Rightarrow> ([], Some (Err e))
                     | (Some Panic, _) \<Rightarrow> ([], Some Panic)
                     | (Some (Ok peer), session) \<Rightarrow>
                         (let (seq, ts, ssrc) = rnd
                          in play_frames checks evs (frames (wav_samples wav)) peer seq ts ssrc session))))"

section \<open>What a recording should hold\<close>

text \<open>
  The specification: the audio of the valid packets of one peer, which is the known peer or else the sender
  of the first valid packet.
\<close>

definition valid_packet :: "vm_session \<Rightarrow> u8 list \<times> socket_addr \<Rightarrow> bool" where
  "valid_packet session p = (validated_rtp_packet session (take VM_RTP_BUF_SIZE (fst p)) \<noteq> None)"

definition audio_of :: "vm_session \<Rightarrow> u8 list \<times> socket_addr \<Rightarrow> i16 list" where
  "audio_of session p =
     (let packet = take VM_RTP_BUF_SIZE (fst p) in
      case validated_rtp_packet session packet of
        None \<Rightarrow> []
      | Some (pt, off) \<Rightarrow>
          if Some pt \<noteq> vm_telephone_event_pt session \<and> pt = vm_audio_pt session
          then decode_payload (vm_codec session) (drop off packet) else [])"

definition speaker :: "vm_session \<Rightarrow> (u8 list \<times> socket_addr) list \<Rightarrow> socket_addr option" where
  "speaker session ps =
     (case vm_peer session of
        Some p \<Rightarrow> Some p
      | None \<Rightarrow> (case filter (valid_packet session) ps of [] \<Rightarrow> None | (d, src) # _ \<Rightarrow> Some src))"

definition heard :: "vm_session \<Rightarrow> (u8 list \<times> socket_addr) list \<Rightarrow> i16 list" where
  "heard session ps =
     concat (map (audio_of session) (filter (\<lambda>p. Some (snd p) = speaker session ps) (filter (valid_packet session) ps)))"

fun received :: "iteration list \<Rightarrow> (u8 list \<times> socket_addr) list" where
  "received [] = []"
| "received (it # its) = (case it_recv it of RecvPacket d src \<Rightarrow> (d, src) # received its | _ \<Rightarrow> received its)"

text \<open>A packet that ends the recording: the end of a pound key from the peer.\<close>

definition pound_packet :: "vm_session \<Rightarrow> u8 list \<Rightarrow> bool" where
  "pound_packet session d =
     (let packet = take VM_RTP_BUF_SIZE d in
      case validated_rtp_packet session packet of
        None \<Rightarrow> False
      | Some (pt, off) \<Rightarrow> Some pt = vm_telephone_event_pt session \<and> rtp_dtmf_is_end (drop off packet) \<and>
          dtmf_from_rtp_event (drop off packet ! 0) = Some DtmfPound)"

definition with_peer :: "socket_addr \<Rightarrow> vm_session \<Rightarrow> vm_session" where
  "with_peer src session = (if vm_peer session = None then session\<lparr>vm_peer := Some src\<rparr> else session)"

lemma with_peer_fields [simp]:
  "vm_telephone_event_pt (with_peer src session) = vm_telephone_event_pt session"
  "vm_audio_pt (with_peer src session) = vm_audio_pt session" "vm_codec (with_peer src session) = vm_codec session"
  by (simp_all add: with_peer_def)

lemma with_peer_packets [simp]:
  "validated_rtp_packet (with_peer src session) = validated_rtp_packet session"
  by (rule ext) (simp only: validated_rtp_packet_def with_peer_fields)

lemma with_peer_audio [simp]:
  "valid_packet (with_peer src session) = valid_packet session" "audio_of (with_peer src session) = audio_of session"
  "pound_packet (with_peer src session) = pound_packet session"
  by (rule ext, simp only: valid_packet_def audio_of_def pound_packet_def with_peer_packets with_peer_fields)+

lemma heard_step:
  "heard session ((d, src) # ps) =
     (if \<not> valid_packet session (d, src) then heard session ps
      else if vm_peer session \<notin> {None, Some src} then heard session ps
      else audio_of session (d, src) @ heard (with_peer src session) ps)"
proof (cases "valid_packet session (d, src)")
  case False
  then have "speaker session ((d, src) # ps) = speaker session ps" by (simp add: speaker_def split: option.split)
  then show ?thesis using False by (simp add: heard_def)
next
  case valid: True
  show ?thesis
  proof (cases "vm_peer session")
    case None
    then have "speaker session ((d, src) # ps) = Some src" "speaker (with_peer src session) ps = Some src"
      using valid by (simp_all add: speaker_def with_peer_def)
    then show ?thesis using valid None by (simp add: heard_def)
  next
    case (Some p)
    then have "speaker session ((d, src) # ps) = Some p" "speaker session ps = Some p" "with_peer src session = session"
      by (simp_all add: speaker_def with_peer_def)
    then show ?thesis using valid Some by (simp add: heard_def)
  qed
qed

lemma validated_payload:
  assumes "validated_rtp_packet session packet = Some (pt, off)"
  shows "drop off packet \<noteq> []" "pt = vm_audio_pt session \<or> Some pt = vm_telephone_event_pt session"
  using assms by (auto simp: validated_rtp_packet_def Let_def split: option.splits if_splits)

lemma decode_payload_ne: "payload \<noteq> [] \<Longrightarrow> decode_payload codec payload \<noteq> []"
  by (cases codec) (simp_all add: decode_payload_def decode_ulaw_def decode_alaw_def)

lemma learn_peer: "learn_or_verify_peer src session = (vm_peer session \<in> {None, Some src}, with_peer src session)"
  by (auto simp: learn_or_verify_peer_def with_peer_def split: option.splits)

lemma record_packet_cases:
  assumes "length (rec_samples r) \<le> m"
  shows "record_packet m now d src (session, r) =
    (if \<not> valid_packet session (d, src) then Again (session, r)
     else if vm_peer session \<notin> {None, Some src} then Again (with_peer src session, r)
     else if pound_packet session d then Stop (with_peer src session, r)
     else Again (with_peer src session,
       r\<lparr>rec_samples := take m (rec_samples r @ audio_of session (d, src)), rec_last_activity := now\<rparr>))"
proof (cases "validated_rtp_packet session (take VM_RTP_BUF_SIZE d)")
  case None
  then show ?thesis by (simp add: record_packet_def valid_packet_def)
next
  case (Some po)
  obtain pt off where po: "po = (pt, off)" by fastforce
  note v = validated_payload [OF Some [unfolded po]]
  have valid: "valid_packet session (d, src)" using Some by (simp add: valid_packet_def)
  have pcm: "decode_payload (vm_codec session) (drop off (take VM_RTP_BUF_SIZE d)) \<noteq> []" by (rule decode_payload_ne [OF v(1)])
  show ?thesis
  proof (cases "Some pt = vm_telephone_event_pt session")
    case True
    then show ?thesis using Some po valid assms
      by (simp add: record_packet_def learn_peer pound_packet_def audio_of_def Let_def)
  next
    case False
    then show ?thesis using Some po valid v(2) pcm assms
      by (simp add: record_packet_def learn_peer pound_packet_def audio_of_def Let_def)
  qed
qed

lemma heard_other_peer: "vm_peer session \<notin> {None, Some src} \<Longrightarrow> with_peer src session = session"
  by (auto simp: with_peer_def)

text \<open>The iteration that ends the loop, and why.\<close>

definition stops ::
  "nat \<Rightarrow> u32 \<Rightarrow> u32 \<Rightarrow> iteration \<Rightarrow> vm_session \<times> recording \<Rightarrow> bool" where
  "stops m max_secs idle_secs it sr =
     (\<not> it_active it \<or> m \<le> length (rec_samples (snd sr)) \<or>
      0 < max_secs \<and> unat max_secs * 1000000000 \<le> it_now it - rec_started (snd sr) \<or>
      0 < idle_secs \<and> unat idle_secs * 1000000000 \<le> it_now it - rec_last_activity (snd sr) \<or>
      (\<exists>d src. it_recv it = RecvPacket d src \<and> pound_packet (fst sr) d \<and> vm_peer (fst sr) \<in> {None, Some src}))"

lemma take_take_append: "take m (take m x @ y) = take m (x @ y)"
  by (cases "length x \<le> m") simp_all

lemma record_iteration_stop:
  assumes "length (rec_samples r) \<le> m" "record_iteration m max_secs idle_secs it (session, r) = Stop (session', r')"
  shows "stops m max_secs idle_secs it (session, r) \<and> r' = r"
proof (cases "it_recv it")
  case (RecvPacket d src)
  have "pound_packet session d" "vm_peer session \<in> {None, Some src}" "r' = r"
    if "record_packet m (it_after it) d src (session, r) = Stop (session', r')"
    using that unfolding record_packet_cases [OF assms(1)] by (auto split: if_splits)
  then show ?thesis using assms(2) RecvPacket by (auto simp: record_iteration_def stops_def split: if_splits)
qed (use assms(2) in \<open>auto simp: record_iteration_def stops_def split: if_splits\<close>)

lemma record_iteration_again:
  assumes "length (rec_samples r) \<le> m" "record_iteration m max_secs idle_secs it (session, r) = Again (session', r')"
  shows "rec_started r' = rec_started r \<and> length (rec_samples r') \<le> m \<and>
      take m (rec_samples r' @ heard session' (received its)) = take m (rec_samples r @ heard session (received (it # its)))"
proof (cases "it_recv it")
  case (RecvPacket d src)
  have "record_packet m (it_after it) d src (session, r) = Again (session', r')"
    using assms(2) RecvPacket by (simp add: record_iteration_def split: if_splits)
  then show ?thesis using assms(1) RecvPacket unfolding record_packet_cases [OF assms(1)]
    by (auto simp: heard_step heard_other_peer take_take_append simp del: take_append split: if_splits)
qed (use assms in \<open>auto simp: record_iteration_def split: if_splits\<close>)

lemma record_loop_contents:
  assumes "length (rec_samples r) \<le> m" "record_loop m max_secs idle_secs its (session, r) = Some (Ok (session', r'))"
  shows "\<exists>n session''. n < length its \<and> stops m max_secs idle_secs (its ! n) (session'', r') \<and> rec_started r' = rec_started r \<and>
    rec_samples r' = take m (rec_samples r @ heard session (received (take n its))) \<and> length (rec_samples r') \<le> m"
  using assms
proof (induction its arbitrary: session r)
  case (Cons it its)
  show ?case
  proof (cases "record_iteration m max_secs idle_secs it (session, r)")
    case (Again sr)
    then obtain s1 r1 where a: "record_iteration m max_secs idle_secs it (session, r) = Again (s1, r1)" by (cases sr) auto
    note b = record_iteration_again [OF Cons.prems(1) a]
    have "record_loop m max_secs idle_secs its (s1, r1) = Some (Ok (session', r'))" using Cons.prems(2) a by simp
    then obtain n s2 where n: "n < length its" "stops m max_secs idle_secs (its ! n) (s2, r')" "rec_started r' = rec_started r1"
      "rec_samples r' = take m (rec_samples r1 @ heard s1 (received (take n its)))" "length (rec_samples r') \<le> m"
      using Cons.IH [of r1 s1] b by auto
    then show ?thesis using b [of "take n its"] by (intro exI [of _ "Suc n"] exI [of _ s2]) simp
  next
    case (Stop sr)
    then have "stops m max_secs idle_secs it (session, r)" "r' = r"
      using record_iteration_stop [OF Cons.prems(1), of max_secs idle_secs it session session' r'] Cons.prems(2) by auto
    then show ?thesis using Cons.prems(1) by (intro exI [of _ 0] exI [of _ session]) (simp add: heard_def)
  qed (use Cons.prems in simp)
qed simp

lemma record_loop_ends:
  assumes "length (rec_samples r) \<le> m" "0 < max_secs" "it \<in> set its" "rec_started r + unat max_secs * 1000000000 \<le> it_now it"
  shows "record_loop m max_secs idle_secs its (session, r) \<noteq> None"
  using assms(1,3,4)
proof (induction its arbitrary: session r)
  case (Cons i its)
  show ?case
  proof (cases "record_iteration m max_secs idle_secs i (session, r)")
    case (Again sr)
    then obtain s1 r1 where a: "record_iteration m max_secs idle_secs i (session, r) = Again (s1, r1)" by (cases sr) auto
    have "i \<noteq> it" using a Cons.prems(3) assms(2) by (auto simp: record_iteration_def split: if_splits)
    then show ?thesis using Cons.IH [of r1 s1] Cons.prems a record_iteration_again [OF Cons.prems(1) a] by simp
  qed simp_all
qed simp


lemma max_samples_Ok:
  assumes "max_record_samples max_secs = Ok m"
  shows "0 < max_secs" "m = unat max_secs * 8000" "m \<le> MAX_WAV_SAMPLES"
  using assms by (auto simp: max_record_samples_def VM_SAMPLE_RATE_def MAX_RECORD_SAMPLES_def MAX_WAV_SAMPLES_def Let_def
      word_gt_0 split: if_splits)

lemma duration_ceil:
  fixes max_secs :: u32
  assumes "n \<le> unat max_secs * 8000"
  shows "unat (duration_secs n) = (n + 7999) div 8000 \<and> unat (duration_secs n) \<le> unat max_secs"
proof -
  have le: "(n + 7999) div 8000 \<le> unat max_secs" using assms by linarith
  moreover have "unat max_secs < 2 ^ 32" using unsigned_less [of max_secs, where 'a = nat] by simp
  ultimately have "(n + 7999) div 8000 < 2 ^ 32" by linarith
  then have "unat (duration_secs n) = (n + 7999) div 8000"
    by (simp add: duration_secs_def VM_SAMPLE_RATE_def Let_def unat_of_nat take_bit_nat_eq_self)
  then show ?thesis using le by simp
qed

section \<open>The properties of recordings\<close>

lemma recording_ends:
  assumes "max_record_samples max_secs = Ok m" "it \<in> set its" "now + unat max_secs * 1000000000 \<le> it_now it"
  shows "record_to_storage fault uuids now cid mailbox max_secs idle_secs its session storage \<noteq> None"
proof -
  have "record_loop m max_secs idle_secs its (session, \<lparr>rec_samples = [], rec_started = now, rec_last_activity = now\<rparr>) \<noteq> None"
    by (rule record_loop_ends [OF _ max_samples_Ok(1) [OF assms(1)] assms(2)]) (use assms(3) in simp_all)
  then show ?thesis using assms(1) by (auto simp: record_to_storage_def split: option.splits outcome.splits)
qed



text \<open>Two packets of one peer with a stranger in between, then the session is removed.\<close>

definition example_session :: vm_session where
  "example_session = \<lparr>vm_port = 21000, vm_codec = VmPcma, vm_audio_pt = 8, vm_telephone_event_pt = None, vm_peer = None, vm_active = True\<rparr>"

definition example_speech :: "iteration list" where
  "example_speech =
     (let alice = \<lparr>sa_ip = Ipv4 192 0 2 3, sa_port = 4000\<rparr>;
          mallory = \<lparr>sa_ip = Ipv4 192 0 2 66, sa_port = 4000\<rparr>;
          get = (\<lambda>b src. \<lparr>it_active = True, it_now = 0, it_recv = RecvPacket (build_rtp_packet 8 0 0 0 [b]) src, it_after = 0\<rparr>)
      in [get 0xD5 alice, get 0x2A mallory, get 0x55 alice, \<lparr>it_active = False, it_now = 0, it_recv = RecvTimeout, it_after = 0\<rparr>])"

lemma example_packet:
  "vm_rtp_payload_offset (build_rtp_packet 8 0 0 0 [b]) = Some 12" "length (build_rtp_packet 8 0 0 0 [b]) = 13"
  "take VM_RTP_BUF_SIZE (build_rtp_packet 8 0 0 0 [b]) = build_rtp_packet 8 0 0 0 [b]"
  "build_rtp_packet 8 0 0 0 [b] ! Suc 0 = 8" "drop 12 (build_rtp_packet 8 0 0 0 [b]) = [b]"
  by (simp_all add: vm_rtp_payload_offset_def build_rtp_packet_def RTP_HEADER_LEN_def be_bytes16_def be_bytes32_def VM_RTP_BUF_SIZE_def)

lemma example_loop:
  "\<exists>s. record_loop 8000 1 0 example_speech (example_session, \<lparr>rec_samples = [], rec_started = 0, rec_last_activity = 0\<rparr>) =
     Some (Ok (s, \<lparr>rec_samples = [alaw_to_linear 0xD5, alaw_to_linear 0x55], rec_started = 0, rec_last_activity = 0\<rparr>))"
  by (simp add: example_speech_def example_session_def record_iteration_def record_packet_def validated_rtp_packet_def example_packet
      learn_or_verify_peer_def decode_payload_def decode_alaw_def Let_def)


end
