(* ===== verification/Voicemail_State.thy ===== *)
theory Voicemail_State
  imports Registrar Voicemail_Media
begin

text \<open>
  The state of the voicemail endpoint beside that of the other SIP handlers: its tables
  (\<open>012_voicemail.sql\<close>, \<open>models/voicemail.rs\<close>), the media registry, the stored files, the calls in progress
  and the maps that order concurrent requests of \<open>voicemail.rs\<close>. A task that is spawned joins a list and
  runs later.
\<close>

record mailbox_settings =
  mb_id :: u64
  mb_username :: string
  mb_domain :: string
  mb_enabled :: bool
  mb_no_answer_secs :: u32
  mb_max_message_secs :: u32
  mb_max_messages :: u32
  mb_greeting_storage_key :: "string option"
  mb_pin_hash :: "string option"

datatype voicemail_status = VmNew | VmSaved | VmDeleted

record voicemail_message =
  vg_id :: u64
  vg_box_id :: u64
  vg_caller :: string
  vg_callee :: string
  vg_call_id :: string
  vg_duration_secs :: u32
  vg_storage_key :: string
  vg_status :: voicemail_status
  vg_created_at :: nat
  vg_heard_at :: "nat option"

record mwi_subscription =
  mw_subscriber_tag :: string
  mw_subscriber_ip :: string
  mw_subscriber_port :: u16
  mw_expires_at :: nat
  mw_cseq :: u32

datatype voicemail_mode =
    PinEntry u64 string
  | Recording u64 string
  | Playback string u64 "voicemail_message list" nat

record voicemail_call =
  vc_mode :: voicemail_mode
  vc_caller :: string
  vc_callee :: string
  vc_pin_buffer :: string

record recording_start =
  rs_call_id :: string
  rs_box_id :: u64
  rs_mailbox :: string
  rs_domain :: string
  rs_caller :: string
  rs_callee :: string
  rs_max_message_secs :: u32

text \<open>
  The task of a no-answer timer with the place it has reached. The entry of the timer map names the task it
  belongs to, as the join handle does.
\<close>

datatype no_answer_entry = Ringing nat | Firing | TimerCanceled

datatype timer_place = Sleeping | Claimed | Cleaning | Checking | Delivering | Answering string | Sending string | Finishing

record timer_task =
  tt_call_id :: string
  tt_msg :: sip_message
  tt_src :: socket_addr
  tt_target_addr :: socket_addr
  tt_target_uri :: string
  tt_callee :: string
  tt_max_fwd :: u32
  tt_wake :: nat
  tt_place :: timer_place

datatype spawned =
    SpawnRecording recording_start
  | SpawnPlay string string
  | SpawnNotify string string

text \<open>
  What a request of the endpoint finds outside: the environment, whether overflow panics, SHA-1 in
  hexadecimal, \<open>bcrypt::verify\<close> with an error taken as false, the UDP ports that can be bound, and whether
  a file can be removed.
\<close>

record voicemail_world =
  vw_env :: env
  vw_checks :: bool
  vw_sha1 :: "string \<Rightarrow> string"
  vw_verify :: "string \<Rightarrow> string \<Rightarrow> bool"
  vw_ports :: "u16 \<Rightarrow> bool"
  vw_delete_fails :: bool

record voicemail_server = server_state +
  vx_boxes :: "mailbox_settings list"
  vx_messages :: "voicemail_message list"
  vx_next_message :: u64
  vx_mwi :: "(string \<times> string \<times> string, mwi_subscription) hmap"
  vx_media :: voicemail_media
  vx_storage :: voicemail_storage
  vx_active :: "(string, voicemail_call) hmap"
  vx_no_answer :: "(string, no_answer_entry) hmap"
  vx_timers :: "(nat, timer_task) hmap"
  vx_next_timer :: nat
  vx_recording :: "string set"
  vx_canceled :: "string set"
  vx_access_pending :: "string set"
  vx_spawned :: "spawned list"

end
