(* ===== verification/Voicemail_Mwi.thy ===== *)
theory Voicemail_Mwi
  imports Voicemail_State
begin

text \<open>
  Message waiting indication, \<open>voicemail_mwi.rs\<close>: SUBSCRIBE for \<open>message-summary\<close> and the NOTIFY requests
  with the counts of new and saved messages. The SHA-1 function in hexadecimal is an argument.
\<close>

section \<open>Definitions\<close>

definition registered_source_matches :: "string \<Rightarrow> u16 \<Rightarrow> socket_addr \<Rightarrow> bool" where
  "registered_source_matches registered_ip registered_port src =
     ((case parse_ip registered_ip of None \<Rightarrow> False | Some ip \<Rightarrow> ip = sa_ip src) \<and> registered_port = sa_port src)"

text \<open>The rows of \<open>SELECT \<dots> WHERE username = ? AND domain = ? AND expires_at > NOW()\<close>; the pair is a key of the table.\<close>

definition live_registration :: "env \<Rightarrow> string \<Rightarrow> string \<Rightarrow> 'a server_state_scheme \<Rightarrow> registration option" where
  "live_registration env username domain st =
     (case hm_get (sv_registrations st) (username, domain) of
        None \<Rightarrow> None
      | Some r \<Rightarrow> if ev_utc env < rg_expires_at r then Some r else None)"

definition source_is_registered ::
  "env \<Rightarrow> string \<Rightarrow> string \<Rightarrow> socket_addr \<Rightarrow> 'a server_state_scheme \<Rightarrow> (string, bool) outcome" where
  "source_is_registered env username domain src st =
     (if ev_fails env SelectSource then Err db_error
      else Ok (case live_registration env username domain st of
                 None \<Rightarrow> False
               | Some r \<Rightarrow> registered_source_matches (rg_source_ip r) (rg_source_port r) src))"

definition build_message_summary_body :: "string \<Rightarrow> string \<Rightarrow> nat \<Rightarrow> nat \<Rightarrow> string" where
  "build_message_summary_body username domain new_count saved_count =
     (let waiting = (if 0 < new_count then ''yes'' else ''no'') in
      ''Messages-Waiting: '' @ waiting @ crlf @ ''Message-Account: sip:'' @ username @ ''@'' @ domain @ crlf @
      ''Voice-Message: '' @ show_nat new_count @ ''/'' @ show_nat saved_count @ '' (0/0)'' @ crlf)"

definition mwi_server_tag :: "(string \<Rightarrow> string) \<Rightarrow> string \<Rightarrow> string" where
  "mwi_server_tag sha1 cid = ''sip3-mwi-'' @ take 16 (sha1 cid)"

definition mwi_subscribe_to_header :: "(string \<Rightarrow> string) \<Rightarrow> string \<Rightarrow> string \<Rightarrow> string" where
  "mwi_subscribe_to_header sha1 to cid =
     (if contains_str '';tag='' (to_lower to) then to else to @ '';tag='' @ mwi_server_tag sha1 cid)"

definition mwi_build_notify ::
  "(string \<Rightarrow> string) \<Rightarrow> string \<Rightarrow> string \<Rightarrow> string \<Rightarrow> string \<Rightarrow> u32 \<Rightarrow> nat \<Rightarrow> nat \<Rightarrow> string" where
  "mwi_build_notify sha1 username domain cid tag cs new_count saved_count =
     (let body = build_message_summary_body username domain new_count saved_count;
          from_tag = mwi_server_tag sha1 cid;
          branch = ''z9hG4bK-vm-'' @ from_tag @ ''-'' @ show_uint cs
      in ''NOTIFY sip:'' @ username @ ''@'' @ domain @ '' SIP/2.0'' @ crlf @
         ''Via: SIP/2.0/UDP '' @ domain @ '';branch='' @ branch @ crlf @ ''Max-Forwards: 70'' @ crlf @
         ''From: <sip:'' @ username @ ''@'' @ domain @ ''>;tag='' @ from_tag @ crlf @
         ''To: <sip:'' @ username @ ''@'' @ domain @ ''>;tag='' @ tag @ crlf @
         ''Call-ID: '' @ cid @ crlf @ ''CSeq: '' @ show_uint cs @ '' NOTIFY'' @ crlf @ ''Event: message-summary'' @ crlf @
         ''Subscription-State: active'' @ crlf @ ''Content-Type: application/simple-message-summary'' @ crlf @
         ''Content-Length: '' @ show_nat (length body) @ crlf @ crlf @ body)"

definition base_response_with_to :: "sip_message \<Rightarrow> u16 \<Rightarrow> string \<Rightarrow> string \<Rightarrow> response_builder" where
  "base_response_with_to req status_code reason to =
     (let b0 = response_new status_code reason;
          b1 = fold (add_header ''Via'') (via_headers req) b0;
          b2 = add_opt ''From'' (from_header req) b1;
          b3 = add_header ''To'' to b2;
          b4 = add_opt ''Call-ID'' (call_id req) b3;
          b5 = add_opt ''CSeq'' (cseq req) b4
      in add_header ''Server'' ''SIP3/0.1.0'' b5)"

definition mwi_extract_param_part :: "string \<Rightarrow> string \<Rightarrow> string option" where
  "mwi_extract_param_part name part =
     (case splitn 2 (CHR ''='') (trim part) of
        [key, value] \<Rightarrow> if to_lower (trim key) = to_lower name then Some (trim_matches quote (trim value)) else None
      | _ \<Rightarrow> None)"

definition mwi_extract_param :: "string \<Rightarrow> string \<Rightarrow> string option" where
  "mwi_extract_param header_value name = find_map (mwi_extract_param_part name) (tl (split_on (CHR '';'') header_value))"

definition count_status :: "u64 \<Rightarrow> voicemail_status \<Rightarrow> voicemail_message list \<Rightarrow> nat" where
  "count_status box status ms = length (filter (\<lambda>m. vg_box_id m = box \<and> vg_status m = status) ms)"

definition message_counts :: "env \<Rightarrow> string \<Rightarrow> string \<Rightarrow> 'a voicemail_server_scheme \<Rightarrow> (string, nat \<times> nat) outcome" where
  "message_counts env username domain st =
     (if ev_fails env CountMwi then Err db_error
      else Ok (case find (\<lambda>b. mb_username b = username \<and> mb_domain b = domain) (vx_boxes st) of
                 None \<Rightarrow> (0, 0)
               | Some b \<Rightarrow> (count_status (mb_id b) VmNew (vx_messages st), count_status (mb_id b) VmSaved (vx_messages st))))"

definition mwi_watchers ::
  "env \<Rightarrow> string \<Rightarrow> string \<Rightarrow> 'a voicemail_server_scheme \<Rightarrow> ((string \<times> string \<times> string) \<times> mwi_subscription) list" where
  "mwi_watchers env username domain st =
     filter (\<lambda>((u, d, c), s). u = username \<and> d = domain \<and> ev_utc env < mw_expires_at s) (vx_mwi st)"

text \<open>The loop over the rows; \<open>checks\<close> tells whether the build panics on overflow.\<close>

fun mwi_notify_rows ::
  "bool \<Rightarrow> (string \<Rightarrow> string) \<Rightarrow> env \<Rightarrow> string \<Rightarrow> string \<Rightarrow> nat \<times> nat \<Rightarrow> ((string \<times> string \<times> string) \<times> mwi_subscription) list
    \<Rightarrow> 'a voicemail_server_scheme \<Rightarrow> (string, unit) outcome \<times> 'a voicemail_server_scheme" where
  "mwi_notify_rows checks sha1 env username domain counts [] st = (Ok (), st)"
| "mwi_notify_rows checks sha1 env username domain counts (((u, d, cid), s) # rows) st =
     (if checks \<and> mw_cseq s = - 1 then (Panic, st)
      else let next_cseq = mw_cseq s + 1;
               notify = mwi_build_notify sha1 username domain cid (mw_subscriber_tag s) next_cseq (fst counts) (snd counts)
           in case parse_socket_addr (mw_subscriber_ip s @ '':'' @ show_uint (mw_subscriber_port s)) of
                None \<Rightarrow> (Err ''invalid socket address syntax'', st)
              | Some addr \<Rightarrow>
                  (case udp_send env addr notify st of
                     (Ok _, st) \<Rightarrow>
                       if ev_fails env UpdateMwi then (Err db_error, st)
                       else mwi_notify_rows checks sha1 env username domain counts rows
                              (st\<lparr>vx_mwi := hm_adjust (username, domain, cid) (\<lambda>x. x\<lparr>mw_cseq := next_cseq\<rparr>) (vx_mwi st)\<rparr>)
                   | (_, st) \<Rightarrow> mwi_notify_rows checks sha1 env username domain counts rows st))"

definition mwi_notify_mailbox ::
  "bool \<Rightarrow> (string \<Rightarrow> string) \<Rightarrow> env \<Rightarrow> string \<Rightarrow> string \<Rightarrow> 'a voicemail_server_scheme \<Rightarrow> (string, unit) outcome \<times> 'a voicemail_server_scheme" where
  "mwi_notify_mailbox checks sha1 env username domain st =
     (case message_counts env username domain st of
        Err e \<Rightarrow> (Err e, st)
      | Panic \<Rightarrow> (Panic, st)
      | Ok (new_count, saved_count) \<Rightarrow>
          (let st = snd (enqueue env ''voicemail.mwi''
                 [(''event'', ''voicemail.mwi''), (''username'', username), (''domain'', domain),
                  (''new_messages'', show_nat new_count), (''saved_messages'', show_nat saved_count)] st)
           in if ev_fails env SelectMwi then (Err db_error, st)
              else mwi_notify_rows checks sha1 env username domain (new_count, saved_count) (mwi_watchers env username domain st) st))"

text \<open>The two answers of SUBSCRIBE and the tables they leave.\<close>

definition mwi_unsubscribe ::
  "(string \<Rightarrow> string) \<Rightarrow> env \<Rightarrow> sip_message \<Rightarrow> string \<Rightarrow> string \<Rightarrow> string \<Rightarrow> string \<Rightarrow> 'a voicemail_server_scheme
    \<Rightarrow> (string, string) outcome \<times> 'a voicemail_server_scheme" where
  "mwi_unsubscribe sha1 env msg subscriber domain cid ctc st =
     (if ev_fails env DeleteMwi then (Err db_error, st)
      else (Ok (build (add_header ''Expires'' ''0'' (add_header ''Contact'' ctc
              (base_response_with_to msg 200 ''OK''
                 (mwi_subscribe_to_header sha1 (case to_header msg of None \<Rightarrow> [] | Some t \<Rightarrow> t) cid))))),
            st\<lparr>vx_mwi := hm_del (subscriber, domain, cid) (vx_mwi st)\<rparr>))"

definition mwi_subscribe ::
  "(string \<Rightarrow> string) \<Rightarrow> env \<Rightarrow> sip_message \<Rightarrow> socket_addr \<Rightarrow> string \<Rightarrow> string \<Rightarrow> string \<Rightarrow> string \<Rightarrow> string \<Rightarrow> u32 \<Rightarrow> 'a voicemail_server_scheme
    \<Rightarrow> (string, string) outcome \<times> 'a voicemail_server_scheme" where
  "mwi_subscribe sha1 env msg src subscriber domain cid tag ctc period st =
     (if ev_fails env UpsertMwi \<or> (\<exists>old \<in> set_option (hm_get (vx_mwi st) (subscriber, domain, cid)). mw_cseq old = - 1) then (Err db_error, st)
      else let row = \<lparr>mw_subscriber_tag = tag, mw_subscriber_ip = show_ip (sa_ip src), mw_subscriber_port = sa_port src,
                      mw_expires_at = ev_utc env + unat period,
                      mw_cseq = (case hm_get (vx_mwi st) (subscriber, domain, cid) of None \<Rightarrow> 1 | Some old \<Rightarrow> mw_cseq old + 1)\<rparr>;
               st = st\<lparr>vx_mwi := hm_put (subscriber, domain, cid) row (vx_mwi st),
                       vx_spawned := vx_spawned st @ [SpawnNotify subscriber domain]\<rparr>
           in (Ok (build (add_header ''Expires'' (show_uint period) (add_header ''Contact'' ctc
                 (base_response_with_to msg 200 ''OK''
                    (mwi_subscribe_to_header sha1 (case to_header msg of None \<Rightarrow> [] | Some t \<Rightarrow> t) cid))))), st))"

definition mwi_handle_subscribe ::
  "(string \<Rightarrow> string) \<Rightarrow> sip_config \<Rightarrow> env \<Rightarrow> sip_message \<Rightarrow> socket_addr \<Rightarrow> 'a voicemail_server_scheme
    \<Rightarrow> (string, string) outcome \<times> 'a voicemail_server_scheme" where
  "mwi_handle_subscribe sha1 cfg env msg src st =
     (let event = to_lower (case header msg ''event'' of None \<Rightarrow> [] | Some e \<Rightarrow> e);
          event = trim (hd (split_on (CHR '';'') event))
      in if event \<noteq> ''message-summary'' then (Ok (build (base_response msg 489 ''Bad Event'')), st)
         else
           let from = (case from_header msg of None \<Rightarrow> [] | Some v \<Rightarrow> v);
               from_uri = (case extract_uri from of None \<Rightarrow> [] | Some u \<Rightarrow> u);
               subscriber = (case uri_username from_uri of None \<Rightarrow> [] | Some u \<Rightarrow> u)
           in if subscriber = [] then (Ok (build (base_response msg 400 ''Bad Request'')), st)
              else
                let domain = cfg_sip_domain cfg;
                    cid = (case call_id msg of None \<Rightarrow> [] | Some c \<Rightarrow> c);
                    tag = (case mwi_extract_param from ''tag'' of None \<Rightarrow> [] | Some t \<Rightarrow> t);
                    period = (case expires msg of None \<Rightarrow> 3600 | Some e \<Rightarrow> e)
                in case source_is_registered env subscriber domain src st of
                     Err e \<Rightarrow> (Err e, st)
                   | Panic \<Rightarrow> (Panic, st)
                   | Ok False \<Rightarrow> (Ok (build (base_response msg 403 ''Forbidden'')), st)
                   | Ok True \<Rightarrow>
                       let ctc = ''<sip:'' @ subscriber @ ''@'' @ cfg_public_ip cfg @ '':'' @ show_uint (cfg_sip_port cfg) @ ''>''
                       in if period = 0 then mwi_unsubscribe sha1 env msg subscriber domain cid ctc st
                          else mwi_subscribe sha1 env msg src subscriber domain cid tag ctc period st)"

section \<open>What a notification touches\<close>

lemma mwi_rows_shape:
  "\<exists>out subs. snd (mwi_notify_rows checks sha1 env u d counts rows st) = st\<lparr>sv_outbox := out, vx_mwi := subs\<rparr>"
proof (induction checks sha1 env u d counts rows st rule: mwi_notify_rows.induct)
  case (1 checks sha1 env u d counts st)
  show ?case by (rule exI [of _ "sv_outbox st"], rule exI [of _ "vx_mwi st"]) simp
next
  case (2 checks sha1 env u d counts u' d' cid s rows st)
  let ?n = "mwi_build_notify sha1 u d cid (mw_subscriber_tag s) (mw_cseq s + 1) (fst counts) (snd counts)"
  have triv: "\<exists>out subs. st = st\<lparr>sv_outbox := out, vx_mwi := subs\<rparr>"
    by (rule exI [of _ "sv_outbox st"], rule exI [of _ "vx_mwi st"]) simp
  consider (panic) "checks \<and> mw_cseq s = - 1"
    | (addr) "\<not> (checks \<and> mw_cseq s = - 1)" "parse_socket_addr (mw_subscriber_ip s @ '':'' @ show_uint (mw_subscriber_port s)) = None"
    | (send) a where "\<not> (checks \<and> mw_cseq s = - 1)" "parse_socket_addr (mw_subscriber_ip s @ '':'' @ show_uint (mw_subscriber_port s)) = Some a"
    by blast
  then show ?case
  proof cases
    case panic
    then show ?thesis using triv by simp
  next
    case addr
    then show ?thesis using triv by simp
  next
    case send
    note IH = "2.IH" [OF send(1) refl refl send(2)]
    show ?thesis
    proof (cases "ev_send_fails env a")
      case True
      have "udp_send env a ?n st = (Err ''send error'', st)" by (simp add: udp_send_def True)
      then show ?thesis using send IH(2) [of "Err ''send error''" st] triv by simp
    next
      case False
      let ?st = "st\<lparr>sv_outbox := sv_outbox st @ [(a, ?n)]\<rparr>"
      have u: "udp_send env a ?n st = (Ok (), ?st)" by (simp add: udp_send_def False)
      show ?thesis
      proof (cases "ev_fails env UpdateMwi")
        case True
        then show ?thesis using send u
          by (simp only: mwi_notify_rows.simps if_False if_True Let_def option.case prod.case outcome.case snd_conv)
            (rule exI [of _ "sv_outbox ?st"], rule exI [of _ "vx_mwi st"], simp)
      next
        case False
        then show ?thesis using send u IH(1) [OF u [symmetric] refl False] triv by (simp add: Let_def)
      qed
    qed
  qed
qed

lemma mwi_notify_shape:
  "\<exists>ds out subs. snd (mwi_notify_mailbox checks sha1 env u d st) = st\<lparr>sv_deliveries := ds, sv_outbox := out, vx_mwi := subs\<rparr>"
proof -
  have e: "\<exists>ds. snd (enqueue env ev p st) = st\<lparr>sv_deliveries := ds\<rparr>" for ev p
  proof (cases "ev_fails env SelectWebhooks")
    case True
    then show ?thesis by (intro exI [of _ "sv_deliveries st"]) (simp add: enqueue_def)
  qed (auto simp: enqueue_def split_beta)
  show ?thesis
  proof (cases "message_counts env u d st")
    case (Ok c)
    obtain ds where ds: "snd (enqueue env ''voicemail.mwi''
        [(''event'', ''voicemail.mwi''), (''username'', u), (''domain'', d), (''new_messages'', show_nat (fst c)),
         (''saved_messages'', show_nat (snd c))] st) = st\<lparr>sv_deliveries := ds\<rparr>" using e by blast
    let ?st = "st\<lparr>sv_deliveries := ds\<rparr>"
    have m: "mwi_notify_mailbox checks sha1 env u d st =
        (if ev_fails env SelectMwi then (Err db_error, ?st) else mwi_notify_rows checks sha1 env u d c (mwi_watchers env u d ?st) ?st)"
      using Ok ds by (cases c) (simp add: mwi_notify_mailbox_def Let_def)
    show ?thesis
    proof (cases "ev_fails env SelectMwi")
      case True
      then show ?thesis using m by (intro exI [of _ ds] exI [of _ "sv_outbox st"] exI [of _ "vx_mwi st"]) simp
    next
      case False
      then show ?thesis using m mwi_rows_shape [of checks sha1 env u d c "mwi_watchers env u d ?st" ?st] by auto
    qed
  qed (rule exI [of _ "sv_deliveries st"], rule exI [of _ "sv_outbox st"], rule exI [of _ "vx_mwi st"], simp add: mwi_notify_mailbox_def)+
qed

lemma mwi_notify_frame [frame_simps]:
  fixes st :: "'a voicemail_server_scheme" and env :: env and checks sha1 u d
  defines "st' \<equiv> snd (mwi_notify_mailbox checks sha1 env u d st)"
  shows "vx_active st' = vx_active st" "vx_boxes st' = vx_boxes st" "vx_messages st' = vx_messages st"
    "vx_recording st' = vx_recording st" "vx_canceled st' = vx_canceled st" "vx_access_pending st' = vx_access_pending st"
    "vx_spawned st' = vx_spawned st" "vx_media st' = vx_media st" "vx_storage st' = vx_storage st"
    "vx_no_answer st' = vx_no_answer st" "vx_timers st' = vx_timers st" "sv_registrations st' = sv_registrations st"
    "sv_accounts st' = sv_accounts st"
proof -
  obtain ds out subs where "st' = st\<lparr>sv_deliveries := ds, sv_outbox := out, vx_mwi := subs\<rparr>"
    using mwi_notify_shape [of checks sha1 env u d st] unfolding st'_def by blast
  then show "vx_active st' = vx_active st" "vx_boxes st' = vx_boxes st" "vx_messages st' = vx_messages st"
    "vx_recording st' = vx_recording st" "vx_canceled st' = vx_canceled st" "vx_access_pending st' = vx_access_pending st"
    "vx_spawned st' = vx_spawned st" "vx_media st' = vx_media st" "vx_storage st' = vx_storage st"
    "vx_no_answer st' = vx_no_answer st" "vx_timers st' = vx_timers st" "sv_registrations st' = sv_registrations st"
    "sv_accounts st' = sv_accounts st" by simp_all
qed

lemma mwi_no_panic: "fst (mwi_notify_mailbox False sha1 env u d st) \<noteq> Panic"
proof -
  have r: "fst (mwi_notify_rows False sha1 env u d c rows st') \<noteq> Panic" for c rows and st' :: "'a voicemail_server_scheme"
    by (induction False sha1 env u d c rows st' rule: mwi_notify_rows.induct)
      (auto simp: Let_def split: option.split prod.split outcome.split)
  have "message_counts env u d st \<noteq> Panic" by (simp add: message_counts_def)
  then show ?thesis using r by (auto simp: mwi_notify_mailbox_def Let_def split: outcome.splits)
qed

end
