(* ===== verification/Voicemail.thy ===== *)
theory Voicemail
  imports Voicemail_Mwi
begin

text \<open>
  The voicemail endpoint, \<open>voicemail.rs\<close>: INVITE for listening and for leaving a message, ACK, BYE, CANCEL,
  the menu driven by INFO, the PIN, and the task that stores a recording. A handler runs as one step; the
  sets that guard against a second INVITE and against a CANCEL during a recording are part of the state,
  so that the order of the steps of different requests is explicit. The no-answer timer is in
  \<open>No_Answer\<close>.
\<close>

section \<open>Headers\<close>

definition is_voicemail_access_target :: "string \<Rightarrow> string \<Rightarrow> bool" where
  "is_voicemail_access_target target access_extension = (target = access_extension)"

definition is_message_summary_event :: "string option \<Rightarrow> bool" where
  "is_message_summary_event event =
     (case event of None \<Rightarrow> False | Some v \<Rightarrow> to_lower (trim (hd (split_on (CHR '';'') v))) = ''message-summary'')"

text \<open>The text outside quotes and angle brackets; the flags are \<open>in_angle_uri\<close>, \<open>in_quote\<close>, \<open>escaped\<close>.\<close>

fun outside_address :: "bool \<Rightarrow> bool \<Rightarrow> bool \<Rightarrow> string \<Rightarrow> string" where
  "outside_address in_angle in_quote escaped [] = []"
| "outside_address in_angle in_quote escaped (ch # cs) =
     (if in_quote then
        (if escaped then outside_address in_angle True False cs
         else if ch = backslash then outside_address in_angle True True cs
         else if ch = quote then outside_address in_angle False False cs
         else outside_address in_angle True False cs)
      else if ch = quote \<and> \<not> in_angle then outside_address in_angle True escaped cs
      else if ch = CHR ''<'' \<and> \<not> in_angle then outside_address True False escaped cs
      else if ch = CHR ''>'' \<and> in_angle then outside_address False False escaped cs
      else if \<not> in_angle then ch # outside_address in_angle False escaped cs
      else outside_address in_angle False escaped cs)"

definition has_outer_tag_param :: "string \<Rightarrow> bool" where
  "has_outer_tag_param to = contains_str '';tag='' (to_lower (outside_address False False False to))"

definition with_to_tag :: "string \<Rightarrow> string \<Rightarrow> string" where
  "with_to_tag to tag = (if has_outer_tag_param to then to else to @ '';tag='' @ tag)"

definition delivery_caller :: "string option \<Rightarrow> string option" where
  "delivery_caller from =
     (case Option.bind (Option.bind from extract_uri) uri_username of
        None \<Rightarrow> None
      | Some caller \<Rightarrow> if caller \<noteq> ''unknown'' then Some caller else None)"

definition epoch_id :: "env \<Rightarrow> u64" where
  "epoch_id env = fold (\<lambda>i acc. acc * 256 + ucast (ev_random env i)) [0..<8] 0"

definition build_local_ok ::
  "sip_config \<Rightarrow> env \<Rightarrow> sip_message \<Rightarrow> string \<Rightarrow> u16 \<Rightarrow> voicemail_negotiation \<Rightarrow> voicemail_media \<Rightarrow> string" where
  "build_local_ok cfg env msg local_user relay_port negotiation media =
     (let session_id = epoch_id env;
          answer = vm_build_answer (vm_public_ip media) relay_port negotiation session_id;
          to_tag = ''vm-'' @ show_radix 16 (unat session_id);
          to_with_tag = with_to_tag (case to_header msg of None \<Rightarrow> [] | Some t \<Rightarrow> t) to_tag;
          ctc = ''<sip:'' @ local_user @ ''@'' @ cfg_public_ip cfg @ '':'' @ show_uint (cfg_sip_port cfg) @ ''>''
      in build (set_body answer (add_header ''Allow'' ''INVITE, ACK, CANCEL, BYE, INFO''
           (add_header ''Content-Type'' ''application/sdp'' (add_header ''Contact'' ctc
              (base_response_with_to msg 200 ''OK'' to_with_tag))))))"

section \<open>Tables\<close>

definition lookup_enabled_box :: "env \<Rightarrow> string \<Rightarrow> string \<Rightarrow> 'a voicemail_server_scheme \<Rightarrow> mailbox_settings option" where
  "lookup_enabled_box env username domain st =
     (if ev_fails env SelectBox then None
      else find (\<lambda>b. mb_username b = username \<and> mb_domain b = domain \<and> mb_enabled b) (vx_boxes st))"

text \<open>Newest first; of two messages of the same second the one inserted later comes first.\<close>

definition list_messages_for_mailbox :: "env \<Rightarrow> u64 \<Rightarrow> 'a voicemail_server_scheme \<Rightarrow> voicemail_message list" where
  "list_messages_for_mailbox env box st =
     (if ev_fails env ListVoicemails then []
      else rev (sort_key vg_created_at (filter (\<lambda>m. vg_box_id m = box \<and> vg_status m \<noteq> VmDeleted) (vx_messages st))))"

definition mailbox_is_full :: "env \<Rightarrow> u64 \<Rightarrow> u32 \<Rightarrow> 'a voicemail_server_scheme \<Rightarrow> (string, bool) outcome" where
  "mailbox_is_full env box max_messages st =
     (if ev_fails env CountVoicemails then Err db_error
      else Ok (unat max_messages \<le> length (filter (\<lambda>m. vg_box_id m = box \<and> vg_status m \<noteq> VmDeleted) (vx_messages st))))"

definition update_message :: "u64 \<Rightarrow> (voicemail_message \<Rightarrow> voicemail_message) \<Rightarrow> voicemail_message list \<Rightarrow> voicemail_message list" where
  "update_message i f ms = map (\<lambda>m. if vg_id m = i then f m else m) ms"

text \<open>\<open>CALLER_ACCOUNT_EXISTS_SQL\<close>.\<close>

definition caller_account_exists :: "env \<Rightarrow> string \<Rightarrow> string \<Rightarrow> 'a server_state_scheme \<Rightarrow> (string, bool) outcome" where
  "caller_account_exists env caller domain st =
     (if ev_fails env CallerLookup then Err db_error
      else Ok (case hm_get (sv_accounts st) (caller, domain) of None \<Rightarrow> False | Some a \<Rightarrow> ac_enabled a = 1))"

section \<open>Candidates\<close>

definition track_access_candidate :: "string \<Rightarrow> 'a voicemail_server_scheme \<Rightarrow> bool \<times> 'a voicemail_server_scheme" where
  "track_access_candidate cid st =
     (if hm_get (vx_active st) cid \<noteq> None then (False, st)
      else (cid \<notin> vx_access_pending st, st\<lparr>vx_access_pending := insert cid (vx_access_pending st)\<rparr>))"

definition discard_access_candidate :: "string \<Rightarrow> bool \<Rightarrow> 'a voicemail_server_scheme \<Rightarrow> 'a voicemail_server_scheme" where
  "discard_access_candidate cid tracked st =
     (if tracked then st\<lparr>vx_access_pending := vx_access_pending st - {cid}\<rparr> else st)"

definition track_recording_candidate :: "string \<Rightarrow> 'a voicemail_server_scheme \<Rightarrow> bool \<times> 'a voicemail_server_scheme" where
  "track_recording_candidate cid st = (cid \<notin> vx_recording st, st\<lparr>vx_recording := insert cid (vx_recording st)\<rparr>)"

definition discard_recording_candidate :: "string \<Rightarrow> bool \<Rightarrow> 'a voicemail_server_scheme \<Rightarrow> 'a voicemail_server_scheme" where
  "discard_recording_candidate cid tracked st =
     (if tracked then st\<lparr>vx_recording := vx_recording st - {cid}, vx_canceled := vx_canceled st - {cid}\<rparr> else st)"

definition mark_recording_canceled :: "string \<Rightarrow> 'a voicemail_server_scheme \<Rightarrow> bool \<times> 'a voicemail_server_scheme" where
  "mark_recording_canceled cid st =
     (if cid \<in> vx_recording st then (True, st\<lparr>vx_canceled := insert cid (vx_canceled st)\<rparr>) else (False, st))"

definition should_persist_recording :: "string \<Rightarrow> 'a voicemail_server_scheme \<Rightarrow> bool \<times> 'a voicemail_server_scheme" where
  "should_persist_recording cid st =
     (cid \<notin> vx_canceled st, st\<lparr>vx_recording := vx_recording st - {cid}, vx_canceled := vx_canceled st - {cid}\<rparr>)"

definition duplicate_candidate_response :: "bool \<Rightarrow> (u16 \<times> string) option" where
  "duplicate_candidate_response tracked = (if tracked then None else Some (491, ''Request Pending''))"

datatype recording_persistence_decision = PersistInsert | DiscardCanceled | DiscardEmpty

definition recording_persistence_decision :: "bool \<Rightarrow> u32 \<Rightarrow> recording_persistence_decision" where
  "recording_persistence_decision should_persist duration =
     (if \<not> should_persist then DiscardCanceled else if duration = 0 then DiscardEmpty else PersistInsert)"

section \<open>Listening\<close>

definition is_access_invite :: "sip_config \<Rightarrow> sip_message \<Rightarrow> bool" where
  "is_access_invite cfg msg =
     (m_method msg = Some ''INVITE'' \<and>
      (case Option.bind (m_request_uri msg) uri_username of
         None \<Rightarrow> False
       | Some target \<Rightarrow> is_voicemail_access_target target (cfg_voicemail_access_extension cfg)))"

definition access_caller :: "sip_message \<Rightarrow> string" where
  "access_caller msg =
     (case Option.bind (Option.bind (from_header msg) extract_uri) uri_username of None \<Rightarrow> [] | Some u \<Rightarrow> u)"

definition box_has_pin :: "mailbox_settings \<Rightarrow> bool" where
  "box_has_pin b = (case mb_pin_hash b of None \<Rightarrow> False | Some h \<Rightarrow> h \<noteq> [])"

text \<open>From the allocated port on: the answer, the call, the greeting.\<close>

definition access_established ::
  "sip_config \<Rightarrow> env \<Rightarrow> sip_message \<Rightarrow> string \<Rightarrow> string \<Rightarrow> mailbox_settings \<Rightarrow> u16 \<Rightarrow> voicemail_negotiation
    \<Rightarrow> 'a voicemail_server_scheme \<Rightarrow> (string, string) outcome \<times> 'a voicemail_server_scheme" where
  "access_established cfg env msg cid caller settings relay_port negotiation st =
     (let response = build_local_ok cfg env msg (cfg_voicemail_access_extension cfg) relay_port negotiation (vx_media st);
          has_pin = box_has_pin settings;
          mode = (if has_pin then PinEntry (mb_id settings) caller
                  else Playback caller (mb_id settings) (list_messages_for_mailbox env (mb_id settings) st) 0);
          call = \<lparr>vc_mode = mode, vc_caller = caller, vc_callee = mb_username settings, vc_pin_buffer = []\<rparr>;
          st = discard_access_candidate cid True (st\<lparr>vx_active := hm_put cid call (vx_active st)\<rparr>);
          st = (case mb_greeting_storage_key settings of
                  Some key \<Rightarrow> if has_pin then st else st\<lparr>vx_spawned := vx_spawned st @ [SpawnPlay cid key]\<rparr>
                | None \<Rightarrow> st)
      in (Ok response, st))"

text \<open>After the candidate is tracked.\<close>

definition access_admitted ::
  "sip_config \<Rightarrow> voicemail_world \<Rightarrow> sip_message \<Rightarrow> socket_addr \<Rightarrow> string \<Rightarrow> 'a voicemail_server_scheme
    \<Rightarrow> (string, string) outcome \<times> 'a voicemail_server_scheme" where
  "access_admitted cfg w msg src cid st =
     (let env = vw_env w; caller = access_caller msg; domain = cfg_sip_domain cfg;
          refuse = (\<lambda>status reason st. (Ok (build (base_response msg status reason)), discard_access_candidate cid True st))
      in if caller = [] then refuse 400 ''Bad Request'' st
         else case lookup_enabled_box env caller domain st of
                None \<Rightarrow> refuse 404 ''Not Found'' st
              | Some settings \<Rightarrow>
                  (case source_is_registered env caller domain src st of
                     Err e \<Rightarrow> (Err e, st)
                   | Panic \<Rightarrow> (Panic, st)
                   | Ok registered \<Rightarrow>
                       if \<not> registered then refuse 403 ''Forbidden'' st
                       else case vm_negotiate_offer (m_body msg) of
                              Ok negotiation \<Rightarrow>
                                (case vm_allocate (vw_ports w) cid (vn_codec negotiation) (vn_audio_pt negotiation)
                                        (vn_telephone_event_pt negotiation) (vx_media st) of
                                   (Ok relay_port, media) \<Rightarrow>
                                     access_established cfg env msg cid caller settings relay_port negotiation (st\<lparr>vx_media := media\<rparr>)
                                 | (Err e, media) \<Rightarrow> refuse 500 ''Internal Server Error'' (st\<lparr>vx_media := media\<rparr>)
                                 | (Panic, media) \<Rightarrow> (Panic, st\<lparr>vx_media := media\<rparr>))
                            | Err e \<Rightarrow> refuse 488 ''Not Acceptable Here'' st
                            | Panic \<Rightarrow> (Panic, st)))"

definition handle_access_invite ::
  "sip_config \<Rightarrow> voicemail_world \<Rightarrow> sip_message \<Rightarrow> socket_addr \<Rightarrow> 'a voicemail_server_scheme
    \<Rightarrow> (string, string) outcome \<times> 'a voicemail_server_scheme" where
  "handle_access_invite cfg w msg src st =
     (if \<not> is_access_invite cfg msg then (Ok (build (base_response msg 404 ''Not Found'')), st)
      else let cid = (case call_id msg of None \<Rightarrow> [] | Some c \<Rightarrow> c) in
        if cid = [] then (Ok (build (base_response msg 400 ''Bad Request'')), st)
        else let (tracked, st) = track_access_candidate cid st in
          case duplicate_candidate_response tracked of
            Some (status, reason) \<Rightarrow> (Ok (build (base_response msg status reason)), st)
          | None \<Rightarrow> access_admitted cfg w msg src cid st)"

section \<open>Leaving a message\<close>

definition delivery_established ::
  "sip_config \<Rightarrow> env \<Rightarrow> sip_message \<Rightarrow> string \<Rightarrow> string \<Rightarrow> string \<Rightarrow> mailbox_settings \<Rightarrow> u16 \<Rightarrow> voicemail_negotiation
    \<Rightarrow> 'a voicemail_server_scheme \<Rightarrow> (string, string) outcome \<times> 'a voicemail_server_scheme" where
  "delivery_established cfg env msg cid caller callee settings relay_port negotiation st =
     (let response = build_local_ok cfg env msg callee relay_port negotiation (vx_media st);
          call = \<lparr>vc_mode = Recording (mb_id settings) (mb_username settings), vc_caller = caller, vc_callee = callee,
                  vc_pin_buffer = []\<rparr>;
          start = \<lparr>rs_call_id = cid, rs_box_id = mb_id settings, rs_mailbox = mb_username settings,
                   rs_domain = cfg_sip_domain cfg, rs_caller = caller, rs_callee = callee,
                   rs_max_message_secs = mb_max_message_secs settings\<rparr>
      in (Ok response, st\<lparr>vx_active := hm_put cid call (vx_active st),
                          vx_spawned := vx_spawned st @ [SpawnRecording start]\<rparr>))"

text \<open>From the mailbox on: quota, offer, port.\<close>

definition delivery_to_box ::
  "sip_config \<Rightarrow> voicemail_world \<Rightarrow> sip_message \<Rightarrow> string \<Rightarrow> string \<Rightarrow> string \<Rightarrow> 'a voicemail_server_scheme
    \<Rightarrow> (string, string) outcome \<times> 'a voicemail_server_scheme" where
  "delivery_to_box cfg w msg cid caller callee st =
     (let env = vw_env w;
          discard = discard_recording_candidate cid True;
          refuse = (\<lambda>status reason st. (Ok (build (base_response msg status reason)), discard st))
      in case lookup_enabled_box env callee (cfg_sip_domain cfg) st of
           None \<Rightarrow> refuse 404 ''Not Found'' st
         | Some settings \<Rightarrow>
             (case mailbox_is_full env (mb_id settings) (mb_max_messages settings) st of
                Err e \<Rightarrow> (Err e, discard st)
              | Panic \<Rightarrow> (Panic, st)
              | Ok full \<Rightarrow>
                  if full then refuse 486 ''Busy Here'' st
                  else case vm_negotiate_offer (m_body msg) of
                         Ok negotiation \<Rightarrow>
                           (case vm_allocate (vw_ports w) cid (vn_codec negotiation) (vn_audio_pt negotiation)
                                   (vn_telephone_event_pt negotiation) (vx_media st) of
                              (Ok relay_port, media) \<Rightarrow>
                                delivery_established cfg env msg cid caller callee settings relay_port negotiation (st\<lparr>vx_media := media\<rparr>)
                            | (Err e, media) \<Rightarrow> refuse 500 ''Internal Server Error'' (st\<lparr>vx_media := media\<rparr>)
                            | (Panic, media) \<Rightarrow> (Panic, st\<lparr>vx_media := media\<rparr>))
                       | Err e \<Rightarrow> refuse 488 ''Not Acceptable Here'' st
                       | Panic \<Rightarrow> (Panic, st)))"

definition handle_delivery_invite ::
  "sip_config \<Rightarrow> voicemail_world \<Rightarrow> sip_message \<Rightarrow> string \<Rightarrow> 'a voicemail_server_scheme
    \<Rightarrow> (string, string) outcome \<times> 'a voicemail_server_scheme" where
  "handle_delivery_invite cfg w msg callee st =
     (let cid = (case call_id msg of None \<Rightarrow> [] | Some c \<Rightarrow> c) in
      if cid = [] \<or> callee = [] then (Ok (build (base_response msg 400 ''Bad Request'')), st)
      else let (tracked, st) = track_recording_candidate cid st in
        case duplicate_candidate_response tracked of
          Some (status, reason) \<Rightarrow> (Ok (build (base_response msg status reason)), st)
        | None \<Rightarrow>
            (case delivery_caller (from_header msg) of
               None \<Rightarrow> (Ok (build (base_response msg 400 ''Bad Request'')), discard_recording_candidate cid tracked st)
             | Some caller \<Rightarrow>
                 (case caller_account_exists (vw_env w) caller (cfg_sip_domain cfg) st of
                    Err e \<Rightarrow> (Err e, discard_recording_candidate cid tracked st)
                  | Panic \<Rightarrow> (Panic, st)
                  | Ok False \<Rightarrow> (Ok (build (base_response msg 403 ''Forbidden'')), discard_recording_candidate cid tracked st)
                  | Ok True \<Rightarrow> delivery_to_box cfg w msg cid caller callee st)))"

section \<open>Timer entries\<close>

datatype no_answer_timer_cancel = CancelCanceled | CancelAlreadyFired | CancelNotFound

definition abort_timer :: "nat \<Rightarrow> 'a voicemail_server_scheme \<Rightarrow> 'a voicemail_server_scheme" where
  "abort_timer t st = st\<lparr>vx_timers := hm_del t (vx_timers st)\<rparr>"

definition cancel_no_answer_timer :: "string \<Rightarrow> 'a voicemail_server_scheme \<Rightarrow> no_answer_timer_cancel \<times> 'a voicemail_server_scheme" where
  "cancel_no_answer_timer cid st =
     (case hm_get (vx_no_answer st) cid of
        Some (Ringing t) \<Rightarrow> (CancelCanceled, abort_timer t (st\<lparr>vx_no_answer := hm_del cid (vx_no_answer st)\<rparr>))
      | Some Firing \<Rightarrow> (CancelAlreadyFired, st\<lparr>vx_no_answer := hm_put cid Firing (vx_no_answer st)\<rparr>)
      | Some TimerCanceled \<Rightarrow> (CancelCanceled, st\<lparr>vx_no_answer := hm_put cid TimerCanceled (vx_no_answer st)\<rparr>)
      | None \<Rightarrow> (CancelNotFound, st))"

section \<open>ACK, BYE, CANCEL\<close>

definition voicemail_ack :: "sip_message \<Rightarrow> 'a voicemail_server_scheme \<Rightarrow> 'a voicemail_server_scheme" where
  "voicemail_ack msg st = snd (cancel_no_answer_timer (case call_id msg of None \<Rightarrow> [] | Some c \<Rightarrow> c) st)"

definition voicemail_bye :: "sip_message \<Rightarrow> 'a voicemail_server_scheme \<Rightarrow> (string, string) outcome \<times> 'a voicemail_server_scheme" where
  "voicemail_bye msg st =
     (let cid = (case call_id msg of None \<Rightarrow> [] | Some c \<Rightarrow> c);
          st = st\<lparr>vx_active := hm_del cid (vx_active st)\<rparr>;
          st = snd (cancel_no_answer_timer cid st);
          st = st\<lparr>vx_media := vm_remove cid (vx_media st)\<rparr>
      in (Ok (build (base_response msg 200 ''OK'')), st))"

definition voicemail_cancel :: "sip_message \<Rightarrow> 'a voicemail_server_scheme \<Rightarrow> (string, string) outcome \<times> 'a voicemail_server_scheme" where
  "voicemail_cancel msg st =
     (let cid = (case call_id msg of None \<Rightarrow> [] | Some c \<Rightarrow> c);
          st = (if cid \<noteq> [] then snd (mark_recording_canceled cid st) else st);
          st = st\<lparr>vx_active := hm_del cid (vx_active st)\<rparr>;
          st = snd (cancel_no_answer_timer cid st);
          st = st\<lparr>vx_media := vm_remove cid (vx_media st)\<rparr>
      in (Ok (build (base_response msg 200 ''OK'')), st))"

section \<open>The menu\<close>

definition playback_of :: "string \<Rightarrow> 'a voicemail_server_scheme \<Rightarrow> (string \<times> u64 \<times> voicemail_message list \<times> nat) option" where
  "playback_of cid st =
     (case hm_get (vx_active st) cid of
        Some call \<Rightarrow> (case vc_mode call of Playback mailbox box ms i \<Rightarrow> Some (mailbox, box, ms, i) | _ \<Rightarrow> None)
      | None \<Rightarrow> None)"

definition with_playback ::
  "string \<Rightarrow> (voicemail_message list \<Rightarrow> nat \<Rightarrow> voicemail_message list \<times> nat) \<Rightarrow> 'a voicemail_server_scheme \<Rightarrow> 'a voicemail_server_scheme" where
  "with_playback cid f st =
     st\<lparr>vx_active := hm_adjust cid (\<lambda>call. case vc_mode call of
          Playback mailbox box ms i \<Rightarrow> (let (ms', i') = f ms i in call\<lparr>vc_mode := Playback mailbox box ms' i'\<rparr>)
        | _ \<Rightarrow> call) (vx_active st)\<rparr>"

definition play_message_at_index :: "string \<Rightarrow> nat \<Rightarrow> 'a voicemail_server_scheme \<Rightarrow> 'a voicemail_server_scheme" where
  "play_message_at_index cid index st =
     (case playback_of cid st of
        None \<Rightarrow> st
      | Some (mailbox, box, ms, i) \<Rightarrow>
          if length ms \<le> index then st
          else st\<lparr>vx_media := vm_remove cid (vx_media st),
                  vx_spawned := vx_spawned st @ [SpawnPlay cid (vg_storage_key (ms ! index))]\<rparr>)"

text \<open>
  The two parts of a deletion: reading the call, and, after the UPDATE, changing it. \<open>Vec::remove\<close>
  panics out of range.
\<close>

definition select_message :: "string \<Rightarrow> nat \<Rightarrow> 'a voicemail_server_scheme \<Rightarrow> (u64 \<times> string) option" where
  "select_message cid index st =
     (case playback_of cid st of
        None \<Rightarrow> None
      | Some (mailbox, box, ms, i) \<Rightarrow> if length ms \<le> index then None else Some (vg_id (ms ! index), mailbox))"

definition remove_at :: "nat \<Rightarrow> 'b list \<Rightarrow> 'b list" where
  "remove_at i xs = take i xs @ drop (Suc i) xs"

definition delete_commit ::
  "sip_config \<Rightarrow> voicemail_world \<Rightarrow> string \<Rightarrow> nat \<Rightarrow> u64 \<times> string \<Rightarrow> 'a voicemail_server_scheme
    \<Rightarrow> (string, unit) outcome \<times> 'a voicemail_server_scheme" where
  "delete_commit cfg w cid index selected st =
     (let env = vw_env w; (msg_id, mailbox) = selected in
      if ev_fails env UpdateVoicemail then (Ok (), st)
      else let st = st\<lparr>vx_messages := update_message msg_id (\<lambda>m. m\<lparr>vg_status := VmDeleted\<rparr>) (vx_messages st)\<rparr> in
        if (case playback_of cid st of None \<Rightarrow> False | Some (mb, box, ms, i) \<Rightarrow> length ms \<le> index) then (Panic, st)
        else let st = with_playback cid (\<lambda>ms i. let ms = remove_at index ms in
                        (ms, if length ms \<le> i \<and> ms \<noteq> [] then length ms - 1 else i)) st
             in case mwi_notify_mailbox (vw_checks w) (vw_sha1 w) env mailbox (cfg_sip_domain cfg) st of
                  (Panic, st) \<Rightarrow> (Panic, st)
                | (_, st) \<Rightarrow> (Ok (), st))"

definition delete_message_at_index ::
  "sip_config \<Rightarrow> voicemail_world \<Rightarrow> string \<Rightarrow> nat \<Rightarrow> 'a voicemail_server_scheme \<Rightarrow> (string, unit) outcome \<times> 'a voicemail_server_scheme" where
  "delete_message_at_index cfg w cid index st =
     (case select_message cid index st of None \<Rightarrow> (Ok (), st) | Some selected \<Rightarrow> delete_commit cfg w cid index selected st)"

definition save_message_at_index ::
  "sip_config \<Rightarrow> voicemail_world \<Rightarrow> string \<Rightarrow> nat \<Rightarrow> 'a voicemail_server_scheme \<Rightarrow> (string, unit) outcome \<times> 'a voicemail_server_scheme" where
  "save_message_at_index cfg w cid index st =
     (let env = vw_env w in
      case select_message cid index st of
        None \<Rightarrow> (Ok (), st)
      | Some (msg_id, mailbox) \<Rightarrow>
          if ev_fails env UpdateVoicemail then (Ok (), st)
          else let st = st\<lparr>vx_messages := update_message msg_id
                          (\<lambda>m. m\<lparr>vg_status := VmSaved, vg_heard_at := Some (ev_utc env)\<rparr>) (vx_messages st)\<rparr>;
                   st = with_playback cid (\<lambda>ms i. (if index < length ms then ms[index := (ms ! index)\<lparr>vg_status := VmSaved\<rparr>] else ms, i)) st
               in case mwi_notify_mailbox (vw_checks w) (vw_sha1 w) env mailbox (cfg_sip_domain cfg) st of
                    (Panic, st) \<Rightarrow> (Panic, st)
                  | (_, st) \<Rightarrow> (Ok (), st))"

definition menu_move :: "string \<Rightarrow> nat \<Rightarrow> 'a voicemail_server_scheme \<Rightarrow> 'a voicemail_server_scheme" where
  "menu_move cid new_index st = play_message_at_index cid new_index (with_playback cid (\<lambda>ms i. (ms, new_index)) st)"

text \<open>A key while messages are listed.\<close>

definition playback_key ::
  "sip_config \<Rightarrow> voicemail_world \<Rightarrow> string \<Rightarrow> voicemail_message list \<Rightarrow> nat \<Rightarrow> voicemail_dtmf \<Rightarrow> 'a voicemail_server_scheme
    \<Rightarrow> (string, unit) outcome \<times> 'a voicemail_server_scheme" where
  "playback_key cfg w cid ms current dtmf st =
     (case dtmf of
        DtmfOne \<Rightarrow> (Ok (), if ms \<noteq> [] \<and> 0 < current then menu_move cid (current - 1) st else st)
      | DtmfTwo \<Rightarrow> (Ok (), if ms \<noteq> [] \<and> current + 1 < length ms then menu_move cid (current + 1) st else st)
      | DtmfPound \<Rightarrow> (Ok (), if ms \<noteq> [] \<and> current + 1 < length ms then menu_move cid (current + 1) st else st)
      | DtmfSeven \<Rightarrow> if ms \<noteq> [] then delete_message_at_index cfg w cid current st else (Ok (), st)
      | DtmfNine \<Rightarrow> if ms \<noteq> [] then save_message_at_index cfg w cid current st else (Ok (), st)
      | _ \<Rightarrow> (Ok (), st))"

definition with_call :: "string \<Rightarrow> (voicemail_call \<Rightarrow> voicemail_call) \<Rightarrow> 'a voicemail_server_scheme \<Rightarrow> 'a voicemail_server_scheme" where
  "with_call cid f st = st\<lparr>vx_active := hm_adjust cid f (vx_active st)\<rparr>"

text \<open>\<open>query_scalar(\<dots>).ok().flatten().flatten()\<close> on a nullable column of a mailbox.\<close>

definition box_column :: "bool \<Rightarrow> (mailbox_settings \<Rightarrow> string option) \<Rightarrow> u64 \<Rightarrow> 'a voicemail_server_scheme \<Rightarrow> string option" where
  "box_column fails column box st =
     (if fails then None else Option.bind (find (\<lambda>b. mb_id b = box) (vx_boxes st)) column)"

definition pin_verified :: "env \<Rightarrow> string \<Rightarrow> u64 \<Rightarrow> string \<Rightarrow> 'a voicemail_server_scheme \<Rightarrow> 'a voicemail_server_scheme" where
  "pin_verified env cid box mailbox st =
     (let messages = list_messages_for_mailbox env box st;
          st = with_call cid (\<lambda>c. c\<lparr>vc_mode := Playback mailbox box messages 0, vc_pin_buffer := []\<rparr>) st
      in case box_column (ev_fails env SelectGreeting) mb_greeting_storage_key box st of
           None \<Rightarrow> st
         | Some key \<Rightarrow> st\<lparr>vx_spawned := vx_spawned st @ [SpawnPlay cid key]\<rparr>)"

definition pin_entered :: "voicemail_world \<Rightarrow> string \<Rightarrow> u64 \<Rightarrow> string \<Rightarrow> string \<Rightarrow> 'a voicemail_server_scheme \<Rightarrow> 'a voicemail_server_scheme" where
  "pin_entered w cid box mailbox pin st =
     (case box_column (ev_fails (vw_env w) SelectPinHash) mb_pin_hash box st of
        None \<Rightarrow> st
      | Some expected_hash \<Rightarrow>
          if vw_verify w pin expected_hash then pin_verified (vw_env w) cid box mailbox st
          else with_call cid (\<lambda>c. c\<lparr>vc_pin_buffer := []\<rparr>) st)"

definition pin_key :: "voicemail_world \<Rightarrow> string \<Rightarrow> u64 \<Rightarrow> string \<Rightarrow> string \<Rightarrow> voicemail_dtmf \<Rightarrow> 'a voicemail_server_scheme \<Rightarrow> 'a voicemail_server_scheme" where
  "pin_key w cid box mailbox pin dtmf st =
     (case dtmf of
        DtmfPound \<Rightarrow> pin_entered w cid box mailbox pin st
      | DtmfStar \<Rightarrow> with_call cid (\<lambda>c. c\<lparr>vc_pin_buffer := []\<rparr>) st
      | DtmfDigit d \<Rightarrow> with_call cid (\<lambda>c. c\<lparr>vc_pin_buffer := vc_pin_buffer c @ [d]\<rparr>) st
      | _ \<Rightarrow> st)"

definition voicemail_info ::
  "sip_config \<Rightarrow> voicemail_world \<Rightarrow> sip_message \<Rightarrow> 'a voicemail_server_scheme \<Rightarrow> (string, string) outcome \<times> 'a voicemail_server_scheme" where
  "voicemail_info cfg w msg st =
     (let cid = (case call_id msg of None \<Rightarrow> [] | Some c \<Rightarrow> c);
          ok = Ok (build (base_response msg 200 ''OK''))
      in case hm_get (vx_active st) cid of
           None \<Rightarrow> (Ok (build (base_response msg 481 ''Call/Transaction Does Not Exist'')), st)
         | Some call \<Rightarrow>
             (case parse_dtmf_relay (m_body msg) of
                None \<Rightarrow> (ok, st)
              | Some dtmf \<Rightarrow>
                  (case vc_mode call of
                     Recording box mailbox \<Rightarrow>
                       (ok, if dtmf = DtmfPound then st\<lparr>vx_media := vm_remove cid (vx_media st)\<rparr> else st)
                   | Playback mailbox box ms current \<Rightarrow>
                       (case playback_key cfg w cid ms current dtmf st of (Panic, st) \<Rightarrow> (Panic, st) | (_, st) \<Rightarrow> (ok, st))
                   | PinEntry box mailbox \<Rightarrow> (ok, pin_key w cid box mailbox (vc_pin_buffer call) dtmf st))))"

section \<open>Storing a recording\<close>

text \<open>The INSERT fails on a used storage key or a removed mailbox, too.\<close>

definition insert_voicemail ::
  "env \<Rightarrow> recording_start \<Rightarrow> string \<Rightarrow> u32 \<Rightarrow> 'a voicemail_server_scheme \<Rightarrow> (string, unit) outcome \<times> 'a voicemail_server_scheme" where
  "insert_voicemail env r key duration st =
     (if ev_fails env InsertVoicemail \<or> key \<in> vg_storage_key ` set (vx_messages st) \<or> rs_box_id r \<notin> mb_id ` set (vx_boxes st)
      then (Err db_error, st)
      else (Ok (), st\<lparr>vx_messages := vx_messages st @
              [\<lparr>vg_id = vx_next_message st, vg_box_id = rs_box_id r, vg_caller = rs_caller r, vg_callee = rs_callee r,
                vg_call_id = rs_call_id r, vg_duration_secs = duration, vg_storage_key = key, vg_status = VmNew,
                vg_created_at = ev_utc env, vg_heard_at = None\<rparr>],
              vx_next_message := vx_next_message st + 1\<rparr>))"

definition remove_audio :: "voicemail_world \<Rightarrow> string \<Rightarrow> 'a voicemail_server_scheme \<Rightarrow> 'a voicemail_server_scheme" where
  "remove_audio w key st = st\<lparr>vx_storage := snd (storage_delete (vw_delete_fails w) key (vx_storage st))\<rparr>"

definition persist_recording ::
  "voicemail_world \<Rightarrow> recording_start \<Rightarrow> string \<Rightarrow> u32 \<Rightarrow> 'a voicemail_server_scheme \<Rightarrow> (string, unit) outcome \<times> 'a voicemail_server_scheme" where
  "persist_recording w r key duration st =
     (case insert_voicemail (vw_env w) r key duration st of
        (Ok _, st) \<Rightarrow>
          (case mwi_notify_mailbox (vw_checks w) (vw_sha1 w) (vw_env w) (rs_callee r) (rs_domain r) st of
             (Panic, st) \<Rightarrow> (Panic, st)
           | (_, st) \<Rightarrow> (Ok (), st))
      | (Err _, st) \<Rightarrow> (Ok (), remove_audio w key st)
      | (Panic, st) \<Rightarrow> (Panic, st))"

text \<open>What the recording task does with the result of \<open>record_to_storage\<close>.\<close>

definition recording_finished ::
  "voicemail_world \<Rightarrow> recording_start \<Rightarrow> (string, string \<times> u32) outcome \<Rightarrow> 'a voicemail_server_scheme
    \<Rightarrow> (string, unit) outcome \<times> 'a voicemail_server_scheme" where
  "recording_finished w r result st =
     (let st = st\<lparr>vx_active := hm_del (rs_call_id r) (vx_active st), vx_media := vm_remove (rs_call_id r) (vx_media st)\<rparr>;
          (should_persist, st) = should_persist_recording (rs_call_id r) st
      in case result of
           Err e \<Rightarrow> (Ok (), st)
         | Panic \<Rightarrow> (Panic, st)
         | Ok (key, duration) \<Rightarrow>
             (case recording_persistence_decision should_persist duration of
                PersistInsert \<Rightarrow> persist_recording w r key duration st
              | DiscardCanceled \<Rightarrow> (Ok (), remove_audio w key st)
              | DiscardEmpty \<Rightarrow> (Ok (), remove_audio w key st)))"

text \<open>
  The recording task: it takes the session when it starts, and finishes when its loop ends. A panic in the
  loop ends the task before the rest.
\<close>

definition recording_begins :: "recording_start \<Rightarrow> 'a voicemail_server_scheme \<Rightarrow> (string, nat) outcome \<times> 'a voicemail_server_scheme" where
  "recording_begins r st =
     (case get_session (rs_call_id r) (vx_media st) of
        Ok i \<Rightarrow> (Ok i, st\<lparr>vx_media := (vx_media st)\<lparr>vm_held := i # vm_held (vx_media st)\<rparr>\<rparr>)
      | Err e \<Rightarrow> (Err e, st)
      | Panic \<Rightarrow> (Panic, st))"

definition recording_ends ::
  "sip_config \<Rightarrow> voicemail_world \<Rightarrow> write_fault \<Rightarrow> (nat \<Rightarrow> string) \<Rightarrow> nat \<Rightarrow> iteration list \<Rightarrow> nat \<Rightarrow> vm_session \<Rightarrow> recording_start
    \<Rightarrow> 'a voicemail_server_scheme \<Rightarrow> ((string, unit) outcome \<times> 'a voicemail_server_scheme) option" where
  "recording_ends cfg w fault uuids started its i session r st =
     (case record_to_storage fault uuids started (rs_call_id r) (rs_mailbox r) (rs_max_message_secs r)
             (cfg_voicemail_idle_timeout_secs cfg) its session (vx_storage st) of
        None \<Rightarrow> None
      | Some (result, storage) \<Rightarrow>
          (let st = st\<lparr>vx_storage := storage, vx_media := (vx_media st)\<lparr>vm_held := remove1 i (vm_held (vx_media st))\<rparr>\<rparr>
           in case result of Panic \<Rightarrow> Some (Panic, st) | _ \<Rightarrow> Some (recording_finished w r result st)))"

section \<open>Start-up\<close>

definition ends_with :: "string \<Rightarrow> string \<Rightarrow> bool" where
  "ends_with s t = suffix t s"

definition file_name :: "string \<Rightarrow> string" where
  "file_name path = last (split_on (CHR ''/'') path)"

definition is_identifiable_temp_file :: "string \<Rightarrow> bool" where
  "is_identifiable_temp_file path =
     (let lower = to_lower (file_name path) in
      ends_with lower ''.tmp'' \<or> ends_with lower ''.part'' \<or> ends_with lower ''.partial'')"

text \<open>The walk over the directory tree below the root, with the files that cannot be removed.\<close>

definition cleanup_temp_files :: "(string \<Rightarrow> bool) \<Rightarrow> voicemail_storage \<Rightarrow> voicemail_storage" where
  "cleanup_temp_files fails s =
     s\<lparr>vs_files := hm_retain (\<lambda>path _. \<not> (prefix (vs_root s @ ''/'') path \<and> is_identifiable_temp_file path \<and> \<not> fails path)) (vs_files s)\<rparr>"

definition reconcile_on_startup :: "env \<Rightarrow> (string \<Rightarrow> bool) \<Rightarrow> 'a voicemail_server_scheme \<Rightarrow> (string, unit) outcome \<times> 'a voicemail_server_scheme" where
  "reconcile_on_startup env fails st =
     (if ev_fails env DeleteMwi then (Err db_error, st)
      else (Ok (), st\<lparr>vx_mwi := hm_retain (\<lambda>_ s. ev_utc env < mw_expires_at s) (vx_mwi st),
                      vx_storage := cleanup_temp_files fails (vx_storage st)\<rparr>))"

section \<open>Runs\<close>

text \<open>
  The requests, the ends of recordings, and changes of the tables by the rest of the server, in the order
  in which they happen.
\<close>

datatype voicemail_event =
    AccessInvite voicemail_world sip_message socket_addr
  | DeliveryInvite voicemail_world sip_message string
  | VmAck sip_message
  | VmBye sip_message
  | VmCancel sip_message
  | VmInfo voicemail_world sip_message
  | Recorded voicemail_world recording_start "(string, string \<times> u32) outcome"
  | Managed "mailbox_settings list" "voicemail_message list" "(string \<times> string, registration) hmap"

fun voicemail_step :: "sip_config \<Rightarrow> voicemail_event \<Rightarrow> 'a voicemail_server_scheme \<Rightarrow> 'a voicemail_server_scheme" where
  "voicemail_step cfg (AccessInvite w msg src) st = snd (handle_access_invite cfg w msg src st)"
| "voicemail_step cfg (DeliveryInvite w msg callee) st = snd (handle_delivery_invite cfg w msg callee st)"
| "voicemail_step cfg (VmAck msg) st = voicemail_ack msg st"
| "voicemail_step cfg (VmBye msg) st = snd (voicemail_bye msg st)"
| "voicemail_step cfg (VmCancel msg) st = snd (voicemail_cancel msg st)"
| "voicemail_step cfg (VmInfo w msg) st = snd (voicemail_info cfg w msg st)"
| "voicemail_step cfg (Recorded w r result) st = snd (recording_finished w r result st)"
| "voicemail_step cfg (Managed boxes ms regs) st = st\<lparr>vx_boxes := boxes, vx_messages := ms, sv_registrations := regs\<rparr>"

abbreviation voicemail_run :: "sip_config \<Rightarrow> voicemail_event list \<Rightarrow> 'a voicemail_server_scheme \<Rightarrow> 'a voicemail_server_scheme" where
  "voicemail_run cfg evs st \<equiv> fold (voicemail_step cfg) evs st"

lemmas candidate_defs = track_access_candidate_def discard_access_candidate_def track_recording_candidate_def
  discard_recording_candidate_def mark_recording_canceled_def should_persist_recording_def duplicate_candidate_response_def

lemma cancel_timer_frame [frame_simps]:
  "vx_active (snd (cancel_no_answer_timer cid st)) = vx_active st" "vx_recording (snd (cancel_no_answer_timer cid st)) = vx_recording st"
  "vx_canceled (snd (cancel_no_answer_timer cid st)) = vx_canceled st" "vx_access_pending (snd (cancel_no_answer_timer cid st)) = vx_access_pending st"
  "vx_boxes (snd (cancel_no_answer_timer cid st)) = vx_boxes st" "vx_messages (snd (cancel_no_answer_timer cid st)) = vx_messages st"
  "vx_media (snd (cancel_no_answer_timer cid st)) = vx_media st"
  by (simp_all add: cancel_no_answer_timer_def abort_timer_def split: option.split no_answer_entry.split)

text \<open>What an admitted INVITE has shown.\<close>

definition access_granted ::
  "sip_config \<Rightarrow> voicemail_world \<Rightarrow> sip_message \<Rightarrow> socket_addr \<Rightarrow> string \<Rightarrow> string \<Rightarrow> mailbox_settings \<Rightarrow> 'a voicemail_server_scheme \<Rightarrow> bool" where
  "access_granted cfg w msg src cid mailbox b st =
     (call_id msg = Some cid \<and> cid \<noteq> [] \<and> access_caller msg = mailbox \<and> lookup_enabled_box (vw_env w) mailbox (cfg_sip_domain cfg) st = Some b \<and>
      source_is_registered (vw_env w) mailbox (cfg_sip_domain cfg) src st = Ok True)"

definition access_call :: "env \<Rightarrow> string \<Rightarrow> mailbox_settings \<Rightarrow> 'a voicemail_server_scheme \<Rightarrow> voicemail_call" where
  "access_call env mailbox b st =
     \<lparr>vc_mode = (if box_has_pin b then PinEntry (mb_id b) mailbox
        else Playback mailbox (mb_id b) (list_messages_for_mailbox env (mb_id b) st) 0),
      vc_caller = mailbox, vc_callee = mb_username b, vc_pin_buffer = []\<rparr>"

lemma access_established_active [simp]:
  "vx_active (snd (access_established cfg env msg cid caller b port n st)) = hm_put cid (access_call env caller b st) (vx_active st)"
  by (simp add: access_established_def access_call_def Let_def discard_access_candidate_def split: option.split)

lemma access_admitted_active:
  fixes st :: "'a voicemail_server_scheme"
  shows "vx_active (snd (access_admitted cfg w msg src cid st)) = vx_active st \<or>
    (\<exists>b. lookup_enabled_box (vw_env w) (access_caller msg) (cfg_sip_domain cfg) st = Some b \<and>
       source_is_registered (vw_env w) (access_caller msg) (cfg_sip_domain cfg) src st = Ok True \<and>
       vx_active (snd (access_admitted cfg w msg src cid st)) = hm_put cid (access_call (vw_env w) (access_caller msg) b st) (vx_active st))"
proof -
  have c: "access_call env m b (st\<lparr>vx_media := x\<rparr>) = access_call env m b st" for env m b x
    by (simp add: access_call_def list_messages_for_mailbox_def)
  show ?thesis
    by (auto simp: access_admitted_def Let_def c discard_access_candidate_def split: option.split outcome.split prod.split)
qed

lemma access_invite_active:
  fixes st :: "'a voicemail_server_scheme"
  assumes "vx_active (snd (handle_access_invite cfg w msg src st)) \<noteq> vx_active st"
  obtains cid b where "cid \<noteq> []" "is_access_invite cfg msg" "access_granted cfg w msg src cid (access_caller msg) b st"
    "vx_active (snd (handle_access_invite cfg w msg src st)) = hm_put cid (access_call (vw_env w) (access_caller msg) b st) (vx_active st)"
proof -
  have l: "access_call env m b (st\<lparr>vx_access_pending := p\<rparr>) = access_call env m b st"
    "lookup_enabled_box env c d (st\<lparr>vx_access_pending := p\<rparr>) = lookup_enabled_box env c d st"
    "source_is_registered env c d a (st\<lparr>vx_access_pending := p\<rparr>) = source_is_registered env c d a st" for env b m p c d a
    by (simp_all add: access_call_def list_messages_for_mailbox_def lookup_enabled_box_def source_is_registered_def live_registration_def)
  obtain cid where c: "is_access_invite cfg msg" "call_id msg = Some cid" "cid \<noteq> []"
    "handle_access_invite cfg w msg src st = access_admitted cfg w msg src cid (st\<lparr>vx_access_pending := insert cid (vx_access_pending st)\<rparr>)"
    using assms by (auto simp: handle_access_invite_def Let_def track_access_candidate_def duplicate_candidate_response_def
        split: if_splits option.splits)
  show thesis
    using access_admitted_active [of cfg w msg src cid "st\<lparr>vx_access_pending := insert cid (vx_access_pending st)\<rparr>"] assms c
    by (auto simp: l access_granted_def intro!: that [of cid])
qed

abbreviation recording_call :: "u64 \<Rightarrow> string \<Rightarrow> string \<Rightarrow> string \<Rightarrow> voicemail_call" where
  "recording_call box mailbox caller callee \<equiv>
     \<lparr>vc_mode = Recording box mailbox, vc_caller = caller, vc_callee = callee, vc_pin_buffer = []\<rparr>"

lemma delivery_to_box_active:
  "vx_active (snd (delivery_to_box cfg w msg cid caller callee st)) = vx_active st \<or>
    (\<exists>box mailbox. vx_active (snd (delivery_to_box cfg w msg cid caller callee st)) =
       hm_put cid (recording_call box mailbox caller callee) (vx_active st))"
  by (auto simp: delivery_to_box_def delivery_established_def Let_def discard_recording_candidate_def
      split: option.split outcome.split prod.split)

lemma delivery_active:
  assumes "vx_active (snd (handle_delivery_invite cfg w msg callee st)) \<noteq> vx_active st"
  obtains cid box mailbox caller where "cid \<noteq> []" "call_id msg = Some cid"
    "vx_active (snd (handle_delivery_invite cfg w msg callee st)) = hm_put cid (recording_call box mailbox caller callee) (vx_active st)"
proof -
  obtain cid caller where c: "call_id msg = Some cid" "cid \<noteq> []"
    "handle_delivery_invite cfg w msg callee st =
       delivery_to_box cfg w msg cid caller callee (st\<lparr>vx_recording := insert cid (vx_recording st)\<rparr>)"
    using assms by (auto simp: handle_delivery_invite_def Let_def candidate_defs split: if_splits option.splits outcome.splits bool.splits)
  show thesis
    using delivery_to_box_active [of cfg w msg cid caller callee "st\<lparr>vx_recording := insert cid (vx_recording st)\<rparr>"] c assms that
    by auto
qed

text \<open>How a key changes the calls: only its own, within its mode, or from the PIN to the messages.\<close>

lemma mwi_active [simp]: "mwi_notify_mailbox c s env u d st = (r, st') \<Longrightarrow> vx_active st' = vx_active st"
  using mwi_notify_frame(1) [of c s env u d st] by simp

text \<open>The menu as a function of the list and the position alone.\<close>

definition menu :: "bool \<Rightarrow> voicemail_dtmf \<Rightarrow> voicemail_message list \<times> nat \<Rightarrow> voicemail_message list \<times> nat" where
  "menu fails dtmf p =
     (let (ms, i) = p in
      case dtmf of
        DtmfOne \<Rightarrow> (ms, i - 1)
      | DtmfTwo \<Rightarrow> (ms, if i + 1 < length ms then i + 1 else i)
      | DtmfPound \<Rightarrow> (ms, if i + 1 < length ms then i + 1 else i)
      | DtmfSeven \<Rightarrow> if fails then p else (remove_at i ms, if i + 1 < length ms then i else i - 1)
      | DtmfNine \<Rightarrow> if fails then p else (ms[i := (ms ! i)\<lparr>vg_status := VmSaved\<rparr>], i)
      | _ \<Rightarrow> p)"

definition menu_wf :: "u64 \<Rightarrow> voicemail_message list \<times> nat \<Rightarrow> bool" where
  "menu_wf box p =
     ((if fst p = [] then snd p = 0 else snd p < length (fst p)) \<and>
      list_all (\<lambda>m. vg_box_id m = box \<and> vg_status m \<noteq> VmDeleted) (fst p))"

lemma length_remove_at: "i < length xs \<Longrightarrow> length (remove_at i xs) = length xs - 1"
  by (simp add: remove_at_def)

lemma remove_at_sub: "set (remove_at i xs) \<subseteq> set xs"
  by (auto simp: remove_at_def dest: in_set_takeD in_set_dropD)

lemma menu_keeps_wf: "menu_wf box p \<Longrightarrow> menu_wf box (menu fails dtmf p)"
proof -
  assume wf: "menu_wf box p"
  obtain ms i where p: "p = (ms, i)" by force
  have sub: "list_all P ms \<Longrightarrow> list_all P (remove_at i ms)" for P using remove_at_sub [of i ms] by (auto simp: list_all_iff)
  have "list_all (\<lambda>m. vg_box_id m = box \<and> vg_status m \<noteq> VmDeleted) (ms[i := (ms ! i)\<lparr>vg_status := VmSaved\<rparr>])" if "i < length ms"
    using wf that unfolding p menu_wf_def list_all_length by (auto simp: nth_list_update)
  then show ?thesis
    using wf sub by (auto simp: p menu_wf_def menu_def length_remove_at remove_at_def split: voicemail_dtmf.split if_splits)
qed

lemma with_playback_get:
  "hm_get (vx_active (with_playback cid f st)) c =
     (if c = cid then map_option (\<lambda>call. case vc_mode call of
          Playback mailbox box ms i \<Rightarrow> (let (ms', i') = f ms i in call\<lparr>vc_mode := Playback mailbox box ms' i'\<rparr>)
        | _ \<Rightarrow> call) (hm_get (vx_active st) c) else hm_get (vx_active st) c)"
  by (simp add: with_playback_def)

lemma play_message_active [simp]: "vx_active (play_message_at_index cid i st) = vx_active st"
  by (simp add: play_message_at_index_def split: option.split prod.split)

lemma notify_result:
  "snd (case x of (Ok u, s) \<Rightarrow> (Ok v, s) | (Err e, s) \<Rightarrow> (Ok v, s) | (Panic, s) \<Rightarrow> (Panic, s)) = snd x"
  "fst (case x of (Ok u, s) \<Rightarrow> (Ok v, s) | (Err e, s) \<Rightarrow> (Ok v, s) | (Panic, s) \<Rightarrow> (Panic, s)) = Panic \<longleftrightarrow> fst x = Panic"
  by (auto split: prod.split outcome.split)

lemma playback_of_messages [simp]: "playback_of cid (st\<lparr>vx_messages := ms\<rparr>) = playback_of cid st"
  by (simp add: playback_of_def)

lemma delete_in_range:
  fixes st :: "'a voicemail_server_scheme"
  assumes "playback_of cid st = Some (mailbox, box, ms, i)" "i < length ms"
  shows "vx_active (snd (delete_message_at_index cfg w cid i st)) =
     (if ev_fails (vw_env w) UpdateVoicemail then vx_active st
      else vx_active (with_playback cid (\<lambda>ms j. let ms = remove_at i ms in (ms, if length ms \<le> j \<and> ms \<noteq> [] then length ms - 1 else j)) st))"
    "\<not> vw_checks w \<Longrightarrow> fst (delete_message_at_index cfg w cid i st) \<noteq> Panic"
  using assms by (simp_all add: delete_message_at_index_def select_message_def delete_commit_def Let_def notify_result frame_simps
      with_playback_def mwi_no_panic)

lemma save_in_range:
  fixes st :: "'a voicemail_server_scheme"
  assumes "playback_of cid st = Some (mailbox, box, ms, i)" "i < length ms"
  shows "vx_active (snd (save_message_at_index cfg w cid i st)) =
     (if ev_fails (vw_env w) UpdateVoicemail then vx_active st
      else vx_active (with_playback cid (\<lambda>ms j. (if i < length ms then ms[i := (ms ! i)\<lparr>vg_status := VmSaved\<rparr>] else ms, j)) st))"
    "\<not> vw_checks w \<Longrightarrow> fst (save_message_at_index cfg w cid i st) \<noteq> Panic"
  using assms by (simp_all add: save_message_at_index_def select_message_def Let_def notify_result frame_simps
      with_playback_def mwi_no_panic)

lemma playback_key_get:
  assumes "hm_get (vx_active st) cid = Some call" "vc_mode call = Playback mailbox box ms i" "menu_wf box (ms, i)"
  shows "hm_get (vx_active (snd (playback_key cfg w cid ms i dtmf st))) c =
    (if c = cid then (let (ms', i') = menu (ev_fails (vw_env w) UpdateVoicemail) dtmf (ms, i) in
        Some (call\<lparr>vc_mode := Playback mailbox box ms' i'\<rparr>))
     else hm_get (vx_active st) c)"
proof -
  have same: "call\<lparr>vc_mode := Playback mailbox box ms i\<rparr> = call" using assms(2) by (metis voicemail_call.surjective voicemail_call.update_convs(1))
  have po: "playback_of cid st = Some (mailbox, box, ms, i)" using assms by (simp add: playback_of_def)
  have i: "ms \<noteq> [] \<Longrightarrow> i < length ms" "ms = [] \<Longrightarrow> i = 0" using assms(3) by (auto simp: menu_wf_def split: if_splits)
  show ?thesis
  proof (cases dtmf)
    case DtmfSeven
    show ?thesis
    proof (cases "ms = []")
      case True
      then show ?thesis using DtmfSeven assms(1) same i(2) by (simp add: playback_key_def menu_def remove_at_def)
    next
      case False
      then have r: "i < length ms" by (rule i(1))
      then have e: "(let ms' = remove_at i ms in (ms', if length ms' \<le> i \<and> ms' \<noteq> [] then length ms' - 1 else i)) =
          (remove_at i ms, if i + 1 < length ms then i else i - 1)"
        using length_remove_at [OF r] r by (cases "remove_at i ms") (simp_all add: Let_def, arith)
      show ?thesis
      proof (cases "ev_fails (vw_env w) UpdateVoicemail")
        case True
        then show ?thesis using assms(1) same False by (simp add: DtmfSeven playback_key_def delete_in_range(1) [OF po r] menu_def)
      next
        case ok: False
        show ?thesis using assms(1,2) e [symmetric] False ok
          by (simp add: DtmfSeven playback_key_def delete_in_range(1) [OF po r] with_playback_get menu_def split: prod.split)
      qed
    qed
  next
    case DtmfNine
    show ?thesis
    proof (cases "ms = []")
      case True
      then show ?thesis using DtmfNine assms(1) same by (simp add: playback_key_def menu_def)
    next
      case False
      then show ?thesis using assms(1,2) same
        by (simp add: DtmfNine playback_key_def menu_def save_in_range(1) [OF po i(1)] with_playback_get Let_def i(1))
    qed
  qed (use assms(1,2) same i in \<open>auto simp: playback_key_def menu_def menu_move_def with_playback_get Let_def\<close>)
qed

lemma playback_key_no_panic:
  assumes "hm_get (vx_active st) cid = Some call" "vc_mode call = Playback mailbox box ms i" "menu_wf box (ms, i)" "\<not> vw_checks w"
  shows "fst (playback_key cfg w cid ms i dtmf st) \<noteq> Panic"
proof -
  have po: "playback_of cid st = Some (mailbox, box, ms, i)" using assms by (simp add: playback_of_def)
  have "ms \<noteq> [] \<Longrightarrow> i < length ms" using assms(3) by (auto simp: menu_wf_def split: if_splits)
  then show ?thesis using delete_in_range(2) [OF po] save_in_range(2) [OF po] assms(4)
    by (auto simp: playback_key_def split: voicemail_dtmf.split)
qed

section \<open>Calls are well formed\<close>

text \<open>The keys that reach the PIN buffer.\<close>

definition pin_keys :: string where "pin_keys = ''034568''"

definition call_wf :: "voicemail_call \<Rightarrow> bool" where
  "call_wf call =
     (set (vc_pin_buffer call) \<subseteq> set pin_keys \<and>
      (case vc_mode call of Playback mailbox box ms i \<Rightarrow> menu_wf box (ms, i) | _ \<Rightarrow> True))"

definition calls_wf :: "'a voicemail_server_scheme \<Rightarrow> bool" where
  "calls_wf st = (\<forall>cid call. hm_get (vx_active st) cid = Some call \<longrightarrow> call_wf call)"

lemma listed_wf: "menu_wf box (list_messages_for_mailbox env box st, 0)"
  by (auto simp: menu_wf_def list_messages_for_mailbox_def list_all_iff)

lemma ascii_digit_cases: "is_ascii_digit c \<Longrightarrow> c \<in> set ''0123456789''"
proof -
  assume "is_ascii_digit c"
  then obtain n :: nat where n: "c = char_of n" "48 \<le> n" "n \<le> 57"
    by (metis char_of_char is_ascii_digit_def)
  then have "n = 48 \<or> n = 49 \<or> n = 50 \<or> n = 51 \<or> n = 52 \<or> n = 53 \<or> n = 54 \<or> n = 55 \<or> n = 56 \<or> n = 57" by arith
  then show ?thesis unfolding n(1) by (elim disjE) (simp_all add: char_of_def bit_0)
qed

lemma dtmf_digit: "parse_dtmf_relay body = Some (DtmfDigit d) \<Longrightarrow> d \<in> set pin_keys"
proof -
  have l: "dtmf_relay_line line = Some (DtmfDigit d) \<Longrightarrow> d \<in> set pin_keys" for line
  proof -
    assume a: "dtmf_relay_line line = Some (DtmfDigit d)"
    then obtain v where v: "length v = 1" "is_ascii_digit (hd v)" "d = hd v" "v \<noteq> ''1''" "v \<noteq> ''2''" "v \<noteq> ''7''" "v \<noteq> ''9''"
      by (auto simp: dtmf_relay_line_def Let_def split: option.splits prod.splits if_splits)
    then obtain c where "v = [c]" by (auto simp: length_Suc_conv)
    then show ?thesis using v ascii_digit_cases [of c] by (auto simp: pin_keys_def)
  qed
  have "find_map dtmf_relay_line xs = Some (DtmfDigit d) \<Longrightarrow> d \<in> set pin_keys" for xs
    using l by (induction xs) (auto split: option.splits)
  then show "parse_dtmf_relay body = Some (DtmfDigit d) \<Longrightarrow> d \<in> set pin_keys" by (simp add: parse_dtmf_relay_def)
qed

definition pin_next :: "voicemail_world \<Rightarrow> u64 \<Rightarrow> string \<Rightarrow> voicemail_dtmf \<Rightarrow> 'a voicemail_server_scheme \<Rightarrow> voicemail_call \<Rightarrow> voicemail_call" where
  "pin_next w box mailbox dtmf st call =
     (case dtmf of
        DtmfPound \<Rightarrow> (case box_column (ev_fails (vw_env w) SelectPinHash) mb_pin_hash box st of
            None \<Rightarrow> call
          | Some hash \<Rightarrow> if vw_verify w (vc_pin_buffer call) hash
              then call\<lparr>vc_mode := Playback mailbox box (list_messages_for_mailbox (vw_env w) box st) 0, vc_pin_buffer := []\<rparr>
              else call\<lparr>vc_pin_buffer := []\<rparr>)
      | DtmfStar \<Rightarrow> call\<lparr>vc_pin_buffer := []\<rparr>
      | DtmfDigit d \<Rightarrow> call\<lparr>vc_pin_buffer := vc_pin_buffer call @ [d]\<rparr>
      | _ \<Rightarrow> call)"

lemma pin_key_active:
  assumes "hm_get (vx_active st) cid = Some call"
  shows "hm_get (vx_active (pin_key w cid box mailbox (vc_pin_buffer call) dtmf st)) c =
    (if c = cid then Some (pin_next w box mailbox dtmf st call) else hm_get (vx_active st) c)"
  using assms by (auto simp: pin_key_def pin_next_def pin_entered_def pin_verified_def with_call_def Let_def split: voicemail_dtmf.split option.split)

lemma pin_next_wf:
  assumes "call_wf call" "vc_mode call = PinEntry box mailbox" "parse_dtmf_relay body = Some dtmf"
  shows "call_wf (pin_next w box mailbox dtmf st call)"
  using assms(1,2) dtmf_digit [of body] assms(3) listed_wf [of box "vw_env w" st]
  by (auto simp: pin_next_def call_wf_def split: voicemail_dtmf.split option.split)

text \<open>The effect of INFO on the calls.\<close>

lemma info_active:
  assumes "vx_active (snd (voicemail_info cfg w msg st)) \<noteq> vx_active st"
  obtains cid call dtmf where "call_id msg = Some cid \<or> call_id msg = None \<and> cid = []" "hm_get (vx_active st) cid = Some call" "parse_dtmf_relay (m_body msg) = Some dtmf"
    "\<And>mailbox box ms i. vc_mode call = Playback mailbox box ms i \<Longrightarrow>
       vx_active (snd (voicemail_info cfg w msg st)) = vx_active (snd (playback_key cfg w cid ms i dtmf st))"
    "\<And>mailbox box. vc_mode call = PinEntry box mailbox \<Longrightarrow>
       vx_active (snd (voicemail_info cfg w msg st)) = vx_active (pin_key w cid box mailbox (vc_pin_buffer call) dtmf st)"
    "\<And>mailbox box. vc_mode call \<noteq> Recording box mailbox"
proof -
  let ?cid = "case call_id msg of None \<Rightarrow> [] | Some c \<Rightarrow> c"
  obtain call dtmf where c: "hm_get (vx_active st) ?cid = Some call" "parse_dtmf_relay (m_body msg) = Some dtmf"
    using assms by (auto simp: voicemail_info_def Let_def split: option.splits)
  show thesis
  proof (rule that [of ?cid call dtmf])
    show "vc_mode call \<noteq> Recording box mailbox" for mailbox box using assms c by (auto simp: voicemail_info_def Let_def split: if_splits)
  qed (use c in \<open>auto simp: voicemail_info_def Let_def notify_result split: option.split\<close>)
qed

lemma calls_wf_upd:
  assumes "calls_wf st" "call_wf call" "\<And>c. hm_get (vx_active st') c = (if c = cid then Some call else hm_get (vx_active st) c)"
  shows "calls_wf st'"
  using assms unfolding calls_wf_def by (metis option.inject)

lemma calls_wf_put: "calls_wf st \<Longrightarrow> call_wf call \<Longrightarrow> vx_active st' = hm_put cid call (vx_active st) \<Longrightarrow> calls_wf st'"
  by (auto simp: calls_wf_def hm.get_put split: if_splits)

lemma calls_wf_same: "calls_wf st \<Longrightarrow> vx_active st' = vx_active st \<Longrightarrow> calls_wf st'"
  by (simp add: calls_wf_def)

lemma calls_wf_del: "calls_wf st \<Longrightarrow> vx_active st' = hm_del cid (vx_active st) \<Longrightarrow> calls_wf st'"
  by (auto simp: calls_wf_def hm.get_del split: if_splits)

lemma access_call_wf: "call_wf (access_call env mailbox b st)"
  by (simp add: call_wf_def access_call_def listed_wf)

lemma info_calls_wf:
  assumes "calls_wf st"
  shows "calls_wf (snd (voicemail_info cfg w msg st))"
proof (cases "vx_active (snd (voicemail_info cfg w msg st)) = vx_active st")
  case True
  then show ?thesis using assms by (rule calls_wf_same [rotated])
next
  case False
  then obtain cid call dtmf where c: "hm_get (vx_active st) cid = Some call" "parse_dtmf_relay (m_body msg) = Some dtmf"
    "\<And>mailbox box ms i. vc_mode call = Playback mailbox box ms i \<Longrightarrow>
       vx_active (snd (voicemail_info cfg w msg st)) = vx_active (snd (playback_key cfg w cid ms i dtmf st))"
    "\<And>mailbox box. vc_mode call = PinEntry box mailbox \<Longrightarrow>
       vx_active (snd (voicemail_info cfg w msg st)) = vx_active (pin_key w cid box mailbox (vc_pin_buffer call) dtmf st)"
    "\<And>mailbox box. vc_mode call \<noteq> Recording box mailbox" by (rule info_active) blast
  have wf: "call_wf call" using assms c(1) by (auto simp: calls_wf_def)
  show ?thesis
  proof (cases "vc_mode call")
    case (PinEntry box mailbox)
    show ?thesis by (rule calls_wf_upd [OF assms pin_next_wf [OF wf PinEntry c(2)]]) (simp add: c(4) [OF PinEntry] pin_key_active [OF c(1)])
  next
    case (Playback mailbox box ms i)
    then have m: "menu_wf box (ms, i)" using wf by (simp add: call_wf_def)
    obtain ms' i' where m': "menu (ev_fails (vw_env w) UpdateVoicemail) dtmf (ms, i) = (ms', i')" by force
    have "call_wf (call\<lparr>vc_mode := Playback mailbox box ms' i'\<rparr>)"
      using wf m' menu_keeps_wf [OF m, of "ev_fails (vw_env w) UpdateVoicemail" dtmf] by (simp add: call_wf_def)
    then show ?thesis
      by (rule calls_wf_upd [OF assms, where cid = cid]) (simp add: playback_key_get [OF c(1) Playback m] c(3) [OF Playback] m')
  qed (use c(5) in simp)
qed

lemma finished_active [simp]: "vx_active (snd (recording_finished w r result st)) = hm_del (rs_call_id r) (vx_active st)"
  by (auto simp: recording_finished_def persist_recording_def insert_voicemail_def remove_audio_def should_persist_recording_def
      notify_result frame_simps Let_def split: outcome.split prod.split recording_persistence_decision.split)

lemma bye_cancel_active [simp]:
  "vx_active (voicemail_ack msg st) = vx_active st"
  "vx_active (snd (voicemail_bye msg st)) = hm_del (case call_id msg of None \<Rightarrow> [] | Some c \<Rightarrow> c) (vx_active st)"
  "vx_active (snd (voicemail_cancel msg st)) = hm_del (case call_id msg of None \<Rightarrow> [] | Some c \<Rightarrow> c) (vx_active st)"
  by (simp_all add: voicemail_ack_def voicemail_bye_def voicemail_cancel_def mark_recording_canceled_def frame_simps Let_def)

lemma step_calls_wf: "calls_wf st \<Longrightarrow> calls_wf (voicemail_step cfg ev st)"
proof (cases ev)
  case (AccessInvite w msg src)
  assume wf: "calls_wf st"
  show ?thesis
  proof (cases "vx_active (voicemail_step cfg ev st) = vx_active st")
    case False
    then obtain cid b where "vx_active (voicemail_step cfg ev st) = hm_put cid (access_call (vw_env w) (access_caller msg) b st) (vx_active st)"
      unfolding AccessInvite voicemail_step.simps by (rule access_invite_active)
    then show ?thesis by (rule calls_wf_put [OF wf access_call_wf])
  qed (rule calls_wf_same [OF wf])
next
  case (DeliveryInvite w msg callee)
  assume wf: "calls_wf st"
  show ?thesis
  proof (cases "vx_active (voicemail_step cfg ev st) = vx_active st")
    case False
    then obtain cid box mailbox caller where
      "vx_active (voicemail_step cfg ev st) = hm_put cid (recording_call box mailbox caller callee) (vx_active st)"
      unfolding DeliveryInvite voicemail_step.simps by (rule delivery_active)
    then show ?thesis by (rule calls_wf_put [OF wf, rotated]) (simp add: call_wf_def)
  qed (rule calls_wf_same [OF wf])
qed (auto intro: calls_wf_same calls_wf_del info_calls_wf)

interpretation vm_kept: kept_invariant "voicemail_step cfg" calls_wf for cfg
  by unfold_locales (rule step_calls_wf)

lemma info_no_panic:
  assumes "calls_wf st" "\<not> vw_checks w"
  shows "fst (voicemail_info cfg w msg st) \<noteq> Panic"
proof -
  let ?cid = "case call_id msg of None \<Rightarrow> [] | Some c \<Rightarrow> c"
  have "fst (playback_key cfg w ?cid ms i dtmf st) \<noteq> Panic"
    if "hm_get (vx_active st) ?cid = Some call" "vc_mode call = Playback mailbox box ms i" for call mailbox box ms i dtmf
  proof -
    have "call_wf call" using assms(1) that(1) unfolding calls_wf_def by blast
    then show ?thesis using playback_key_no_panic [OF that _ assms(2)] that(2) by (simp add: call_wf_def)
  qed
  then show ?thesis
    by (auto simp: voicemail_info_def Let_def notify_result split: option.split voicemail_mode.split)
qed


section \<open>Who listens\<close>

fun same_use :: "voicemail_mode \<Rightarrow> voicemail_mode \<Rightarrow> bool" where
  "same_use (PinEntry box mailbox) m = (m = PinEntry box mailbox)"
| "same_use (Recording box mailbox) m = (m = Recording box mailbox)"
| "same_use (Playback mailbox box ms i) m = (\<exists>ms' i'. m = Playback mailbox box ms' i')"

lemma same_use_refl [simp]: "same_use m m"
  by (cases m) auto

text \<open>Where a call of the next state comes from.\<close>

lemma step_call:
  fixes st :: "'a voicemail_server_scheme"
  assumes "hm_get (vx_active (voicemail_step cfg ev st)) cid = Some call'" "calls_wf st"
  obtains (kept) call where "hm_get (vx_active st) cid = Some call" "same_use (vc_mode call) (vc_mode call')"
    | (recording) box mailbox where "vc_mode call' = Recording box mailbox"
    | (granted) w msg src b where "ev = AccessInvite w msg src" "is_access_invite cfg msg"
        "access_granted cfg w msg src cid (access_caller msg) b st" "call' = access_call (vw_env w) (access_caller msg) b st"
    | (verified) w msg call box mailbox hash ms where "ev = VmInfo w msg" "call_id msg = Some cid \<or> call_id msg = None \<and> cid = []"
        "parse_dtmf_relay (m_body msg) = Some DtmfPound" "hm_get (vx_active st) cid = Some call" "vc_mode call = PinEntry box mailbox"
        "box_column False mb_pin_hash box st = Some hash" "vw_verify w (vc_pin_buffer call) hash" "vc_mode call' = Playback mailbox box ms 0"
proof (cases "hm_get (vx_active st) cid = Some call'")
  case True
  then show thesis by (rule kept) simp
next
  case False
  then have ne: "vx_active (voicemail_step cfg ev st) \<noteq> vx_active st" using assms(1) by auto
  consider w msg src where "ev = AccessInvite w msg src" | w msg callee where "ev = DeliveryInvite w msg callee" | w msg where "ev = VmInfo w msg"
    using ne assms(1) False by (cases ev) (auto simp: hm.get_del split: if_splits)
  then show thesis
  proof cases
    case (1 w msg src)
    then obtain c b where b: "is_access_invite cfg msg" "access_granted cfg w msg src c (access_caller msg) b st"
      "vx_active (voicemail_step cfg ev st) = hm_put c (access_call (vw_env w) (access_caller msg) b st) (vx_active st)"
      using ne unfolding 1 voicemail_step.simps by (metis access_invite_active)
    then show thesis using granted [OF 1 b(1)] b(2,3) assms(1) False by (auto simp: hm.get_put split: if_splits)
  next
    case (2 w msg callee)
    then obtain c box mailbox caller where
      "vx_active (voicemail_step cfg ev st) = hm_put c (recording_call box mailbox caller callee) (vx_active st)"
      using ne unfolding 2 voicemail_step.simps by (metis delivery_active)
    then show thesis using assms(1) False recording [of box mailbox] by (auto simp: hm.get_put split: if_splits)
  next
    case (3 w msg)
    then have "vx_active (snd (voicemail_info cfg w msg st)) \<noteq> vx_active st" using ne by simp
    then obtain c call dtmf where c: "call_id msg = Some c \<or> call_id msg = None \<and> c = []" "hm_get (vx_active st) c = Some call"
      "parse_dtmf_relay (m_body msg) = Some dtmf"
      "\<And>mailbox box ms i. vc_mode call = Playback mailbox box ms i \<Longrightarrow>
         vx_active (snd (voicemail_info cfg w msg st)) = vx_active (snd (playback_key cfg w c ms i dtmf st))"
      "\<And>mailbox box. vc_mode call = PinEntry box mailbox \<Longrightarrow>
         vx_active (snd (voicemail_info cfg w msg st)) = vx_active (pin_key w c box mailbox (vc_pin_buffer call) dtmf st)"
      "\<And>mailbox box. vc_mode call \<noteq> Recording box mailbox"
      by (rule info_active) blast
    have wf: "call_wf call" using assms(2) c(2) by (auto simp: calls_wf_def)
    have call': "hm_get (vx_active (snd (voicemail_info cfg w msg st))) cid = Some call'" using assms(1) by (simp add: 3)
    have "hm_get (vx_active (snd (voicemail_info cfg w msg st))) cid = hm_get (vx_active st) cid" if "cid \<noteq> c"
    proof (cases "vc_mode call")
      case (PinEntry box mailbox)
      then show ?thesis using that by (simp add: c(5) pin_key_active [OF c(2)])
    next
      case (Playback mailbox box ms i)
      then show ?thesis using that wf by (simp add: c(4) playback_key_get [OF c(2) Playback] call_wf_def)
    qed (use c(6) in simp)
    then have cc: "c = cid" using call' False by force
    show thesis
    proof (cases "vc_mode call")
      case (PinEntry box mailbox)
      have n: "call' = pin_next w box mailbox dtmf st call"
        using call' pin_key_active [OF c(2), of w box mailbox dtmf cid] by (simp add: c(5) [OF PinEntry] cc)
      show thesis
      proof (cases "same_use (vc_mode call) (vc_mode call')")
        case True
        then show thesis using kept c(2) cc by simp
      next
        case False
        then obtain hash where "dtmf = DtmfPound" "box_column False mb_pin_hash box st = Some hash" "vw_verify w (vc_pin_buffer call) hash"
          "vc_mode call' = Playback mailbox box (list_messages_for_mailbox (vw_env w) box st) 0"
          unfolding n by (auto simp: pin_next_def PinEntry box_column_def split: voicemail_dtmf.splits option.splits if_splits)
        then show thesis using verified [OF 3 _ _ _ PinEntry] c cc by simp
      qed
    next
      case (Playback mailbox box ms i)
      then have m: "menu_wf box (ms, i)" using wf by (simp add: call_wf_def)
      show thesis
        using call' playback_key_get [OF c(2) Playback m, of cfg w dtmf cid] kept [OF c(2) [unfolded cc]]
        by (auto simp: c(4) [OF Playback] cc Playback split: prod.splits)
    qed (use c(6) in simp)
  qed
qed

text \<open>The INVITE that opened a call, and the PIN that unlocked it, in a history.\<close>

definition opened_by ::
  "sip_config \<Rightarrow> 'a voicemail_server_scheme \<Rightarrow> voicemail_event list \<Rightarrow> string \<Rightarrow> string \<Rightarrow> nat \<Rightarrow> mailbox_settings \<Rightarrow> bool" where
  "opened_by cfg s0 evs cid mailbox j b =
     (j < length evs \<and> (\<exists>w msg src. evs ! j = AccessInvite w msg src \<and> is_access_invite cfg msg \<and>
        access_granted cfg w msg src cid mailbox b (voicemail_run cfg (take j evs) s0)))"

definition unlocked_by ::
  "sip_config \<Rightarrow> 'a voicemail_server_scheme \<Rightarrow> voicemail_event list \<Rightarrow> string \<Rightarrow> u64 \<Rightarrow> nat \<Rightarrow> bool" where
  "unlocked_by cfg s0 evs cid box k =
     (k < length evs \<and> (\<exists>w msg call hash. evs ! k = VmInfo w msg \<and> call_id msg = Some cid \<and>
        parse_dtmf_relay (m_body msg) = Some DtmfPound \<and>
        hm_get (vx_active (voicemail_run cfg (take k evs) s0)) cid = Some call \<and>
        box_column False mb_pin_hash box (voicemail_run cfg (take k evs) s0) = Some hash \<and> vw_verify w (vc_pin_buffer call) hash))"

lemma opened_later: "opened_by cfg s0 evs cid mailbox j b \<Longrightarrow> opened_by cfg s0 (evs @ [ev]) cid mailbox j b"
  by (simp add: opened_by_def nth_append)

lemma unlocked_later: "unlocked_by cfg s0 evs cid box k \<Longrightarrow> unlocked_by cfg s0 (evs @ [ev]) cid box k"
  by (simp add: unlocked_by_def nth_append)

definition lawful_mode :: "sip_config \<Rightarrow> 'a voicemail_server_scheme \<Rightarrow> voicemail_event list \<Rightarrow> string \<Rightarrow> voicemail_mode \<Rightarrow> bool" where
  "lawful_mode cfg s0 evs cid m =
     (case m of
        Recording box mailbox \<Rightarrow> True
      | PinEntry box mailbox \<Rightarrow> cid \<noteq> [] \<and> (\<exists>j b. opened_by cfg s0 evs cid mailbox j b \<and> mb_id b = box)
      | Playback mailbox box ms i \<Rightarrow> (\<exists>j b. opened_by cfg s0 evs cid mailbox j b \<and> mb_id b = box \<and>
          (box_has_pin b \<longrightarrow> (\<exists>k>j. unlocked_by cfg s0 evs cid box k))))"

lemma lawful_later:
  assumes "lawful_mode cfg s0 evs cid m" "same_use m m'"
  shows "lawful_mode cfg s0 (evs @ [ev]) cid m'"
proof (cases m)
  case (PinEntry box mailbox)
  then show ?thesis using assms opened_later [of cfg s0 evs cid mailbox] by (simp add: lawful_mode_def) blast
next
  case (Playback mailbox box ms i)
  then show ?thesis using assms opened_later [of cfg s0 evs cid mailbox] unlocked_later [of cfg s0 evs cid box]
    by (auto simp: lawful_mode_def) blast+
qed (use assms in \<open>simp add: lawful_mode_def\<close>)

lemma calls_lawful:
  assumes "vx_active s0 = []"
  shows "hm_get (vx_active (voicemail_run cfg evs s0)) cid = Some call \<Longrightarrow> lawful_mode cfg s0 evs cid (vc_mode call)"
proof (induction evs arbitrary: call rule: rev_induct)
  case Nil
  then show ?case using assms by simp
next
  case (snoc ev evs)
  let ?st = "voicemail_run cfg evs s0"
  have wf: "calls_wf ?st" by (rule vm_kept.run_inv) (simp add: calls_wf_def assms)
  have h: "hm_get (vx_active (voicemail_step cfg ev ?st)) cid = Some call" using snoc.prems by simp
  from h wf show ?case
  proof (cases rule: step_call)
    case (kept call0)
    then show ?thesis using lawful_later snoc.IH by blast
  next
    case (recording box mailbox)
    then show ?thesis by (simp add: lawful_mode_def)
  next
    case (granted w msg src b)
    then have "opened_by cfg s0 (evs @ [ev]) cid (access_caller msg) (length evs) b" by (simp add: opened_by_def)
    then show ?thesis using granted(3,4) by (auto simp: lawful_mode_def access_call_def access_granted_def)
  next
    case (verified w msg call0 box mailbox hash ms)
    then obtain j b where j: "cid \<noteq> []" "opened_by cfg s0 evs cid mailbox j b" "mb_id b = box"
      using snoc.IH [OF verified(4)] by (auto simp: lawful_mode_def)
    have "unlocked_by cfg s0 (evs @ [ev]) cid box (length evs)" using verified j(1) by (auto simp: unlocked_by_def)
    moreover have "j < length evs" using j(2) by (simp add: opened_by_def)
    ultimately show ?thesis using opened_later [OF j(2)] j(3) verified(8) by (auto simp: lawful_mode_def)
  qed
qed

text \<open>
  C5: Messages are heard by their owner. Whenever a call of the endpoint lists the messages of a mailbox, it was opened
  by an INVITE for the access extension whose From names that mailbox, enabled at that moment, from the source address of a
  live registration of that user; and if the mailbox had a PIN then, the digits typed into the call matched the PIN hash
  stored for the mailbox at the moment of the # key.
\<close>

theorem mailbox_needs_owner:
  assumes "vx_active s0 = []" "playback_of cid (voicemail_run cfg evs s0) = Some (mailbox, box, ms, i)"
  shows "\<exists>j b. opened_by cfg s0 evs cid mailbox j b \<and> mb_id b = box \<and>
    (box_has_pin b \<longrightarrow> (\<exists>k>j. unlocked_by cfg s0 evs cid box k))"
  using calls_lawful [OF assms(1), of cfg evs cid] assms(2)
  by (auto simp: playback_of_def lawful_mode_def split: option.splits voicemail_mode.splits)

section \<open>Canceled recordings\<close>

lemma play_message_sets [frame_simps]:
  "vx_recording (play_message_at_index cid i st) = vx_recording st" "vx_canceled (play_message_at_index cid i st) = vx_canceled st"
  "vx_access_pending (play_message_at_index cid i st) = vx_access_pending st"
  by (simp_all add: play_message_at_index_def split: option.split prod.split)

lemma with_playback_sets [frame_simps]:
  "vx_recording (with_playback cid f st) = vx_recording st" "vx_canceled (with_playback cid f st) = vx_canceled st"
  "vx_access_pending (with_playback cid f st) = vx_access_pending st"
  by (simp_all add: with_playback_def)

lemma delete_sets [frame_simps]:
  "vx_recording (snd (delete_message_at_index cfg w cid i st)) = vx_recording st"
  "vx_canceled (snd (delete_message_at_index cfg w cid i st)) = vx_canceled st"
  "vx_access_pending (snd (delete_message_at_index cfg w cid i st)) = vx_access_pending st"
  by (simp_all add: delete_message_at_index_def delete_commit_def Let_def notify_result frame_simps split: option.split prod.split)

lemma save_sets [frame_simps]:
  "vx_recording (snd (save_message_at_index cfg w cid i st)) = vx_recording st"
  "vx_canceled (snd (save_message_at_index cfg w cid i st)) = vx_canceled st"
  "vx_access_pending (snd (save_message_at_index cfg w cid i st)) = vx_access_pending st"
  by (simp_all add: save_message_at_index_def Let_def notify_result frame_simps split: option.split prod.split)

lemma playback_key_sets [frame_simps]:
  "vx_recording (snd (playback_key cfg w cid ms i dtmf st)) = vx_recording st"
  "vx_canceled (snd (playback_key cfg w cid ms i dtmf st)) = vx_canceled st"
  "vx_access_pending (snd (playback_key cfg w cid ms i dtmf st)) = vx_access_pending st"
  by (simp_all add: playback_key_def menu_move_def frame_simps split: voicemail_dtmf.split)

lemma pin_key_sets [frame_simps]:
  "vx_recording (pin_key w cid box mailbox pin dtmf st) = vx_recording st"
  "vx_canceled (pin_key w cid box mailbox pin dtmf st) = vx_canceled st"
  "vx_access_pending (pin_key w cid box mailbox pin dtmf st) = vx_access_pending st"
  by (simp_all add: pin_key_def pin_entered_def pin_verified_def with_call_def Let_def split: voicemail_dtmf.split option.split)

lemma info_sets [frame_simps]:
  "vx_recording (snd (voicemail_info cfg w msg st)) = vx_recording st"
  "vx_canceled (snd (voicemail_info cfg w msg st)) = vx_canceled st"
  "vx_access_pending (snd (voicemail_info cfg w msg st)) = vx_access_pending st"
  by (simp_all add: voicemail_info_def Let_def notify_result frame_simps split: option.split voicemail_mode.split)

lemma access_sets [frame_simps]:
  "vx_recording (snd (handle_access_invite cfg w msg src st)) = vx_recording st"
  "vx_canceled (snd (handle_access_invite cfg w msg src st)) = vx_canceled st"
  by (simp_all add: handle_access_invite_def access_admitted_def access_established_def candidate_defs Let_def
      split: option.split outcome.split prod.split)

lemma delivery_to_box_sets:
  "c \<noteq> cid \<Longrightarrow> c \<in> vx_recording (snd (delivery_to_box cfg w msg cid caller callee st)) \<longleftrightarrow> c \<in> vx_recording st"
  "c \<noteq> cid \<Longrightarrow> c \<in> vx_canceled (snd (delivery_to_box cfg w msg cid caller callee st)) \<longleftrightarrow> c \<in> vx_canceled st"
  "vx_access_pending (snd (delivery_to_box cfg w msg cid caller callee st)) = vx_access_pending st"
  by (auto simp: delivery_to_box_def delivery_established_def discard_recording_candidate_def Let_def
      split: option.split outcome.split prod.split)

lemma delivery_sets:
  assumes "c \<in> vx_recording st"
  shows "c \<in> vx_recording (snd (handle_delivery_invite cfg w msg callee st))"
    "c \<in> vx_canceled (snd (handle_delivery_invite cfg w msg callee st)) \<longleftrightarrow> c \<in> vx_canceled st"
proof -
  have "c \<in> vx_recording (snd (handle_delivery_invite cfg w msg callee st)) \<and>
    (c \<in> vx_canceled (snd (handle_delivery_invite cfg w msg callee st)) \<longleftrightarrow> c \<in> vx_canceled st)"
  proof (cases "call_id msg = Some c")
    case True
    then show ?thesis using assms by (simp add: handle_delivery_invite_def Let_def candidate_defs insert_absorb)
  next
    case False
    then show ?thesis using assms
      by (auto simp: handle_delivery_invite_def Let_def candidate_defs delivery_to_box_sets split: option.split outcome.split bool.split)
  qed
  then show "c \<in> vx_recording (snd (handle_delivery_invite cfg w msg callee st))"
    "c \<in> vx_canceled (snd (handle_delivery_invite cfg w msg callee st)) \<longleftrightarrow> c \<in> vx_canceled st" by simp_all
qed

lemma delivery_pending [frame_simps]: "vx_access_pending (snd (handle_delivery_invite cfg w msg callee st)) = vx_access_pending st"
  by (simp add: handle_delivery_invite_def Let_def candidate_defs delivery_to_box_sets split: option.split outcome.split bool.split)

lemma finished_sets [frame_simps]:
  "vx_recording (snd (recording_finished w r result st)) = vx_recording st - {rs_call_id r}"
  "vx_canceled (snd (recording_finished w r result st)) = vx_canceled st - {rs_call_id r}"
  "vx_access_pending (snd (recording_finished w r result st)) = vx_access_pending st"
  by (auto simp: recording_finished_def persist_recording_def insert_voicemail_def remove_audio_def should_persist_recording_def
      notify_result frame_simps Let_def split: outcome.split prod.split recording_persistence_decision.split)

fun cancels :: "string \<Rightarrow> voicemail_event \<Rightarrow> bool" where
  "cancels cid (VmCancel msg) = (call_id msg = Some cid)"
| "cancels cid _ = False"

fun finishes :: "string \<Rightarrow> voicemail_event \<Rightarrow> bool" where
  "finishes cid (Recorded w r result) = (rs_call_id r = cid)"
| "finishes cid _ = False"

lemma step_tracked:
  assumes "cid \<in> vx_recording st" "cid \<noteq> []" "\<not> finishes cid ev"
  shows "cid \<in> vx_recording (voicemail_step cfg ev st)"
    "cid \<in> vx_canceled (voicemail_step cfg ev st) \<longleftrightarrow> cid \<in> vx_canceled st \<or> cancels cid ev"
  using assms delivery_sets [OF assms(1)]
  by (cases ev; auto simp: frame_simps voicemail_ack_def voicemail_bye_def voicemail_cancel_def mark_recording_canceled_def Let_def split: option.splits)+

lemma run_tracked:
  assumes "cid \<in> vx_recording st" "cid \<noteq> []" "\<not> list_ex (finishes cid) evs"
  shows "cid \<in> vx_recording (voicemail_run cfg evs st) \<and>
    (cid \<in> vx_canceled (voicemail_run cfg evs st) \<longleftrightarrow> cid \<in> vx_canceled st \<or> list_ex (cancels cid) evs)"
  using assms
proof (induction evs arbitrary: st)
  case (Cons ev evs)
  then show ?case using step_tracked [of cid st ev cfg] by auto
qed simp

definition cancel_sets_wf :: "'a voicemail_server_scheme \<Rightarrow> bool" where
  "cancel_sets_wf st = (vx_canceled st \<subseteq> vx_recording st)"

lemma delivery_cancel_sets:
  "cancel_sets_wf st \<Longrightarrow> cancel_sets_wf (snd (handle_delivery_invite cfg w msg callee st))"
proof -
  have b: "cancel_sets_wf st' \<Longrightarrow> cancel_sets_wf (snd (delivery_to_box cfg w msg cid caller callee st'))" for cid caller and st' :: "'a voicemail_server_scheme"
    by (auto simp: cancel_sets_wf_def delivery_to_box_def delivery_established_def discard_recording_candidate_def Let_def
        split: option.split outcome.split prod.split)
  assume "cancel_sets_wf st"
  then show ?thesis
    by (auto simp: handle_delivery_invite_def Let_def candidate_defs cancel_sets_wf_def split: option.split outcome.split bool.split
        dest!: b [unfolded cancel_sets_wf_def, THEN subsetD, rotated])
qed

interpretation vm_cancel_kept: kept_invariant "voicemail_step cfg" cancel_sets_wf for cfg
proof
  fix ev :: voicemail_event and st :: "'a voicemail_server_scheme"
  assume "cancel_sets_wf st"
  then show "cancel_sets_wf (voicemail_step cfg ev st)" using delivery_cancel_sets [of st cfg]
    by (cases ev) (auto simp: cancel_sets_wf_def frame_simps voicemail_ack_def voicemail_bye_def voicemail_cancel_def mark_recording_canceled_def Let_def)
qed

lemma delivery_started:
  assumes "vx_spawned (snd (handle_delivery_invite cfg w msg callee st)) = vx_spawned st @ [SpawnRecording r]"
  shows "rs_call_id r \<noteq> [] \<and> rs_call_id r \<notin> vx_recording st \<and>
    rs_call_id r \<in> vx_recording (snd (handle_delivery_invite cfg w msg callee st)) \<and>
    vx_canceled (snd (handle_delivery_invite cfg w msg callee st)) = vx_canceled st"
proof -
  obtain cid caller where c: "call_id msg = Some cid" "cid \<noteq> []" "cid \<notin> vx_recording st"
    "handle_delivery_invite cfg w msg callee st =
       delivery_to_box cfg w msg cid caller callee (st\<lparr>vx_recording := insert cid (vx_recording st)\<rparr>)"
    using assms by (auto simp: handle_delivery_invite_def Let_def candidate_defs split: if_splits option.splits outcome.splits bool.splits)
  show ?thesis using assms c
    by (auto simp: delivery_to_box_def delivery_established_def discard_recording_candidate_def Let_def
        split: option.splits outcome.splits prod.splits if_splits)
qed

lemma finished_messages:
  assumes "insert_voicemail (vw_env w) r key d st = (Ok (), st')" "d \<noteq> 0"
  shows "vx_messages (snd (recording_finished w r (Ok (key, d)) st)) =
      (if rs_call_id r \<in> vx_canceled st then vx_messages st else vx_messages st')"
    "vx_storage (snd (recording_finished w r (Ok (key, d)) st)) =
      (if rs_call_id r \<in> vx_canceled st then snd (storage_delete (vw_delete_fails w) key (vx_storage st)) else vx_storage st)"
  using assms
  by (auto simp: recording_finished_def should_persist_recording_def recording_persistence_decision_def persist_recording_def
      insert_voicemail_def remove_audio_def notify_result frame_simps Let_def split: if_splits)

lemma delete_then_read: "storage_read key (snd (storage_delete False key s)) = Ok b \<Longrightarrow> False"
  by (auto simp: storage_read_def storage_delete_def hm.get_del split: outcome.splits if_splits option.splits)


section \<open>Faults of the menu and of errors\<close>

lemma playback_key_spawns:
  assumes "vx_spawned (snd (playback_key cfg w cid ms i dtmf st)) = vx_spawned st @ [SpawnPlay c key]"
  shows "c = cid \<and> hm_get (vm_registry (vx_media (snd (playback_key cfg w cid ms i dtmf st)))) cid = None"
proof -
  have m: "vx_spawned (menu_move cid j st) = vx_spawned st @ [SpawnPlay c key] \<Longrightarrow>
    c = cid \<and> hm_get (vm_registry (vx_media (menu_move cid j st))) cid = None" for j
    by (auto simp: menu_move_def play_message_at_index_def with_playback_def vm_remove_def hm.get_del split: option.splits prod.splits if_splits)
  have "vx_spawned (snd (delete_message_at_index cfg w cid i st)) = vx_spawned st"
    "vx_spawned (snd (save_message_at_index cfg w cid i st)) = vx_spawned st"
    by (simp_all add: delete_message_at_index_def delete_commit_def save_message_at_index_def Let_def notify_result frame_simps
        with_playback_def split: option.split prod.split)
  then show ?thesis using assms m by (auto simp: playback_key_def split: voicemail_dtmf.splits if_splits)
qed

text \<open>
  The menu does not play. Whenever a key of a listening caller starts the playing of a message, the handler has removed
  the media session of the call just before, so the started task finds no session and fails at once.
\<close>

theorem menu_playback_fails:
  assumes "hm_get (vx_active st) cid = Some call" "vc_mode call = Playback mailbox box ms i" "call_id msg = Some cid"
    and "vx_spawned (snd (voicemail_info cfg w msg st)) = vx_spawned st @ [SpawnPlay c key]"
  shows "c = cid \<and> get_session c (vx_media (snd (voicemail_info cfg w msg st))) = Err (''voicemail media session not found for '' @ cid)"
proof -
  obtain dtmf where d: "parse_dtmf_relay (m_body msg) = Some dtmf"
    using assms by (cases "parse_dtmf_relay (m_body msg)") (simp_all add: voicemail_info_def)
  then have "snd (voicemail_info cfg w msg st) = snd (playback_key cfg w cid ms i dtmf st)"
    using assms(1-3) by (simp add: voicemail_info_def notify_result Let_def)
  then show ?thesis using playback_key_spawns [of cfg w cid ms i dtmf st c key] assms(4) by (simp add: get_session_def)
qed

lemma access_pending_kept:
  assumes "cid \<in> vx_access_pending st"
  shows "cid \<in> vx_access_pending (voicemail_step cfg ev st)"
proof (cases ev)
  case (AccessInvite w msg src)
  have a: "cid \<in> vx_access_pending (snd (access_admitted cfg w msg src c st'))" if "cid \<in> vx_access_pending st'" "c \<noteq> cid"
    for c and st' :: "'a voicemail_server_scheme"
    using that by (auto simp: access_admitted_def access_established_def discard_access_candidate_def Let_def
        split: option.split outcome.split prod.split)
  show ?thesis
  proof (cases "call_id msg = Some cid")
    case True
    then show ?thesis using assms AccessInvite
      by (auto simp: handle_access_invite_def Let_def track_access_candidate_def duplicate_candidate_response_def)
  next
    case False
    then show ?thesis using assms AccessInvite a
      by (auto simp: handle_access_invite_def Let_def track_access_candidate_def duplicate_candidate_response_def split: option.split)
  qed
qed (use assms in \<open>auto simp: frame_simps voicemail_ack_def voicemail_bye_def voicemail_cancel_def mark_recording_canceled_def Let_def\<close>)

lemma access_pending_run: "cid \<in> vx_access_pending st \<Longrightarrow> cid \<in> vx_access_pending (voicemail_run cfg evs st)"
  by (induction evs arbitrary: st) (simp_all add: access_pending_kept)

lemma access_pending_refuses:
  assumes "cid \<in> vx_access_pending st" "is_access_invite cfg msg" "call_id msg = Some cid" "cid \<noteq> []"
  shows "fst (handle_access_invite cfg w msg src st) = Ok (build (base_response msg 491 ''Request Pending''))"
  using assms by (simp add: handle_access_invite_def Let_def track_access_candidate_def duplicate_candidate_response_def)

text \<open>
  An error of one SQL statement locks a caller out. If the registration lookup of an INVITE for listening fails, the
  call identifier stays marked as pending: whatever happens afterwards, every INVITE for listening with that identifier is
  answered 491.
\<close>

theorem access_error_blocks_call:
  assumes "is_access_invite cfg msg" "call_id msg = Some cid" "cid \<noteq> []" "access_caller msg \<noteq> []"
    and "hm_get (vx_active st) cid = None" "cid \<notin> vx_access_pending st"
    and "lookup_enabled_box (vw_env w) (access_caller msg) (cfg_sip_domain cfg) st = Some b" "ev_fails (vw_env w) SelectSource"
    and "is_access_invite cfg msg'" "call_id msg' = Some cid"
  shows "fst (handle_access_invite cfg w msg src st) = Err db_error \<and>
    fst (handle_access_invite cfg w' msg' src' (voicemail_run cfg evs (snd (handle_access_invite cfg w msg src st)))) =
      Ok (build (base_response msg' 491 ''Request Pending''))"
proof -
  have "handle_access_invite cfg w msg src st = (Err db_error, st\<lparr>vx_access_pending := insert cid (vx_access_pending st)\<rparr>)"
    using assms(1-8)
    by (simp add: handle_access_invite_def Let_def track_access_candidate_def duplicate_candidate_response_def access_admitted_def
        source_is_registered_def lookup_enabled_box_def split: if_splits)
  then show ?thesis
    using access_pending_refuses [OF access_pending_run [of cid "st\<lparr>vx_access_pending := insert cid (vx_access_pending st)\<rparr>"] assms(9,10,3)]
    by simp
qed

text \<open>
  Two deletions of the last message at once panic. The handler of the key 7 reads the call, updates the table, and
  changes the call, with other requests in between; if two of them read the position of the last message before either
  changes the call, the second removes an element that does not exist.
\<close>

theorem concurrent_delete_panics:
  assumes "playback_of cid st = Some (mailbox, box, [m], 0)" "\<not> ev_fails (vw_env w) UpdateVoicemail"
    and "\<not> vw_checks w"
  shows "\<exists>sel. select_message cid 0 st = Some sel \<and>
    (\<exists>st'. delete_commit cfg w cid 0 sel st = (Ok (), st') \<and> fst (delete_commit cfg w cid 0 sel st') = Panic)"
proof -
  have sel: "select_message cid 0 st = Some (vg_id m, mailbox)" using assms(1) by (simp add: select_message_def)
  obtain call where call: "hm_get (vx_active st) cid = Some call" "vc_mode call = Playback mailbox box [m] 0"
    using assms(1) by (auto simp: playback_of_def split: option.splits voicemail_mode.splits)
  let ?st = "snd (delete_commit cfg w cid 0 (vg_id m, mailbox) st)"
  have d: "delete_message_at_index cfg w cid 0 st = delete_commit cfg w cid 0 (vg_id m, mailbox) st"
    by (simp add: delete_message_at_index_def sel)
  have "fst (delete_commit cfg w cid 0 (vg_id m, mailbox) st) = Ok ()"
    using delete_in_range(2) [OF assms(1) _ assms(3), of cfg] unfolding d
    by (auto simp: delete_commit_def Let_def split: prod.splits outcome.splits if_splits)
  moreover have "playback_of cid ?st = Some (mailbox, box, [], 0)"
    using delete_in_range(1) [OF assms(1), of cfg w] call assms(2)
    by (simp add: d playback_of_def with_playback_get remove_at_def Let_def)
  then have "fst (delete_commit cfg w cid 0 (vg_id m, mailbox) ?st) = Panic"
    using assms(2) by (simp add: delete_commit_def Let_def)
  ultimately show ?thesis using sel by (metis prod.collapse)
qed

section \<open>A stored message is announced\<close>

abbreviation mwi_addr :: "mwi_subscription \<Rightarrow> socket_addr option" where
  "mwi_addr s \<equiv> parse_socket_addr (mw_subscriber_ip s @ '':'' @ show_uint (mw_subscriber_port s))"

lemma mwi_rows_outbox:
  assumes "list_all (\<lambda>(k, s). mw_cseq s \<noteq> - 1 \<and> mwi_addr s \<noteq> None) rows" "\<And>a. \<not> ev_send_fails env a" "\<not> ev_fails env UpdateMwi"
  shows "sv_outbox (snd (mwi_notify_rows checks sha1 env u d counts rows st)) = sv_outbox st @
    map (\<lambda>((u', d', cid), s). (the (mwi_addr s), mwi_build_notify sha1 u d cid (mw_subscriber_tag s) (mw_cseq s + 1) (fst counts) (snd counts))) rows"
  using assms
proof (induction checks sha1 env u d counts rows st rule: mwi_notify_rows.induct)
  case (2 checks sha1 env u d counts u' d' cid s rows st)
  then obtain a where a: "mwi_addr s = Some a" "mw_cseq s \<noteq> - 1" by auto
  let ?n = "mwi_build_notify sha1 u d cid (mw_subscriber_tag s) (mw_cseq s + 1) (fst counts) (snd counts)"
  have u: "udp_send env a ?n st = (Ok (), st\<lparr>sv_outbox := sv_outbox st @ [(a, ?n)]\<rparr>)" using "2.prems"(2) by (simp add: udp_send_def)
  show ?case using "2.IH"(1) [OF _ refl refl a(1) u [symmetric] refl] "2.prems" a u by (simp add: Let_def)
qed simp

lemma count_status_insert:
  assumes "insert_voicemail env r key d st = (Ok (), st')"
  shows "count_status (rs_box_id r) VmNew (vx_messages st') = Suc (count_status (rs_box_id r) VmNew (vx_messages st))"
    "count_status (rs_box_id r) VmSaved (vx_messages st') = count_status (rs_box_id r) VmSaved (vx_messages st)"
    "vx_boxes st' = vx_boxes st" "vx_mwi st' = vx_mwi st"
  using assms by (auto simp: insert_voicemail_def count_status_def split: if_splits)

text \<open>
  C38: The owner of a mailbox is told of a new message. When a recording that was not canceled is stored in the mailbox of
  its callee, each live subscription to the mailbox is sent a NOTIFY with its next sequence number, whose count of new
  messages includes the stored one, provided the stored addresses of the subscriptions can be parsed, none of their
  sequence numbers is exhausted, and the statements and the sends succeed.
\<close>

theorem owner_is_told:
  assumes "insert_voicemail (vw_env w) r key dur st = (Ok (), st')" "dur \<noteq> 0" "rs_call_id r \<notin> vx_canceled st"
    and "find (\<lambda>b. mb_username b = rs_callee r \<and> mb_domain b = rs_domain r) (vx_boxes st) = Some b" "mb_id b = rs_box_id r"
    and "\<not> ev_fails (vw_env w) CountMwi" "\<not> ev_fails (vw_env w) SelectMwi" "\<not> ev_fails (vw_env w) UpdateMwi" "\<And>a. \<not> ev_send_fails (vw_env w) a"
    and "list_all (\<lambda>(k, s). mw_cseq s \<noteq> - 1 \<and> mwi_addr s \<noteq> None) (mwi_watchers (vw_env w) (rs_callee r) (rs_domain r) st)"
    and "hm_get (vx_mwi st) (rs_callee r, rs_domain r, cid) = Some s" "ev_utc (vw_env w) < mw_expires_at s" "mwi_addr s = Some a"
  shows "(a, mwi_build_notify (vw_sha1 w) (rs_callee r) (rs_domain r) cid (mw_subscriber_tag s) (mw_cseq s + 1)
      (Suc (count_status (rs_box_id r) VmNew (vx_messages st))) (count_status (rs_box_id r) VmSaved (vx_messages st)))
    \<in> set (sv_outbox (snd (recording_finished w r (Ok (key, dur)) st)))"
proof -
  let ?env = "vw_env w" and ?u = "rs_callee r" and ?d = "rs_domain r" and ?c = "(Suc (count_status (rs_box_id r) VmNew (vx_messages st)), count_status (rs_box_id r) VmSaved (vx_messages st))"
  let ?st1 = "st\<lparr>vx_active := hm_del (rs_call_id r) (vx_active st), vx_media := vm_remove (rs_call_id r) (vx_media st),
      vx_recording := vx_recording st - {rs_call_id r}, vx_canceled := vx_canceled st - {rs_call_id r}\<rparr>"
  obtain st2 where st2: "insert_voicemail ?env r key dur ?st1 = (Ok (), st2)" "vx_messages st2 = vx_messages st'" "vx_mwi st2 = vx_mwi st" "vx_boxes st2 = vx_boxes st"
    using assms(1) by (auto simp: insert_voicemail_def split: if_splits)
  have fin: "snd (recording_finished w r (Ok (key, dur)) st) = snd (mwi_notify_mailbox (vw_checks w) (vw_sha1 w) ?env ?u ?d st2)"
    using assms(2,3) st2(1)
    by (simp add: recording_finished_def should_persist_recording_def recording_persistence_decision_def persist_recording_def Let_def notify_result)
  have counts: "message_counts ?env ?u ?d st2 = Ok ?c"
    using assms(4-6) count_status_insert [OF assms(1)] st2 by (simp add: message_counts_def)
  have en: "\<exists>st3. snd (enqueue ?env ev p st2) = st3 \<and> vx_mwi st3 = vx_mwi st" for ev p
    using st2(3) by (simp add: enqueue_def split_beta)
  then obtain st3 where st3: "mwi_notify_mailbox (vw_checks w) (vw_sha1 w) ?env ?u ?d st2 =
      mwi_notify_rows (vw_checks w) (vw_sha1 w) ?env ?u ?d ?c (mwi_watchers ?env ?u ?d st3) st3" "vx_mwi st3 = vx_mwi st"
    using counts assms(7) by (fastforce simp: mwi_notify_mailbox_def Let_def)
  have "mwi_watchers ?env ?u ?d st3 = mwi_watchers ?env ?u ?d st" using st3(2) by (simp add: mwi_watchers_def)
  moreover have "((?u, ?d, cid), s) \<in> set (mwi_watchers ?env ?u ?d st)"
    using map_of_SomeD [OF assms(11)] assms(12) by (simp add: mwi_watchers_def)
  ultimately show ?thesis unfolding fin st3(1)
    using mwi_rows_outbox [OF assms(10,9,8), of "vw_checks w" "vw_sha1 w" ?u ?d ?c st3] assms(13) by force
qed

section \<open>Examples\<close>

definition listener_source :: socket_addr where
  "listener_source = \<lparr>sa_ip = Ipv4 192 0 2 3, sa_port = 5060\<rparr>"

definition example_world :: voicemail_world where
  "example_world = \<lparr>vw_env = example_env, vw_checks = False, vw_sha1 = (\<lambda>s. ''0123456789abcdef0123''),
     vw_verify = (\<lambda>pin hash. pin = hash), vw_ports = (\<lambda>p. True), vw_delete_fails = False\<rparr>"

definition example_box :: mailbox_settings where
  "example_box = \<lparr>mb_id = 1, mb_username = ''1001'', mb_domain = ''x.org'', mb_enabled = True, mb_no_answer_secs = 20,
     mb_max_message_secs = 60, mb_max_messages = 10, mb_greeting_storage_key = None, mb_pin_hash = None\<rparr>"

definition example_message :: "u64 \<Rightarrow> voicemail_message" where
  "example_message i = \<lparr>vg_id = i, vg_box_id = 1, vg_caller = ''1002'', vg_callee = ''1001'', vg_call_id = ''c0'',
     vg_duration_secs = 3, vg_storage_key = ''k'', vg_status = VmNew, vg_created_at = 900, vg_heard_at = None\<rparr>"

definition example_call :: voicemail_call where
  "example_call = \<lparr>vc_mode = Playback ''1001'' 1 [example_message 1, example_message 2] 0, vc_caller = ''1001'', vc_callee = ''1001'', vc_pin_buffer = []\<rparr>"

definition example_voicemail :: voicemail_server where
  "example_voicemail = server_state.extend
     (example_state\<lparr>sv_registrations := [((''1001'', ''x.org''), \<lparr>rg_contact_uri = ''sip:1001@192.0.2.3'', rg_user_agent = [],
        rg_expires_at = 2000, rg_source_ip = ''192.0.2.3'', rg_source_port = 5060\<rparr>)]\<rparr>)
     (voicemail_server.fields [example_box] [example_message 1] 2
        [((''1001'', ''x.org'', ''s1''), \<lparr>mw_subscriber_tag = ''t'', mw_subscriber_ip = ''192.0.2.3'', mw_subscriber_port = 5060,
           mw_expires_at = 2000, mw_cseq = 4\<rparr>)]
        (voicemail_media_new ''203.0.113.9'' 40000 40000) \<lparr>vs_root = ''/data'', vs_files = []\<rparr> [] [] [] 0 {} {} {} [])"

definition example_request :: "string \<Rightarrow> string \<Rightarrow> string \<Rightarrow> string \<Rightarrow> string \<Rightarrow> sip_message" where
  "example_request method uri cid from body = \<lparr>m_method = Some method, m_request_uri = Some uri, m_status_code = None,
     m_headers = [(''from'', [from]), (''call-id'', [cid])], m_body = body, m_raw = []\<rparr>"

definition audio_offer :: string where
  "audio_offer = ''m=audio 4000 RTP/AVP 0'' @ crlf"

lemmas example_voicemail_simps = example_voicemail_def server_state.extend_def voicemail_server.fields_def example_state_def

lemma example_names:
  "normalize_header_name ''call-id'' = ''call-id''" "normalize_header_name ''from'' = ''from''" "normalize_header_name ''to'' = ''to''"
  by code_simp+

lemma example_headers:
  "call_id (example_request m u c f b) = Some c" "from_header (example_request m u c f b) = Some f" "to_header (example_request m u c f b) = None"
  "m_method (example_request m u c f b) = Some m" "m_request_uri (example_request m u c f b) = Some u" "m_body (example_request m u c f b) = b"
  by (simp_all add: example_request_def call_id_def from_header_def to_header_def header_def example_names header_values_def)

lemma example_uris:
  "extract_uri ''<sip:1001@x.org>'' = Some ''sip:1001@x.org''" "uri_username ''sip:1001@x.org'' = Some ''1001''"
  "uri_username ''sip:*97@x.org'' = Some ''*97''" "parse_ip ''192.0.2.3'' = Some (Ipv4 192 0 2 3)"
  "vm_negotiate_offer audio_offer = Ok \<lparr>vn_codec = VmPcmu, vn_audio_pt = 0, vn_telephone_event_pt = None\<rparr>"
  "parse_dtmf_relay ''Signal=2'' = Some DtmfTwo"
  by code_simp+

lemma example_media:
  "\<exists>m. vm_allocate (\<lambda>p. True) c VmPcmu 0 None (voicemail_media_new ''203.0.113.9'' 40000 40000) = (Ok 40000, m)"
  by (simp add: vm_allocate_def validate_payload_type_def voicemail_media_new_def vm_bind_socket_def Let_def vm_bound_ports_def)

abbreviation example_access :: sip_message where
  "example_access \<equiv> example_request ''INVITE'' ''sip:*97@x.org'' ''c1'' ''<sip:1001@x.org>'' audio_offer"

abbreviation example_delivery :: sip_message where
  "example_delivery \<equiv> example_request ''INVITE'' ''sip:1001@x.org'' ''c2'' ''<sip:1001@x.org>'' audio_offer"

lemma example_is_access: "is_access_invite example_config example_access" "access_caller example_access = ''1001''"
  by (simp_all add: is_access_invite_def access_caller_def example_headers example_uris is_voicemail_access_target_def example_config_def)

lemma example_listens:
  "playback_of ''c1'' (snd (handle_access_invite example_config example_world example_access listener_source example_voicemail)) =
     Some (''1001'', 1, [example_message 1], 0)"
proof -
  have l: "lookup_enabled_box example_env ''1001'' ''x.org'' (example_voicemail\<lparr>vx_access_pending := {''c1''}\<rparr>) = Some example_box"
    by (simp add: lookup_enabled_box_def example_voicemail_simps example_box_def example_env_def)
  have s: "source_is_registered example_env ''1001'' ''x.org'' listener_source (example_voicemail\<lparr>vx_access_pending := {''c1''}\<rparr>) = Ok True"
    by (simp add: source_is_registered_def live_registration_def registered_source_matches_def example_voicemail_simps example_env_def
        example_uris listener_source_def)
  obtain m where m: "vm_allocate (\<lambda>p. True) ''c1'' VmPcmu 0 None (vx_media example_voicemail) = (Ok 40000, m)"
    using example_media [of "''c1''"] by (auto simp: example_voicemail_simps)
  have "list_messages_for_mailbox example_env 1 (example_voicemail\<lparr>vx_access_pending := {''c1''}, vx_media := m\<rparr>) = [example_message 1]"
    by (simp add: list_messages_for_mailbox_def example_voicemail_simps example_env_def example_message_def)
  moreover have domain: "cfg_sip_domain example_config = ''x.org''" by (simp add: example_config_def)
  moreover have "vx_active example_voicemail = []" "vx_access_pending example_voicemail = {}" by (simp_all add: example_voicemail_simps)
  ultimately show ?thesis using l s m
    by (simp add: handle_access_invite_def example_is_access example_headers track_access_candidate_def duplicate_candidate_response_def
        access_admitted_def Let_def example_world_def example_uris access_call_def playback_of_def domain example_box_def
        box_has_pin_def)
qed


theorem mailbox_needs_owner_witness:
  "playback_of ''c1'' (voicemail_run example_config [AccessInvite example_world example_access listener_source] example_voicemail) =
     Some (''1001'', 1, [example_message 1], 0) \<and>
   (\<exists>j b. opened_by example_config example_voicemail [AccessInvite example_world example_access listener_source] ''c1'' ''1001'' j b \<and> mb_id b = 1)"
proof -
  have "vx_active example_voicemail = []" by (simp add: example_voicemail_simps)
  moreover have p: "playback_of ''c1'' (voicemail_run example_config [AccessInvite example_world example_access listener_source] example_voicemail) =
     Some (''1001'', 1, [example_message 1], 0)" using example_listens by simp
  ultimately show ?thesis using mailbox_needs_owner [of example_voicemail "''c1''" example_config] by blast
qed

theorem menu_playback_fails_witness:
  "\<exists>key. vx_spawned (snd (voicemail_info example_config example_world
       (example_request ''INFO'' ''sip:*97@x.org'' ''c1'' ''<sip:1001@x.org>'' ''Signal=2'') (example_voicemail\<lparr>vx_active := [(''c1'', example_call)]\<rparr>))) =
     [SpawnPlay ''c1'' key] \<and>
   get_session ''c1'' (vx_media (snd (voicemail_info example_config example_world
       (example_request ''INFO'' ''sip:*97@x.org'' ''c1'' ''<sip:1001@x.org>'' ''Signal=2'') (example_voicemail\<lparr>vx_active := [(''c1'', example_call)]\<rparr>)))) =
     Err (''voicemail media session not found for '' @ ''c1'')"
proof -
  let ?st = "example_voicemail\<lparr>vx_active := [(''c1'', example_call)]\<rparr>"
  let ?msg = "example_request ''INFO'' ''sip:*97@x.org'' ''c1'' ''<sip:1001@x.org>'' ''Signal=2''"
  have "vx_spawned (snd (voicemail_info example_config example_world ?msg ?st)) = vx_spawned ?st @ [SpawnPlay ''c1'' ''k'']"
    by (simp add: voicemail_info_def example_headers example_uris example_call_def playback_key_def menu_move_def with_playback_def
        play_message_at_index_def playback_of_def hm_adjust_def Let_def example_message_def)
  then show ?thesis
    using menu_playback_fails [of ?st "''c1''" example_call "''1001''" 1 "[example_message 1, example_message 2]" 0 ?msg example_config example_world "''c1''" "''k''"]
    by (simp add: example_headers example_call_def example_voicemail_simps)
qed

definition example_failing_world :: voicemail_world where
  "example_failing_world = example_world\<lparr>vw_env := example_env\<lparr>ev_fails := (\<lambda>q. q = SelectSource)\<rparr>\<rparr>"

theorem access_error_blocks_call_witness:
  "fst (handle_access_invite example_config example_failing_world example_access listener_source example_voicemail) = Err db_error \<and>
   fst (handle_access_invite example_config example_world example_access listener_source
     (voicemail_run example_config [VmBye example_access]
        (snd (handle_access_invite example_config example_failing_world example_access listener_source example_voicemail)))) =
     Ok (build (base_response example_access 491 ''Request Pending''))"
  using access_error_blocks_call [of example_config example_access "''c1''" example_voicemail example_failing_world example_box example_access
      listener_source example_world listener_source "[VmBye example_access]"]
  by (simp add: example_is_access example_headers example_failing_world_def lookup_enabled_box_def example_voicemail_simps example_box_def
      example_config_def [THEN arg_cong [where f = cfg_sip_domain]])

theorem concurrent_delete_panics_witness:
  "\<exists>sel (st' :: voicemail_server). select_message ''c1'' 0 (example_voicemail\<lparr>vx_active := [(''c1'', example_call\<lparr>vc_mode := Playback ''1001'' 1 [example_message 1] 0\<rparr>)]\<rparr>) = Some sel \<and>
     fst (delete_commit example_config example_world ''c1'' 0 sel st') = Panic"
proof -
  let ?st = "example_voicemail\<lparr>vx_active := [(''c1'', example_call\<lparr>vc_mode := Playback ''1001'' 1 [example_message 1] 0\<rparr>)]\<rparr>"
  have "playback_of ''c1'' ?st = Some (''1001'', 1, [example_message 1], 0)" by (simp add: playback_of_def)
  moreover have "\<not> ev_fails (vw_env example_world) UpdateVoicemail" "\<not> vw_checks example_world"
    by (simp_all add: example_world_def example_env_def)
  ultimately show ?thesis using concurrent_delete_panics [of "''c1''" ?st "''1001''" 1 "example_message 1" example_world example_config] by blast
qed

definition example_recording :: recording_start where
  "example_recording = \<lparr>rs_call_id = ''c2'', rs_box_id = 1, rs_mailbox = ''1001'', rs_domain = ''x.org'', rs_caller = ''1001'',
     rs_callee = ''1001'', rs_max_message_secs = 60\<rparr>"

lemma example_delivery_starts:
  "vx_spawned (voicemail_step example_config (DeliveryInvite example_world example_delivery ''1001'') example_voicemail) =
     vx_spawned example_voicemail @ [SpawnRecording example_recording]"
  "vx_messages (voicemail_step example_config (DeliveryInvite example_world example_delivery ''1001'') example_voicemail) = [example_message 1]"
  "vx_boxes (voicemail_step example_config (DeliveryInvite example_world example_delivery ''1001'') example_voicemail) = [example_box]"
proof -
  let ?st = "example_voicemail\<lparr>vx_recording := {''c2''}\<rparr>"
  have f: "delivery_caller (Some ''<sip:1001@x.org>'') = Some ''1001''" by (simp add: delivery_caller_def example_uris)
  have c: "caller_account_exists example_env ''1001'' ''x.org'' ?st = Ok True"
    by (simp add: caller_account_exists_def example_voicemail_simps example_env_def)
  have l: "lookup_enabled_box example_env ''1001'' ''x.org'' ?st = Some example_box"
    by (simp add: lookup_enabled_box_def example_voicemail_simps example_box_def example_env_def)
  have q: "mailbox_is_full example_env 1 10 ?st = Ok False"
    by (simp add: mailbox_is_full_def example_voicemail_simps example_env_def example_message_def)
  obtain m where m: "vm_allocate (\<lambda>p. True) ''c2'' VmPcmu 0 None (vx_media example_voicemail) = (Ok 40000, m)"
    using example_media [of "''c2''"] by (auto simp: example_voicemail_simps)
  have b: "mb_id example_box = 1" "mb_max_messages example_box = 10" "mb_username example_box = ''1001''" "mb_max_message_secs example_box = 60"
    by (simp_all add: example_box_def)
  have d: "cfg_sip_domain example_config = ''x.org''" by (simp add: example_config_def)
  have e: "vx_recording example_voicemail = {}" "vx_messages example_voicemail = [example_message 1]" "vx_boxes example_voicemail = [example_box]"
    by (simp_all add: example_voicemail_simps)
  have "snd (handle_delivery_invite example_config example_world example_delivery ''1001'' example_voicemail) =
      snd (delivery_established example_config example_env example_delivery ''c2'' ''1001'' ''1001'' example_box 40000
        \<lparr>vn_codec = VmPcmu, vn_audio_pt = 0, vn_telephone_event_pt = None\<rparr> (?st\<lparr>vx_media := m\<rparr>))"
    using f c l q m by (simp add: handle_delivery_invite_def example_headers track_recording_candidate_def duplicate_candidate_response_def
        delivery_to_box_def Let_def example_world_def example_uris d e b)
  then show "vx_spawned (voicemail_step example_config (DeliveryInvite example_world example_delivery ''1001'') example_voicemail) =
     vx_spawned example_voicemail @ [SpawnRecording example_recording]"
  "vx_messages (voicemail_step example_config (DeliveryInvite example_world example_delivery ''1001'') example_voicemail) = [example_message 1]"
  "vx_boxes (voicemail_step example_config (DeliveryInvite example_world example_delivery ''1001'') example_voicemail) = [example_box]"
    by (simp_all add: delivery_established_def Let_def e b d example_recording_def)
qed


theorem owner_is_told_witness:
  "\<exists>n. (listener_source, n) \<in> set (sv_outbox (snd (recording_finished example_world example_recording (Ok (''k2'', 3)) example_voicemail)))"
proof -
  let ?s = "\<lparr>mw_subscriber_tag = ''t'', mw_subscriber_ip = ''192.0.2.3'', mw_subscriber_port = 5060, mw_expires_at = 2000, mw_cseq = 4\<rparr> :: mwi_subscription"
  have "show_ipv4 192 0 2 3 = ''192.0.2.3''" by code_simp
  then have a: "mwi_addr ?s = Some listener_source" using parse_socket_addr_v4 [of 192 0 2 3 5060] by (simp add: listener_source_def)
  have "\<exists>st'. insert_voicemail (vw_env example_world) example_recording ''k2'' 3 example_voicemail = (Ok (), st')"
    by (simp add: insert_voicemail_def example_world_def example_env_def example_recording_def example_message_def example_box_def example_voicemail_simps)
  then obtain st' where i: "insert_voicemail (vw_env example_world) example_recording ''k2'' 3 example_voicemail = (Ok (), st')" ..
  have m: "vx_mwi example_voicemail = [((''1001'', ''x.org'', ''s1''), ?s)]" "vx_boxes example_voicemail = [example_box]" "vx_canceled example_voicemail = {}"
    by (simp_all add: example_voicemail_simps)
  have r: "rs_callee example_recording = ''1001''" "rs_domain example_recording = ''x.org''" "rs_call_id example_recording = ''c2''"
    "rs_box_id example_recording = 1" by (simp_all add: example_recording_def)
  have b: "find (\<lambda>b. mb_username b = rs_callee example_recording \<and> mb_domain b = rs_domain example_recording) (vx_boxes example_voicemail) = Some example_box"
    "mb_id example_box = rs_box_id example_recording" by (simp_all add: m r example_box_def)
  have e: "\<not> ev_fails (vw_env example_world) q" "\<not> ev_send_fails (vw_env example_world) addr" "ev_utc (vw_env example_world) = 1000" for q addr
    by (simp_all add: example_world_def example_env_def)
  have ws: "mwi_watchers (vw_env example_world) (rs_callee example_recording) (rs_domain example_recording) example_voicemail =
      [((''1001'', ''x.org'', ''s1''), ?s)]" by (simp add: mwi_watchers_def m r e)
  have all: "list_all (\<lambda>(k, s). mw_cseq s \<noteq> - 1 \<and> mwi_addr s \<noteq> None)
      (mwi_watchers (vw_env example_world) (rs_callee example_recording) (rs_domain example_recording) example_voicemail)"
    unfolding ws using a by simp
  have g: "hm_get (vx_mwi example_voicemail) (rs_callee example_recording, rs_domain example_recording, ''s1'') = Some ?s" by (simp add: m r)
  show ?thesis
    using owner_is_told [OF i _ _ b e(1) e(1) e(1) e(2) all g _ a] by (auto simp: m r e)
qed

end
