(* ===== verification/Webrtc_Gateway.thy ===== *)
theory Webrtc_Gateway
  imports Media_Sdp Media_Relay Utf8
begin

text \<open>
  The WebRTC gateway, \<open>webrtc_gateway.rs\<close>: sessions between a browser and a SIP phone, with the UDP sockets
  of the SIP side. Peer connections belong to the \<open>webrtc\<close> crate; what its calls return is an argument. The
  receiving task of a socket lives in a store, because it runs on, with the socket, when the handle to it
  is dropped without an abort.
\<close>

section \<open>Definitions\<close>

datatype bridge_flow = BrowserCaller | SipCaller

text \<open>The results of the crate: errors while connecting and adding tracks, and the two negotiations.\<close>

record rtc_world =
  rt_connect :: "string option"
  rt_add_track :: "string option"
  rt_answer :: "string \<Rightarrow> (string, string) outcome"
  rt_offer :: "(string, string) outcome"
  rt_set_answer :: "string \<Rightarrow> string option"

record sip_media_channel =
  mc_port :: u16
  mc_sip_peer :: "socket_addr option"
  mc_rx_task :: bool

record webrtc_session =
  ws_flow :: bridge_flow
  ws_sip_audio :: nat
  ws_sip_video :: "nat option"
  ws_answer_sdp :: string
  ws_created_at :: nat

record webrtc_gateway =
  wg_public_ip :: string
  wg_sip_port_min :: u16
  wg_sip_port_max :: u16
  wg_sip_port_counter :: u32
  wg_channels :: "(nat, sip_media_channel) hmap"
  wg_sessions :: "(string, webrtc_session) hmap"
  wg_next :: nat

definition webrtc_gateway_new :: "string \<Rightarrow> u16 \<Rightarrow> u16 \<Rightarrow> webrtc_gateway" where
  "webrtc_gateway_new public_ip port_min port_max =
     \<lparr>wg_public_ip = public_ip, wg_sip_port_min = port_min, wg_sip_port_max = port_max, wg_sip_port_counter = 0,
      wg_channels = [], wg_sessions = [], wg_next = 0\<rparr>"

definition gw_bound_ports :: "webrtc_gateway \<Rightarrow> u16 list" where
  "gw_bound_ports g = map (\<lambda>(i, c). mc_port c) (filter (\<lambda>(i, c). mc_rx_task c) (wg_channels g))"

fun gw_bind_loop :: "nat \<Rightarrow> u16 \<Rightarrow> u32 \<Rightarrow> u32 \<Rightarrow> (u16 \<Rightarrow> bool) \<Rightarrow> u16 option \<times> u32" where
  "gw_bind_loop 0 port_min rng counter free = (None, counter)"
| "gw_bind_loop (Suc k) port_min rng counter free =
     (let port = port_min + ucast (counter mod rng) in
      if free port then (Some port, counter + 1) else gw_bind_loop k port_min rng (counter + 1) free)"

definition bind_sip_port :: "(u16 \<Rightarrow> bool) \<Rightarrow> webrtc_gateway \<Rightarrow> (string, u16) outcome \<times> webrtc_gateway" where
  "bind_sip_port os g =
     (let rng = (if wg_sip_port_max g \<le> wg_sip_port_min g then 0 else ucast (wg_sip_port_max g - wg_sip_port_min g) :: u32) in
      if rng = 0 then (Err ''SIP RTP port range too small for WebRTC gateway'', g)
      else case gw_bind_loop (unat rng) (wg_sip_port_min g) rng (wg_sip_port_counter g) (\<lambda>p. os p \<and> p \<notin> set (gw_bound_ports g)) of
             (Some port, n) \<Rightarrow> (Ok port, g\<lparr>wg_sip_port_counter := n\<rparr>)
           | (None, n) \<Rightarrow>
               (Err (''No available SIP RTP port in range '' @ show_uint (wg_sip_port_min g) @ ''-'' @ show_uint (wg_sip_port_max g)),
                g\<lparr>wg_sip_port_counter := n\<rparr>))"

definition build_media_channel :: "(u16 \<Rightarrow> bool) \<Rightarrow> webrtc_gateway \<Rightarrow> (string, nat \<times> u16) outcome \<times> webrtc_gateway" where
  "build_media_channel os g =
     (case bind_sip_port os g of
        (Ok port, g) \<Rightarrow>
          (Ok (wg_next g, port), g\<lparr>wg_channels := hm_put (wg_next g) \<lparr>mc_port = port, mc_sip_peer = None, mc_rx_task = True\<rparr> (wg_channels g),
             wg_next := wg_next g + 1\<rparr>)
      | (Err e, g) \<Rightarrow> (Err e, g)
      | (Panic, g) \<Rightarrow> (Panic, g))"

text \<open>\<open>&call_id[..call_id.len().min(8)]\<close> panics inside a character.\<close>

definition is_char_boundary :: "string \<Rightarrow> nat \<Rightarrow> bool" where
  "is_char_boundary s n = (n = length s \<or> n < length s \<and> \<not> utf8_cont (s ! n))"

definition prepare_session ::
  "rtc_world \<Rightarrow> (u16 \<Rightarrow> bool) \<Rightarrow> string \<Rightarrow> bool \<Rightarrow> webrtc_gateway
    \<Rightarrow> (string, (nat \<times> u16) \<times> (nat \<times> u16) option) outcome \<times> webrtc_gateway" where
  "prepare_session rtc os cid with_video g =
     (case rt_connect rtc of
        Some e \<Rightarrow> (Err e, g)
      | None \<Rightarrow>
          if \<not> is_char_boundary cid (min (length cid) 8) then (Panic, g)
          else case rt_add_track rtc of
                 Some e \<Rightarrow> (Err e, g)
               | None \<Rightarrow>
                   (case build_media_channel os g of
                      (Ok audio, g) \<Rightarrow>
                        if with_video then
                          (case build_media_channel os g of
                             (Ok video, g) \<Rightarrow> (Ok (audio, Some video), g)
                           | (Err e, g) \<Rightarrow> (Err e, g)
                           | (Panic, g) \<Rightarrow> (Panic, g))
                        else (Ok (audio, None), g)
                    | (Err e, g) \<Rightarrow> (Err e, g)
                    | (Panic, g) \<Rightarrow> (Panic, g)))"

definition insert_session ::
  "string \<Rightarrow> bridge_flow \<Rightarrow> nat \<Rightarrow> (nat \<times> u16) \<times> (nat \<times> u16) option \<Rightarrow> string \<Rightarrow> webrtc_gateway \<Rightarrow> webrtc_gateway" where
  "insert_session cid flow now chans answer_sdp g =
     g\<lparr>wg_sessions := hm_put cid \<lparr>ws_flow = flow, ws_sip_audio = fst (fst chans), ws_sip_video = map_option fst (snd chans),
         ws_answer_sdp = answer_sdp, ws_created_at = now\<rparr> (wg_sessions g)\<rparr>"

definition create_session ::
  "rtc_world \<Rightarrow> (u16 \<Rightarrow> bool) \<Rightarrow> nat \<Rightarrow> string \<Rightarrow> string \<Rightarrow> bool \<Rightarrow> webrtc_gateway
    \<Rightarrow> (string, string \<times> u16 \<times> u16 option) outcome \<times> webrtc_gateway" where
  "create_session rtc os now cid browser_offer_sdp with_video g =
     (case prepare_session rtc os cid with_video g of
        (Ok chans, g) \<Rightarrow>
          (case rt_answer rtc browser_offer_sdp of
             Ok answer_sdp \<Rightarrow> (Ok (answer_sdp, snd (fst chans), map_option snd (snd chans)), insert_session cid BrowserCaller now chans answer_sdp g)
           | Err e \<Rightarrow> (Err e, g)
           | Panic \<Rightarrow> (Panic, g))
      | (Err e, g) \<Rightarrow> (Err e, g)
      | (Panic, g) \<Rightarrow> (Panic, g))"

text \<open>The plain SDP of the answer carries the current time in seconds, as \<open>make_plain_rtp_sdp\<close> prints it.\<close>

definition create_session_for_sip_caller ::
  "rtc_world \<Rightarrow> (u16 \<Rightarrow> bool) \<Rightarrow> nat \<Rightarrow> nat \<Rightarrow> string \<Rightarrow> bool \<Rightarrow> webrtc_gateway
    \<Rightarrow> (string, string \<times> u16 \<times> u16 option) outcome \<times> webrtc_gateway" where
  "create_session_for_sip_caller rtc os now epoch cid with_video g =
     (case prepare_session rtc os cid with_video g of
        (Ok chans, g) \<Rightarrow>
          (case rt_offer rtc of
             Ok offer_sdp \<Rightarrow>
               (let audio_port = snd (fst chans); video_port = map_option snd (snd chans);
                    sip_answer_sdp = make_plain_rtp_sdp epoch (wg_public_ip g) audio_port video_port
                in (Ok (offer_sdp, audio_port, video_port), insert_session cid SipCaller now chans sip_answer_sdp g))
           | Err e \<Rightarrow> (Err e, g)
           | Panic \<Rightarrow> (Panic, g))
      | (Err e, g) \<Rightarrow> (Err e, g)
      | (Panic, g) \<Rightarrow> (Panic, g))"

definition set_sip_media_peer :: "string \<Rightarrow> sdp_media_kind \<Rightarrow> socket_addr \<Rightarrow> webrtc_gateway \<Rightarrow> webrtc_gateway" where
  "set_sip_media_peer cid kind addr g =
     (case hm_get (wg_sessions g) cid of
        None \<Rightarrow> g
      | Some s \<Rightarrow>
          (case (case kind of Audio \<Rightarrow> Some (ws_sip_audio s) | Video \<Rightarrow> ws_sip_video s) of
             None \<Rightarrow> g
           | Some i \<Rightarrow> g\<lparr>wg_channels := hm_adjust i (\<lambda>c. c\<lparr>mc_sip_peer := Some addr\<rparr>) (wg_channels g)\<rparr>))"

definition set_sip_peer :: "string \<Rightarrow> socket_addr \<Rightarrow> webrtc_gateway \<Rightarrow> webrtc_gateway" where
  "set_sip_peer cid addr g = set_sip_media_peer cid Audio addr g"

definition set_sip_video_peer :: "string \<Rightarrow> socket_addr \<Rightarrow> webrtc_gateway \<Rightarrow> webrtc_gateway" where
  "set_sip_video_peer cid addr g = set_sip_media_peer cid Video addr g"

definition is_sip_caller_session :: "string \<Rightarrow> webrtc_gateway \<Rightarrow> bool" where
  "is_sip_caller_session cid g = (case hm_get (wg_sessions g) cid of None \<Rightarrow> False | Some s \<Rightarrow> ws_flow s = SipCaller)"

definition apply_callee_answer :: "rtc_world \<Rightarrow> string \<Rightarrow> string \<Rightarrow> webrtc_gateway \<Rightarrow> (string, unit) outcome" where
  "apply_callee_answer rtc cid sdp g =
     (case hm_get (wg_sessions g) cid of
        None \<Rightarrow> Ok ()
      | Some s \<Rightarrow> if ws_flow s = SipCaller then (case rt_set_answer rtc sdp of None \<Rightarrow> Ok () | Some e \<Rightarrow> Err e) else Ok ())"

definition get_answer_sdp :: "string \<Rightarrow> webrtc_gateway \<Rightarrow> string option" where
  "get_answer_sdp cid g = map_option ws_answer_sdp (hm_get (wg_sessions g) cid)"

definition stop_channel :: "nat \<Rightarrow> webrtc_gateway \<Rightarrow> webrtc_gateway" where
  "stop_channel i g = g\<lparr>wg_channels := hm_adjust i (\<lambda>c. c\<lparr>mc_rx_task := False\<rparr>) (wg_channels g)\<rparr>"

definition stop_session :: "webrtc_session \<Rightarrow> webrtc_gateway \<Rightarrow> webrtc_gateway" where
  "stop_session s g =
     (let g = stop_channel (ws_sip_audio s) g in case ws_sip_video s of None \<Rightarrow> g | Some i \<Rightarrow> stop_channel i g)"

definition webrtc_remove_session :: "string \<Rightarrow> webrtc_gateway \<Rightarrow> webrtc_gateway" where
  "webrtc_remove_session cid g =
     (case hm_get (wg_sessions g) cid of
        None \<Rightarrow> g
      | Some s \<Rightarrow> stop_session s (g\<lparr>wg_sessions := hm_del cid (wg_sessions g)\<rparr>))"

definition webrtc_cleanup_stale :: "nat \<Rightarrow> u64 \<Rightarrow> webrtc_gateway \<Rightarrow> webrtc_gateway" where
  "webrtc_cleanup_stale now max_age_secs g =
     fold webrtc_remove_session
       (map fst (filter (\<lambda>(k, s). unat max_age_secs < (now - ws_created_at s) div 1000000000) (wg_sessions g))) g"

text \<open>A datagram of the phone is the new peer; a packet of the browser goes to the peer.\<close>

definition sip_rx :: "nat \<Rightarrow> socket_addr \<Rightarrow> webrtc_gateway \<Rightarrow> webrtc_gateway" where
  "sip_rx i src g =
     g\<lparr>wg_channels := hm_adjust i (\<lambda>c. if mc_rx_task c then c\<lparr>mc_sip_peer := Some src\<rparr> else c) (wg_channels g)\<rparr>"

text \<open>A receive error ends the task; the loop has no other end.\<close>

definition sip_rx_error :: "nat \<Rightarrow> webrtc_gateway \<Rightarrow> webrtc_gateway" where
  "sip_rx_error i g = stop_channel i g"

definition browser_packet :: "webrtc_session \<Rightarrow> bool \<Rightarrow> u8 list \<Rightarrow> webrtc_gateway \<Rightarrow> (u16 \<times> socket_addr \<times> u8 list) option" where
  "browser_packet s is_video raw g =
     (let i = (if is_video then (case ws_sip_video s of Some v \<Rightarrow> v | None \<Rightarrow> ws_sip_audio s) else ws_sip_audio s) in
      case hm_get (wg_channels g) i of
        None \<Rightarrow> None
      | Some c \<Rightarrow> if raw = [] then None else map_option (\<lambda>addr. (mc_port c, addr, raw)) (mc_sip_peer c))"

section \<open>Runs\<close>

datatype webrtc_op =
    GwCreate rtc_world "u16 \<Rightarrow> bool" nat string string bool
  | GwCreateForSip rtc_world "u16 \<Rightarrow> bool" nat nat string bool
  | GwRemove string
  | GwCleanup nat u64
  | GwPeer string sdp_media_kind socket_addr
  | GwReceive nat socket_addr

fun webrtc_step :: "webrtc_op \<Rightarrow> webrtc_gateway \<Rightarrow> webrtc_gateway" where
  "webrtc_step (GwCreate rtc os now cid offer video) g = snd (create_session rtc os now cid offer video g)"
| "webrtc_step (GwCreateForSip rtc os now epoch cid video) g = snd (create_session_for_sip_caller rtc os now epoch cid video g)"
| "webrtc_step (GwRemove cid) g = webrtc_remove_session cid g"
| "webrtc_step (GwCleanup now age) g = webrtc_cleanup_stale now age g"
| "webrtc_step (GwPeer cid kind addr) g = set_sip_media_peer cid kind addr g"
| "webrtc_step (GwReceive i src) g = sip_rx i src g"

text \<open>
  A channel whose handle was dropped: its task runs and no session names it. Sessions name only channels
  that exist.
\<close>

definition uses_channel :: "webrtc_session \<Rightarrow> nat \<Rightarrow> bool" where
  "uses_channel s i = (ws_sip_audio s = i \<or> ws_sip_video s = Some i)"

definition orphaned :: "u16 \<Rightarrow> nat \<Rightarrow> webrtc_gateway \<Rightarrow> bool" where
  "orphaned port i g =
     (i < wg_next g \<and> (\<exists>c. hm_get (wg_channels g) i = Some c \<and> mc_rx_task c \<and> mc_port c = port) \<and>
      (\<forall>cid s. hm_get (wg_sessions g) cid = Some s \<longrightarrow> \<not> uses_channel s i))"

lemma orphaned_bound: "orphaned port i g \<Longrightarrow> port \<in> set (gw_bound_ports g)"
  by (auto simp: orphaned_def gw_bound_ports_def dest!: map_of_SomeD)

lemma bind_shape: "\<exists>n. snd (bind_sip_port os g) = g\<lparr>wg_sip_port_counter := n\<rparr>"
proof (cases "fst (bind_sip_port os g) = Err ''SIP RTP port range too small for WebRTC gateway''")
  case True
  then show ?thesis by (auto simp: bind_sip_port_def Let_def split: prod.split option.split intro: exI [of _ "wg_sip_port_counter g"])
qed (auto simp: bind_sip_port_def Let_def split: prod.split option.split)

lemma channel_shape:
  assumes "build_media_channel os g = (r, g')"
  shows "wg_sessions g' = wg_sessions g" "wg_next g \<le> wg_next g'"
    "i < wg_next g \<Longrightarrow> hm_get (wg_channels g') i = hm_get (wg_channels g) i"
    "r = Ok (j, port) \<Longrightarrow> j = wg_next g \<and> j < wg_next g' \<and>
       hm_get (wg_channels g') j = Some \<lparr>mc_port = port, mc_sip_peer = None, mc_rx_task = True\<rparr>"
proof -
  obtain n where n: "snd (bind_sip_port os g) = g\<lparr>wg_sip_port_counter := n\<rparr>" using bind_shape by blast
  have "wg_sessions g' = wg_sessions g \<and> wg_next g \<le> wg_next g' \<and> (i < wg_next g \<longrightarrow> hm_get (wg_channels g') i = hm_get (wg_channels g) i) \<and>
    (r = Ok (j, port) \<longrightarrow> j = wg_next g \<and> j < wg_next g' \<and>
       hm_get (wg_channels g') j = Some \<lparr>mc_port = port, mc_sip_peer = None, mc_rx_task = True\<rparr>)"
    using assms n by (cases "bind_sip_port os g"; cases "fst (bind_sip_port os g)") (auto simp: build_media_channel_def hm.get_put)
  then show "wg_sessions g' = wg_sessions g" "wg_next g \<le> wg_next g'"
    "i < wg_next g \<Longrightarrow> hm_get (wg_channels g') i = hm_get (wg_channels g) i"
    "r = Ok (j, port) \<Longrightarrow> j = wg_next g \<and> j < wg_next g' \<and>
       hm_get (wg_channels g') j = Some \<lparr>mc_port = port, mc_sip_peer = None, mc_rx_task = True\<rparr>" by blast+
qed

lemma prepare_shape:
  assumes "prepare_session rtc os cid video g = (r, g')"
  shows "wg_sessions g' = wg_sessions g" "wg_next g \<le> wg_next g'"
    "i < wg_next g \<Longrightarrow> hm_get (wg_channels g') i = hm_get (wg_channels g) i"
    "r = Ok ((a, p), v) \<Longrightarrow> wg_next g \<le> a \<and> a < wg_next g' \<and>
       hm_get (wg_channels g') a = Some \<lparr>mc_port = p, mc_sip_peer = None, mc_rx_task = True\<rparr> \<and> (\<forall>j q. v = Some (j, q) \<longrightarrow> wg_next g \<le> j \<and> j < wg_next g')"
proof -
  obtain r1 g1 where c1: "build_media_channel os g = (r1, g1)" by force
  obtain r2 g2 where c2: "build_media_channel os g1 = (r2, g2)" by force
  note s1 = channel_shape [OF c1] and s2 = channel_shape [OF c2]
  have "wg_sessions g' = wg_sessions g \<and> wg_next g \<le> wg_next g' \<and> (i < wg_next g \<longrightarrow> hm_get (wg_channels g') i = hm_get (wg_channels g) i)"
    using assms c1 c2 s1(1-3) s2(1-3) by (auto simp: prepare_session_def split: option.splits if_splits outcome.splits)
  moreover have "r = Ok ((a, p), v) \<longrightarrow> wg_next g \<le> a \<and> a < wg_next g' \<and>
       hm_get (wg_channels g') a = Some \<lparr>mc_port = p, mc_sip_peer = None, mc_rx_task = True\<rparr> \<and> (\<forall>j q. v = Some (j, q) \<longrightarrow> wg_next g \<le> j \<and> j < wg_next g')"
    using assms c1 c2 s1(2) s2(2,3) s1(4) [of a p] s2(4)
    by (fastforce simp: prepare_session_def split: option.splits if_splits outcome.splits)
  ultimately show "wg_sessions g' = wg_sessions g" "wg_next g \<le> wg_next g'"
    "i < wg_next g \<Longrightarrow> hm_get (wg_channels g') i = hm_get (wg_channels g) i"
    "r = Ok ((a, p), v) \<Longrightarrow> wg_next g \<le> a \<and> a < wg_next g' \<and>
       hm_get (wg_channels g') a = Some \<lparr>mc_port = p, mc_sip_peer = None, mc_rx_task = True\<rparr> \<and> (\<forall>j q. v = Some (j, q) \<longrightarrow> wg_next g \<le> j \<and> j < wg_next g')"
    by blast+
qed

lemma orphaned_later:
  assumes "orphaned port i g" "wg_next g \<le> wg_next g'" "hm_get (wg_channels g') i = hm_get (wg_channels g) i"
    and "\<And>cid s. hm_get (wg_sessions g') cid = Some s \<Longrightarrow> hm_get (wg_sessions g) cid = Some s \<or> \<not> uses_channel s i"
  shows "orphaned port i g'"
  using assms unfolding orphaned_def by (metis order_less_le_trans)

lemma insert_orphan:
  assumes "orphaned port i g" "prepare_session rtc os cid video g = (Ok chans, g')"
  shows "orphaned port i (insert_session cid flow now chans sdp g')"
proof -
  obtain a p v where c: "chans = ((a, p), v)" by (metis surj_pair)
  have i: "i < wg_next g" using assms(1) by (simp add: orphaned_def)
  note sh = prepare_shape [OF assms(2)]
  show ?thesis
    by (rule orphaned_later [OF assms(1)])
      (use sh(1,2) sh(3) [OF i] sh(4) [of a p v] i c in \<open>auto simp: insert_session_def hm.get_put uses_channel_def split: if_splits\<close>)
qed

lemma prepare_orphan: "orphaned port i g \<Longrightarrow> prepare_session rtc os cid video g = (r, g') \<Longrightarrow> orphaned port i g'"
proof -
  assume o: "orphaned port i g" and p: "prepare_session rtc os cid video g = (r, g')"
  have "i < wg_next g" using o by (simp add: orphaned_def)
  then show ?thesis using prepare_shape(1-3) [OF p] by (intro orphaned_later [OF o]) auto
qed

lemma stop_session_frame:
  "wg_sessions (stop_session s g) = wg_sessions g" "wg_next (stop_session s g) = wg_next g"
  "\<not> uses_channel s i \<Longrightarrow> hm_get (wg_channels (stop_session s g)) i = hm_get (wg_channels g) i"
  by (auto simp: stop_session_def stop_channel_def uses_channel_def Let_def split: option.split)

lemma remove_orphan:
  assumes "orphaned port i g"
  shows "orphaned port i (webrtc_remove_session cid g)"
proof (cases "hm_get (wg_sessions g) cid")
  case (Some s)
  then have "\<not> uses_channel s i" using assms by (auto simp: orphaned_def)
  then show ?thesis using Some
    by (intro orphaned_later [OF assms]) (simp_all add: webrtc_remove_session_def stop_session_frame hm.get_del split: if_splits)
qed (use assms in \<open>simp add: webrtc_remove_session_def\<close>)

interpretation gw_kept: kept_invariant webrtc_step "orphaned port i" for port i
proof
  fix g op
  assume o: "orphaned port i g"
  show "orphaned port i (webrtc_step op g)"
  proof (cases op)
    case (GwCreate rtc os now cid offer video)
    obtain r g' where p: "prepare_session rtc os cid video g = (r, g')" by force
    show ?thesis using prepare_orphan [OF o p] insert_orphan [OF o, of rtc os cid video _ g'] p
      by (auto simp: GwCreate create_session_def split: outcome.split)
  next
    case (GwCreateForSip rtc os now epoch cid video)
    obtain r g' where p: "prepare_session rtc os cid video g = (r, g')" by force
    show ?thesis using prepare_orphan [OF o p] insert_orphan [OF o, of rtc os cid video _ g'] p
      by (auto simp: GwCreateForSip create_session_for_sip_caller_def Let_def split: outcome.split)
  next
    case (GwRemove cid)
    then show ?thesis using remove_orphan [OF o] by simp
  next
    case (GwCleanup now age)
    have "orphaned port i (fold webrtc_remove_session ks g)" for ks
      using o by (induction ks arbitrary: g) (simp_all add: remove_orphan)
    then show ?thesis by (simp add: GwCleanup webrtc_cleanup_stale_def)
  next
    case (GwPeer cid kind addr)
    then show ?thesis using o
      by (auto simp: orphaned_def set_sip_media_peer_def split: option.split sdp_media_kind.split)
  next
    case (GwReceive j src)
    then show ?thesis using o by (auto simp: orphaned_def sip_rx_def)
  qed
qed

text \<open>
  A failed negotiation loses a port. When the sockets of a WebRTC session are bound and the negotiation with the browser
  then fails, the call gets an error, the port of its audio socket is bound, no session names the socket, and no sequence
  of later operations, the removal of the call and the clean-up of stale sessions included, ever frees it. (Only an error
  that the socket itself reports, which ends the receiving task, would; the operations of the gateway do not include it.)
\<close>

theorem webrtc_failure_leaks:
  assumes "prepare_session rtc os cid video g = (Ok ((a, port), v), g1)" "rt_answer rtc offer = Err e"
    and "\<And>c s. hm_get (wg_sessions g) c = Some s \<Longrightarrow> \<forall>i. uses_channel s i \<longrightarrow> i < wg_next g"
  shows "fst (create_session rtc os now cid offer video g) = Err e \<and>
    port \<in> set (gw_bound_ports (fold webrtc_step ops (snd (create_session rtc os now cid offer video g))))"
proof -
  have c: "create_session rtc os now cid offer video g = (Err e, g1)" using assms(1,2) by (simp add: create_session_def)
  note sh = prepare_shape [OF assms(1)]
  have "orphaned port a g1"
    unfolding orphaned_def using sh(1) sh(4) [OF refl] assms(3) by (auto simp: not_less [symmetric])
  then show ?thesis using gw_kept.run_inv [of port a g1 ops] orphaned_bound c by simp
qed

definition example_rtc :: rtc_world where
  "example_rtc = \<lparr>rt_connect = None, rt_add_track = None, rt_answer = (\<lambda>sdp. Err ''no fingerprint''), rt_offer = Ok ''offer'',
     rt_set_answer = (\<lambda>sdp. None)\<rparr>"

theorem webrtc_failure_leaks_witness:
  "40000 \<in> set (gw_bound_ports (fold webrtc_step [GwRemove ''c1'', GwCleanup (10 ^ 12) 60]
     (snd (create_session example_rtc (\<lambda>p. True) 0 ''c1'' ''v=0'' False (webrtc_gateway_new ''203.0.113.9'' 40000 40001)))))"
proof -
  let ?g = "webrtc_gateway_new ''203.0.113.9'' 40000 40001"
  have "\<exists>g1. prepare_session example_rtc (\<lambda>p. True) ''c1'' False ?g = (Ok ((0, 40000), None), g1)"
    by (simp add: prepare_session_def example_rtc_def is_char_boundary_def build_media_channel_def bind_sip_port_def
        webrtc_gateway_new_def Let_def gw_bound_ports_def)
  then obtain g1 where p: "prepare_session example_rtc (\<lambda>p. True) ''c1'' False ?g = (Ok ((0, 40000), None), g1)" ..
  show ?thesis
    using webrtc_failure_leaks [OF p, of "''v=0''" "''no fingerprint''" 0 "[GwRemove ''c1'', GwCleanup (10 ^ 12) 60]"]
    by (simp add: webrtc_gateway_new_def) (simp add: example_rtc_def webrtc_gateway_new_def)
qed

end
