(* ===== verification/Proxy_Messages.thy ===== *)
theory Proxy_Messages
  imports Registrar Media_Sdp
begin

text \<open>
  The texts of \<open>proxy.rs\<close>: the INVITE and the CANCEL it forwards, the target URI, and the tests on contact
  URIs and registered sources. The headers of a message are copied in the order of its map. The lemmas
  show that a peer parses what is forwarded into the request that came in.
\<close>

section \<open>Definitions\<close>

definition is_websocket_contact_uri :: "string \<Rightarrow> bool" where
  "is_websocket_contact_uri contact_uri = contains_str ''transport=ws'' (to_lower contact_uri)"

definition should_preserve_webrtc_sdp_for_target :: "string \<Rightarrow> string \<Rightarrow> bool" where
  "should_preserve_webrtc_sdp_for_target contact_uri body = (is_websocket_contact_uri contact_uri \<and> is_webrtc_sdp body)"

definition should_bridge_plain_sip_to_websocket_target :: "string \<Rightarrow> string \<Rightarrow> bool" where
  "should_bridge_plain_sip_to_websocket_target contact_uri body =
     (is_websocket_contact_uri contact_uri \<and> body \<noteq> [] \<and> \<not> is_webrtc_sdp body)"

definition registered_target_uri :: "string \<Rightarrow> string \<Rightarrow> socket_addr \<Rightarrow> string" where
  "registered_target_uri username contact_uri target_addr =
     (if is_websocket_contact_uri contact_uri then contact_uri else routable_contact_uri contact_uri username target_addr)"

definition should_refresh_registration_source :: "string \<Rightarrow> u16 \<Rightarrow> socket_addr \<Rightarrow> bool" where
  "should_refresh_registration_source registered_ip registered_port src =
     ((case parse_ip registered_ip of None \<Rightarrow> False | Some ip \<Rightarrow> ip = sa_ip src) \<and> registered_port \<noteq> sa_port src)"

definition proxy_via_branch :: "(string \<Rightarrow> string) \<Rightarrow> string \<Rightarrow> string" where
  "proxy_via_branch md5 cid = ''z9hG4bKproxy'' @ take 16 (md5 cid)"

definition capitalize_word :: "string \<Rightarrow> string" where
  "capitalize_word w = (case w of [] \<Rightarrow> [] | c # cs \<Rightarrow> upper_char c # cs)"

definition capitalize_header :: "string \<Rightarrow> string" where
  "capitalize_header name =
     (if name = ''call-id'' then ''Call-ID''
      else if name = ''cseq'' then ''CSeq''
      else if name = ''www-authenticate'' then ''WWW-Authenticate''
      else if name = ''content-type'' then ''Content-Type''
      else if name = ''content-length'' then ''Content-Length''
      else if name = ''user-agent'' then ''User-Agent''
      else join ''-'' (map capitalize_word (split_on (CHR ''-'') name)))"

definition cancel_cseq_value :: "string option \<Rightarrow> string" where
  "cancel_cseq_value cs =
     (let number = (case cs of None \<Rightarrow> ''1'' | Some v \<Rightarrow> (case split_whitespace v of [] \<Rightarrow> ''1'' | n # _ \<Rightarrow> n))
      in number @ '' CANCEL'')"

definition via_line :: "(string \<Rightarrow> string) \<Rightarrow> string \<Rightarrow> string \<Rightarrow> string" where
  "via_line md5 sip_domain cid = ''SIP/2.0/UDP '' @ sip_domain @ '';branch='' @ proxy_via_branch md5 cid @ '';rport''"

definition header_text :: "(string \<times> string) list \<Rightarrow> string" where
  "header_text hs = concat (map (\<lambda>(n, v). n @ '': '' @ v @ crlf) hs)"

definition copied_headers :: "string list \<Rightarrow> (string, string list) hmap \<Rightarrow> (string \<times> string) list" where
  "copied_headers skipped hs =
     concat (map (\<lambda>(name, vals). if name \<in> set skipped then [] else map (Pair (capitalize_header name)) vals) hs)"

definition build_forwarded_cancel_for_target ::
  "(string \<Rightarrow> string) \<Rightarrow> sip_message \<Rightarrow> string \<Rightarrow> u32 \<Rightarrow> string \<Rightarrow> string" where
  "build_forwarded_cancel_for_target md5 msg target_uri max_fwd sip_domain =
     ''CANCEL '' @ target_uri @ '' SIP/2.0'' @ crlf @
     header_text ((''Via'', via_line md5 sip_domain (case call_id msg of None \<Rightarrow> [] | Some c \<Rightarrow> c)) #
       map (Pair ''Via'') (via_headers msg) @
       [(''Max-Forwards'', show_uint max_fwd), (''CSeq'', cancel_cseq_value (cseq msg))] @
       copied_headers [''via'', ''max-forwards'', ''cseq'', ''content-length''] (m_headers msg)) @
     ''Content-Length: 0'' @ crlf @ crlf"

definition build_forwarded_invite_for_target ::
  "(string \<Rightarrow> string) \<Rightarrow> sip_message \<Rightarrow> string \<Rightarrow> u32 \<Rightarrow> string \<Rightarrow> string option \<Rightarrow> string" where
  "build_forwarded_invite_for_target md5 msg target_uri max_fwd sip_domain rewritten_body =
     (let body = (case rewritten_body of None \<Rightarrow> m_body msg | Some b \<Rightarrow> b) in
      ''INVITE '' @ target_uri @ '' SIP/2.0'' @ crlf @
      header_text ((''Via'', via_line md5 sip_domain (case call_id msg of None \<Rightarrow> [] | Some c \<Rightarrow> c)) #
        map (Pair ''Via'') (via_headers msg) @
        [(''Max-Forwards'', show_uint max_fwd), (''Record-Route'', ''<sip:'' @ sip_domain @ '';lr>'')] @
        copied_headers [''via'', ''max-forwards'', ''content-length'', ''record-route''] (m_headers msg)) @
      ''Content-Length: '' @ show_nat (length body) @ crlf @ crlf @ body)"

section \<open>Header names of a parsed message\<close>

definition wf_key :: "string \<Rightarrow> bool" where
  "wf_key k =
     (trimmed k \<and> to_lower k = k \<and> CHR '':'' \<notin> set k \<and> lf \<notin> set k \<and>
      k \<notin> set [''f'', ''t'', ''v'', ''c'', ''l'', ''i'', ''m'', ''e''])"

lemma wf_key_names:
  "wf_key ''from''" "wf_key ''to''" "wf_key ''via''" "wf_key ''content-type''" "wf_key ''content-length''" "wf_key ''call-id''"
  "wf_key ''contact''" "wf_key ''content-encoding''"
  unfolding wf_key_def trimmed_def by code_simp+

lemma whitespace_lower [simp]: "is_whitespace (lower_char c) = is_whitespace c"
proof -
  have e: "d = c' \<longleftrightarrow> (of_char d :: nat) = of_char c'" for d c' by simp
  have ws: "is_whitespace d \<longleftrightarrow> (of_char d :: nat) \<in> {32, 9, 10, 11, 12, 13}" for d
    unfolding is_whitespace_def e by simp
  show ?thesis by (auto simp: ws of_char_lower Let_def)
qed

lemma lower_fixed: "lower_char c = d \<Longrightarrow> (of_char d :: nat) < 65 \<Longrightarrow> c = d"
  by (auto simp: lower_char_def Let_def split: if_splits)

lemma set_lower: "(of_char d :: nat) < 65 \<Longrightarrow> d \<in> set (to_lower s) \<longleftrightarrow> d \<in> set s"
proof -
  assume d: "(of_char d :: nat) < 65"
  then have "lower_char d = d" by (simp add: lower_char_def Let_def)
  then show ?thesis using lower_fixed [OF _ d] by (force simp: to_lower_def)
qed

lemma trimmed_lower [simp]: "trimmed (to_lower s) = trimmed s"
  by (auto simp: trimmed_def to_lower_def hd_map last_map)

lemma lower_upper [simp]: "lower_char (upper_char c) = lower_char c"
  by (auto simp: lower_char_def upper_char_def Let_def)

lemma lower_capitalize_word [simp]: "to_lower (capitalize_word w) = to_lower w"
  by (simp add: capitalize_word_def to_lower_def split: list.split)

lemma lower_join: "to_lower (join sep xs) = join (to_lower sep) (map to_lower xs)"
  by (induction sep xs rule: join.induct) (auto simp: to_lower_def)

lemma lower_capitalize: "to_lower (capitalize_header k) = to_lower k"
proof -
  have n: "to_lower ''Call-ID'' = ''call-id''" "to_lower ''CSeq'' = ''cseq''" "to_lower ''WWW-Authenticate'' = ''www-authenticate''"
    "to_lower ''Content-Type'' = ''content-type''" "to_lower ''Content-Length'' = ''content-length''" "to_lower ''User-Agent'' = ''user-agent''"
    "to_lower ''call-id'' = ''call-id''" "to_lower ''cseq'' = ''cseq''" "to_lower ''www-authenticate'' = ''www-authenticate''"
    "to_lower ''content-type'' = ''content-type''" "to_lower ''content-length'' = ''content-length''" "to_lower ''user-agent'' = ''user-agent''"
    by code_simp+
  have "to_lower (join ''-'' (map capitalize_word (split_on (CHR ''-'') k))) = to_lower (join ''-'' (split_on (CHR ''-'') k))"
    by (simp add: lower_join comp_def)
  then show ?thesis using n by (simp add: capitalize_header_def join_split_on)
qed

lemma wf_key_normalize:
  assumes "CHR '':'' \<notin> set s" "lf \<notin> set s"
  shows "wf_key (normalize_header_name s)"
proof -
  have t: "set (trim s) \<subseteq> set s" by (metis set_dropWhileD set_rev subsetI trim_def trim_end_def trim_start_def)
  have "CHR '':'' \<notin> set (to_lower (trim s))" "lf \<notin> set (to_lower (trim s))"
    using assms t set_lower [of "CHR '':''"] set_lower [of lf] by auto
  then show ?thesis using wf_key_names
    by (simp add: normalize_header_name_def Let_def) (simp add: wf_key_def trimmed_trim)
qed

definition keys_wf :: "(string, string list) hmap \<Rightarrow> bool" where
  "keys_wf hs = (hm_wf hs \<and> (\<forall>k. hm_get hs k \<noteq> None \<longrightarrow> wf_key k))"

lemma keys_wf_Nil [simp]: "keys_wf []"
  by (simp add: keys_wf_def)

lemma keys_wf_put: "keys_wf hs \<Longrightarrow> wf_key n \<Longrightarrow> keys_wf (hm_put n v hs)"
  by (simp add: keys_wf_def hm.get_put hm.wf_put)

lemma parse_line_keys:
  assumes "lf \<notin> set line" "keys_wf (ps_headers st)"
  shows "keys_wf (ps_headers (parse_line line st))"
proof -
  have k: "keys_wf (push_header (normalize_header_name (take i line)) v (ps_headers st))" if "find_char (CHR '':'') line = Some i" for i v
  proof -
    have "wf_key (normalize_header_name (take i line))"
      using find_char_SomeD [OF that] assms(1) by (intro wf_key_normalize) (auto dest: in_set_takeD)
    then show ?thesis unfolding push_header_def by (rule keys_wf_put [OF assms(2)])
  qed
  have d: "keys_wf (hm_put key vs (ps_headers st))" if "hm_get (ps_headers st) key = Some vals" for key vals vs
    using assms(2) that by (intro keys_wf_put) (simp_all add: keys_wf_def)
  show ?thesis using assms(2) k d by (auto simp: parse_line_def Let_def split: option.splits)
qed

lemma parse_keys: "parse raw = Ok msg \<Longrightarrow> keys_wf (m_headers msg)"
proof -
  have *: "(\<forall>l \<in> set ls. lf \<notin> set l) \<Longrightarrow> keys_wf (ps_headers st) \<Longrightarrow> keys_wf (ps_headers (fold parse_line ls st))"
    for ls st by (induction ls arbitrary: st) (auto intro: parse_line_keys)
  assume "parse raw = Ok msg"
  then obtain l ls where ls: "lines raw = l # ls" and
    "m_headers msg = ps_headers (fold parse_line ls
       \<lparr>ps_headers = [], ps_in_headers = True, ps_body_lines = [], ps_last_key = None\<rparr>)"
    by (auto simp: parse_def Let_def split: list.splits if_splits)
  moreover have "\<forall>x \<in> set ls. lf \<notin> set x" using lines_no_lf [of _ raw] ls by simp
  ultimately show ?thesis using * by simp
qed

text \<open>A name that is copied is read back as the same key.\<close>

lemma normalize_capitalize: "wf_key k \<Longrightarrow> normalize_header_name (capitalize_header k) = k"
proof -
  assume k: "wf_key k"
  then have "trim (capitalize_header k) = capitalize_header k"
    using trimmed_lower [of "capitalize_header k"] by (simp add: wf_key_def lower_capitalize trim_trimmed)
  then show ?thesis using k by (simp add: normalize_header_name_def Let_def lower_capitalize wf_key_def)
qed

lemma capitalize_wf: "wf_key k \<Longrightarrow> k \<noteq> [] \<Longrightarrow> lf \<notin> set v \<Longrightarrow> wf_header (capitalize_header k, v)"
proof -
  assume k: "wf_key k" "k \<noteq> []" "lf \<notin> set v"
  let ?c = "capitalize_header k"
  have l: "to_lower ?c = k" using k(1) by (simp add: lower_capitalize wf_key_def)
  then have "?c \<noteq> []" using k(2) by auto
  moreover have "trimmed ?c" using k(1) trimmed_lower [of ?c] by (simp add: l wf_key_def)
  moreover have "CHR '':'' \<notin> set ?c" "lf \<notin> set ?c"
    using set_lower [of "CHR '':''" ?c] set_lower [of lf ?c] k(1) by (simp_all add: l wf_key_def)
  ultimately show ?thesis using k(3) by (auto simp: wf_header_def trimmed_def is_whitespace_def)
qed

lemma copied_values:
  assumes "keys_wf hs"
  shows "values_of (copied_headers skipped hs) k = (if k \<in> set skipped then [] else header_values hs k)"
proof -
  have w: "hm_wf hs" "\<And>k' vs. (k', vs) \<in> set hs \<Longrightarrow> wf_key k'"
    using assms by (force simp: keys_wf_def dest: weak_map_of_SomeI)+
  then show ?thesis
  proof (induction hs)
    case (Cons h hs)
    obtain n vs where h: "h = (n, vs)" by force
    have n: "normalize_header_name (capitalize_header n) = n" using Cons.prems(2) h by (intro normalize_capitalize) auto
    have "hm_get hs n = None" using Cons.prems(1) h by (simp add: map_of_eq_None_iff)
    moreover have "values_of (copied_headers skipped hs) k = (if k \<in> set skipped then [] else header_values hs k)"
      by (rule Cons.IH) (use Cons.prems in auto)
    ultimately show ?case using h n by (auto simp: copied_headers_def header_values_def)
  qed (simp add: copied_headers_def header_values_def)
qed

lemma copied_wf:
  assumes "keys_wf hs" "lf_free hs" "hm_get hs [] = None" "h \<in> set (copied_headers skipped hs)"
  shows "wf_header h"
proof -
  obtain n vs v where n: "(n, vs) \<in> set hs" "v \<in> set vs" "h = (capitalize_header n, v)"
    using assms(4) by (auto simp: copied_headers_def split: if_splits)
  then have g: "hm_get hs n = Some vs" using assms(1) by (simp add: keys_wf_def)
  then have "wf_key n" "n \<noteq> []" "lf \<notin> set v" using assms(1-3) n(2) by (auto simp: keys_wf_def lf_free_def)
  then show ?thesis unfolding n(3) by (rule capitalize_wf)
qed

section \<open>What is forwarded parses back\<close>

abbreviation plain_uri :: "string \<Rightarrow> bool" where
  "plain_uri u \<equiv> CHR '' '' \<notin> set u \<and> lf \<notin> set u"

lemma request_line_parts:
  assumes "CHR '' '' \<notin> set meth" "CHR '' '' \<notin> set uri"
  shows "splitn 3 (CHR '' '') (meth @ '' '' @ uri @ '' SIP/2.0'') = [meth, uri, ''SIP/2.0'']"
  using splitn2 [of "CHR '' ''" meth 1 "uri @ '' SIP/2.0''"] splitn2 [of "CHR '' ''" uri 0 "''SIP/2.0''"] assms
  by (simp add: numeral_3_eq_3)

lemma parse_request:
  assumes "CHR '' '' \<notin> set meth" "lf \<notin> set meth" "meth \<noteq> []" "hd meth \<noteq> CHR ''S''" "plain_uri uri" "\<forall>h \<in> set hs. wf_header h"
  obtains fwd where "parse (meth @ '' '' @ uri @ '' SIP/2.0'' @ crlf @ header_text hs @ ''Content-Length: '' @ show_nat n @ crlf @ crlf @ body) = Ok fwd"
    "m_method fwd = Some meth" "m_request_uri fwd = Some uri" "m_body fwd = join crlf (lines body)"
    "\<And>name. all_headers_vec fwd name = map trim (values_of (hs @ [(''Content-Length'', show_nat n)]) (normalize_header_name name))"
proof -
  let ?first = "meth @ '' '' @ uri @ '' SIP/2.0''" and ?hs = "hs @ [(''Content-Length'', show_nat n)]"
  have r: "meth @ '' '' @ uri @ '' SIP/2.0'' @ crlf @ header_text hs @ ''Content-Length: '' @ show_nat n @ crlf @ crlf @ body = render ?first ?hs body"
    by (simp add: render_def header_text_def)
  have "\<not> prefix ''SIP/2.0'' ?first" using assms(3,4) by (cases meth) auto
  moreover have "lf \<notin> set ?first" "CHR '' '' \<in> set ?first" using assms by auto
  moreover have "\<forall>h \<in> set ?hs. wf_header h" using assms(6) by (auto simp: wf_header_def str_simps)
  ultimately show thesis
    using parse_render [of ?first ?hs body] request_line_parts [OF assms(1), of uri] assms(5) that unfolding r
    by (metis nth_Cons_0 nth_Cons_Suc One_nat_def)
qed

lemma via_line_trimmed: "trim (via_line md5 domain c) = via_line md5 domain c"
  by (intro trim_trimmed) (simp add: trimmed_def via_line_def is_whitespace_def)

lemma normalize_proxy_names [simp]:
  "normalize_header_name ''Max-Forwards'' = ''max-forwards''" "normalize_header_name ''Record-Route'' = ''record-route''"
  "normalize_header_name ''max-forwards'' = ''max-forwards''" "normalize_header_name ''record-route'' = ''record-route''"
  by code_simp+

lemma forwarded_headers_wf:
  assumes "parse raw = Ok msg" "hm_get (m_headers msg) [] = None" "lf \<notin> set domain" "lf \<notin> set (md5 c)" "\<forall>h \<in> set extra. wf_header h"
    and "h \<in> set ((''Via'', via_line md5 domain c) # map (Pair ''Via'') (via_headers msg) @ extra @ copied_headers skipped (m_headers msg))"
  shows "wf_header h"
proof -
  have "lf \<notin> set (via_line md5 domain c)" using assms(3,4) by (auto simp: via_line_def proxy_via_branch_def dest: in_set_takeD)
  moreover have "lf \<notin> set v" if "v \<in> set (via_headers msg)" for v
    using lf_free_headers(1) [OF parse_lf_free [OF assms(1)]] that by (simp add: via_headers_def)
  moreover have "wf_header (''Via'', v)" if "lf \<notin> set v" for v using that by (simp add: wf_header_def)
  ultimately show ?thesis
    using assms(5,6) copied_wf [OF parse_keys [OF assms(1)] parse_lf_free [OF assms(1)] assms(2)] by (cases h) auto
qed

lemma extra_wf:
  "wf_header (''Max-Forwards'', show_uint n)" "lf \<notin> set u \<Longrightarrow> wf_header (''Record-Route'', ''<sip:'' @ u @ '';lr>'')"
  "lf \<notin> set v \<Longrightarrow> wf_header (''CSeq'', v)"
  by (auto simp: wf_header_def show_uint_def str_simps)

lemma record_route_trimmed: "trim (''<sip:'' @ u @ '';lr>'') = ''<sip:'' @ u @ '';lr>''"
  by (intro trim_trimmed) (simp add: trimmed_def is_whitespace_def)

lemma forwarded_request:
  assumes "parse raw = Ok msg" "hm_get (m_headers msg) [] = None" "plain_uri target_uri" "lf \<notin> set sip_domain" "lf \<notin> set (md5 c)"
    and "\<forall>h \<in> set extra. wf_header h" "CHR '' '' \<notin> set meth" "lf \<notin> set meth" "meth \<noteq> []" "hd meth \<noteq> CHR ''S''"
  obtains fwd where "parse (meth @ '' '' @ target_uri @ '' SIP/2.0'' @ crlf @
      header_text ((''Via'', via_line md5 sip_domain c) # map (Pair ''Via'') (via_headers msg) @ extra @ copied_headers skipped (m_headers msg)) @
      ''Content-Length: '' @ show_nat n @ crlf @ crlf @ body) = Ok fwd"
    "m_method fwd = Some meth" "m_request_uri fwd = Some target_uri" "m_body fwd = join crlf (lines body)"
    "\<And>name. let k = normalize_header_name name in all_headers_vec fwd name =
       (if k = ''via'' then via_line md5 sip_domain c # map trim (via_headers msg) else []) @ map trim (values_of extra k) @
       (if k \<in> set skipped then [] else map trim (all_headers_vec msg name)) @ (if k = ''content-length'' then [show_nat n] else [])"
proof -
  let ?hs = "(''Via'', via_line md5 sip_domain c) # map (Pair ''Via'') (via_headers msg) @ extra @ copied_headers skipped (m_headers msg)"
  have "\<forall>h \<in> set ?hs. wf_header h" using forwarded_headers_wf [of raw msg sip_domain md5 c, OF assms(1,2,4-6)] by blast
  then obtain fwd where fwd: "parse (meth @ '' '' @ target_uri @ '' SIP/2.0'' @ crlf @ header_text ?hs @ ''Content-Length: '' @
        show_nat n @ crlf @ crlf @ body) = Ok fwd"
      "m_method fwd = Some meth" "m_request_uri fwd = Some target_uri" "m_body fwd = join crlf (lines body)"
      and vals: "\<And>name. all_headers_vec fwd name =
         map trim (values_of (?hs @ [(''Content-Length'', show_nat n)]) (normalize_header_name name))"
    using parse_request [OF assms(7-10,3)] by metis
  have "trim (show_nat n) = show_nat n" by (rule trim_trimmed [OF show_radix_trimmed]) simp_all
  then have "let k = normalize_header_name name in all_headers_vec fwd name =
       (if k = ''via'' then via_line md5 sip_domain c # map trim (via_headers msg) else []) @ map trim (values_of extra k) @
       (if k \<in> set skipped then [] else map trim (all_headers_vec msg name)) @ (if k = ''content-length'' then [show_nat n] else [])" for name
    unfolding vals
    by (simp add: Let_def copied_values [OF parse_keys [OF assms(1)]] all_headers_vec_def header_values_def via_line_trimmed)
  then show thesis by (rule that [OF fwd])
qed


lemma split_whitespace_chars: "t \<in> set (split_whitespace s) \<Longrightarrow> set t \<subseteq> set s"
proof -
  have "t \<in> set (split_whitespace_aux acc s) \<Longrightarrow> set t \<subseteq> set acc \<union> set s" for acc
    by (induction acc s rule: split_whitespace_aux.induct) (auto split: if_splits)
  from this [of "[]"] show "t \<in> set (split_whitespace s) \<Longrightarrow> set t \<subseteq> set s" by (simp add: split_whitespace_def)
qed

lemma cancel_cseq_lf_free:
  assumes "parse raw = Ok msg"
  shows "lf \<notin> set (cancel_cseq_value (cseq msg))"
proof -
  have "lf \<notin> set v" if "cseq msg = Some v" for v
    using lf_free_headers(2) [OF parse_lf_free [OF assms]] that by (auto simp: cseq_def)
  then have "lf \<notin> set n" if "cseq msg = Some v" "n \<in> set (split_whitespace v)" for v n
    using split_whitespace_chars [OF that(2)] that(1) by auto
  then show ?thesis by (auto simp: cancel_cseq_value_def split: option.split list.split)
qed

definition token :: "string \<Rightarrow> bool" where
  "token t = (t \<noteq> [] \<and> (\<forall>c \<in> set t. \<not> is_whitespace c))"

lemma split_whitespace_aux_tokens:
  "acc = [] \<or> token acc \<Longrightarrow> list_all token (split_whitespace_aux acc s)"
  by (induction acc s rule: split_whitespace_aux.induct) (auto simp: token_def)

lemma split_whitespace_tokens: "t \<in> set (split_whitespace s) \<Longrightarrow> token t"
  using split_whitespace_aux_tokens [of "[]" s] by (simp add: split_whitespace_def list_all_iff)

lemma cancel_cseq_trimmed: "trim (cancel_cseq_value cs) = cancel_cseq_value cs"
proof -
  define n where "n = (case cs of None \<Rightarrow> ''1'' | Some v \<Rightarrow> (case split_whitespace v of [] \<Rightarrow> ''1'' | n # _ \<Rightarrow> n))"
  have "token ''1''" by (simp add: token_def is_whitespace_def)
  moreover have "token t" if "split_whitespace v = t # ts" for v t ts using split_whitespace_tokens [of t v] that by simp
  ultimately have "token n" by (auto simp: n_def split: option.split list.split)
  then have "trimmed (n @ '' CANCEL'')" by (cases n) (auto simp: token_def trimmed_def is_whitespace_def)
  then show ?thesis by (simp add: cancel_cseq_value_def n_def [symmetric] trim_trimmed)
qed

lemma forwarded_invite:
  fixes new_body :: "string option"
  assumes "parse raw = Ok msg" "hm_get (m_headers msg) [] = None" "plain_uri target_uri" "lf \<notin> set sip_domain" "\<And>s. lf \<notin> set (md5 s)"
  defines "c \<equiv> case call_id msg of None \<Rightarrow> [] | Some c \<Rightarrow> c" and "body \<equiv> case new_body of None \<Rightarrow> m_body msg | Some b \<Rightarrow> b"
  obtains fwd where "parse (build_forwarded_invite_for_target md5 msg target_uri max_fwd sip_domain new_body) = Ok fwd"
    "m_method fwd = Some ''INVITE''" "m_request_uri fwd = Some target_uri" "m_body fwd = join crlf (lines body)"
    "via_headers fwd = via_line md5 sip_domain c # map trim (via_headers msg)"
    "all_headers_vec fwd ''max-forwards'' = [show_uint max_fwd]"
    "all_headers_vec fwd ''record-route'' = [''<sip:'' @ sip_domain @ '';lr>'']"
    "all_headers_vec fwd ''content-length'' = [show_nat (length body)]"
    "\<And>name. normalize_header_name name \<notin> set [''via'', ''max-forwards'', ''content-length'', ''record-route''] \<Longrightarrow>
       all_headers_vec fwd name = map trim (all_headers_vec msg name)"
proof -
  let ?extra = "[(''Max-Forwards'', show_uint max_fwd), (''Record-Route'', ''<sip:'' @ sip_domain @ '';lr>'')]"
  have "\<forall>h \<in> set ?extra. wf_header h" using extra_wf(1,2) assms(4) by simp
  from forwarded_request [of raw msg target_uri sip_domain md5 c, OF assms(1-5) this,
      of "''INVITE''" "[''via'', ''max-forwards'', ''content-length'', ''record-route'']" "length body" body]
  obtain fwd where fwd: "parse (build_forwarded_invite_for_target md5 msg target_uri max_fwd sip_domain new_body) = Ok fwd"
    "m_method fwd = Some ''INVITE''" "m_request_uri fwd = Some target_uri" "m_body fwd = join crlf (lines body)"
    and vals: "\<And>name. let k = normalize_header_name name in all_headers_vec fwd name =
       (if k = ''via'' then via_line md5 sip_domain c # map trim (via_headers msg) else []) @ map trim (values_of ?extra k) @
       (if k \<in> set [''via'', ''max-forwards'', ''content-length'', ''record-route''] then [] else map trim (all_headers_vec msg name)) @
       (if k = ''content-length'' then [show_nat (length body)] else [])"
    by (auto simp: build_forwarded_invite_for_target_def Let_def c_def body_def)
  have t: "trim (show_uint max_fwd) = show_uint max_fwd" "trim (''<sip:'' @ sip_domain @ '';lr>'') = ''<sip:'' @ sip_domain @ '';lr>''"
    by (simp_all add: show_uint_def trim_trimmed [OF show_radix_trimmed] record_route_trimmed del: append_Cons)
  show thesis
    by (rule that [OF fwd])
      (use vals [unfolded Let_def] t in \<open>force simp: via_headers_def simp del: append_Cons\<close>)+
qed

lemma forwarded_cancel:
  assumes "parse raw = Ok msg" "hm_get (m_headers msg) [] = None" "plain_uri target_uri" "lf \<notin> set sip_domain" "\<And>s. lf \<notin> set (md5 s)"
  defines "c \<equiv> case call_id msg of None \<Rightarrow> [] | Some c \<Rightarrow> c"
  obtains fwd where "parse (build_forwarded_cancel_for_target md5 msg target_uri max_fwd sip_domain) = Ok fwd"
    "m_method fwd = Some ''CANCEL''" "m_request_uri fwd = Some target_uri" "m_body fwd = []"
    "via_headers fwd = via_line md5 sip_domain c # map trim (via_headers msg)"
    "all_headers_vec fwd ''cseq'' = [cancel_cseq_value (cseq msg)]"
    "\<And>name. normalize_header_name name \<notin> set [''via'', ''max-forwards'', ''cseq'', ''content-length''] \<Longrightarrow>
       all_headers_vec fwd name = map trim (all_headers_vec msg name)"
proof -
  let ?extra = "[(''Max-Forwards'', show_uint max_fwd), (''CSeq'', cancel_cseq_value (cseq msg))]"
  have "\<forall>h \<in> set ?extra. wf_header h" using extra_wf(1,3) cancel_cseq_lf_free [OF assms(1)] by simp
  have zero: "show_nat 0 = ''0''" by code_simp
  from forwarded_request [of raw msg target_uri sip_domain md5 c, OF assms(1-5) \<open>\<forall>h \<in> set ?extra. wf_header h\<close>,
      of "''CANCEL''" "[''via'', ''max-forwards'', ''cseq'', ''content-length'']" 0 "[]"]
  obtain fwd where fwd: "parse (build_forwarded_cancel_for_target md5 msg target_uri max_fwd sip_domain) = Ok fwd"
    "m_method fwd = Some ''CANCEL''" "m_request_uri fwd = Some target_uri" "m_body fwd = []"
    and vals: "\<And>name. let k = normalize_header_name name in all_headers_vec fwd name =
       (if k = ''via'' then via_line md5 sip_domain c # map trim (via_headers msg) else []) @ map trim (values_of ?extra k) @
       (if k \<in> set [''via'', ''max-forwards'', ''cseq'', ''content-length''] then [] else map trim (all_headers_vec msg name)) @
       (if k = ''content-length'' then [show_nat 0] else [])"
    by (auto simp: build_forwarded_cancel_for_target_def Let_def c_def zero)
  show thesis
    by (rule that [OF fwd])
      (use vals [unfolded Let_def] cancel_cseq_trimmed in \<open>force simp: via_headers_def\<close>)+
qed

text \<open>
  C39: The INVITE that is forwarded is read back by the parser as the received
  request with the target's URI, the server's own Via on top of the Via stack, the
  new Max-Forwards, the server's Record-Route, the new body and its length, and
  with every other header field unchanged up to surrounding white space.
\<close>

theorem forwarded_invite_parses_back:
  assumes "parse raw = Ok msg" "hm_get (m_headers msg) [] = None" "plain_uri target_uri" "lf \<notin> set sip_domain" "\<And>s. lf \<notin> set (md5 s)"
  shows "\<exists>fwd. parse (build_forwarded_invite_for_target md5 msg target_uri max_fwd sip_domain new_body) = Ok fwd \<and>
    m_method fwd = Some ''INVITE'' \<and> m_request_uri fwd = Some target_uri \<and>
    via_headers fwd = via_line md5 sip_domain (case call_id msg of None \<Rightarrow> [] | Some c \<Rightarrow> c) # map trim (via_headers msg) \<and>
    all_headers_vec fwd ''max-forwards'' = [show_uint max_fwd] \<and>
    all_headers_vec fwd ''record-route'' = [''<sip:'' @ sip_domain @ '';lr>''] \<and>
    all_headers_vec fwd ''content-length'' = [show_nat (length (case new_body of None \<Rightarrow> m_body msg | Some b \<Rightarrow> b))] \<and>
    m_body fwd = join crlf (lines (case new_body of None \<Rightarrow> m_body msg | Some b \<Rightarrow> b)) \<and>
    (\<forall>name. normalize_header_name name \<notin> set [''via'', ''max-forwards'', ''content-length'', ''record-route''] \<longrightarrow>
       all_headers_vec fwd name = map trim (all_headers_vec msg name))"
  by (rule forwarded_invite [where ?md5.0 = md5 and new_body = new_body and max_fwd = max_fwd, OF assms], intro exI conjI allI impI) (assumption | blast)+


definition example_invite_text :: string where
  "example_invite_text = render ''INVITE sip:1002@pbx SIP/2.0''
     [(''Via'', ''SIP/2.0/UDP 10.0.0.1;branch=z9hG4bKa''), (''From'', ''<sip:1001@pbx>;tag=a''), (''To'', ''<sip:1002@pbx>''),
      (''Call-ID'', ''c1''), (''CSeq'', ''7 INVITE'')] []"

definition example_cancel_text :: string where
  "example_cancel_text = render ''CANCEL sip:1002@pbx SIP/2.0''
     [(''Via'', ''SIP/2.0/UDP 10.0.0.1;branch=z9hG4bKa''), (''From'', ''<sip:1001@pbx>;tag=a''), (''To'', ''<sip:1002@pbx>''),
      (''Call-ID'', ''c1''), (''CSeq'', ''7 CANCEL'')] []"

definition parsed :: "string \<Rightarrow> sip_message" where
  "parsed raw = (case parse raw of Ok m \<Rightarrow> m | _ \<Rightarrow> undefined)"

lemma example_texts_parse:
  "parse example_invite_text = Ok (parsed example_invite_text)" "hm_get (m_headers (parsed example_invite_text)) [] = None"
  "parse example_cancel_text = Ok (parsed example_cancel_text)" "hm_get (m_headers (parsed example_cancel_text)) [] = None"
  "call_id (parsed example_invite_text) = Some ''c1''" "call_id (parsed example_cancel_text) = Some ''c1''"
  "cseq (parsed example_cancel_text) = Some ''7 CANCEL''"
  by code_simp+

theorem forwarded_invite_parses_back_witness:
  "\<exists>fwd. parse (build_forwarded_invite_for_target (\<lambda>_. replicate 32 (CHR ''0'')) (parsed example_invite_text) ''sip:1002@10.0.0.2'' 69 ''pbx'' None) = Ok fwd \<and>
     m_request_uri fwd = Some ''sip:1002@10.0.0.2'' \<and> all_headers_vec fwd ''record-route'' = [''<sip:pbx;lr>''] \<and> m_body fwd = []"
proof -
  have "m_body (parsed example_invite_text) = []" by code_simp
  then show ?thesis
    using forwarded_invite_parses_back [OF example_texts_parse(1,2), of "''sip:1002@10.0.0.2''" "''pbx''" "\<lambda>_. replicate 32 (CHR ''0'')" 69 None]
    by auto
qed


end
