(* ===== verification/Conference_Media.thy ===== *)
theory Conference_Media
  imports Rtp Port_Alloc Sdp_Negotiation Voicemail_Storage
begin

text \<open>
  The mixer of conference rooms, \<open>conference_media.rs\<close>: participants with their sockets, the receive
  task of each, the 20 ms mixer of each room, and muting by the DTMF sequence \<open>*6\<close>. A participant is
  shared between its room and its receive task, so participants live in a store of their own under an
  identity; a room holds identities. The random numbers drawn for a participant, the clock and the
  locks a tick finds taken are arguments. Sums of samples are integers: a room has at most 65535
  participants, one per port, so the 32-bit accumulator of the source does not overflow.
\<close>

section \<open>Definitions\<close>

definition CONF_RTP_BUF_SIZE :: nat where "CONF_RTP_BUF_SIZE = 4096"

text \<open>Three seconds, in nanoseconds.\<close>

definition STAR6_TIMEOUT :: nat where "STAR6_TIMEOUT = 3 * 10 ^ 9"

definition MAX_RECORDING_SAMPLES :: nat where "MAX_RECORDING_SAMPLES = 8000 * 60 * 30"

record dtmf_state =
  ds_last_digit :: "(u8 \<times> nat) option"
  ds_last_event_ts :: "u32 option"

record participant =
  cp_call_id :: string
  cp_relay_port :: u16
  cp_codec :: conference_codec
  cp_audio_pt :: u8
  cp_telephone_event_pt :: "u8 option"
  cp_muted :: bool
  cp_peer :: "socket_addr option"
  cp_latest_frame :: "i16 list"
  cp_out_seq :: u16
  cp_out_ts :: u32
  cp_out_ssrc :: u32
  cp_dtmf :: dtmf_state
  cp_recv_task :: bool

record room =
  rm_participants :: "(string, nat) hmap"
  rm_mixer_task :: bool
  rm_mixer_runs :: bool
  rm_recorder :: "i16 list option"

record conference_media =
  cm_rooms :: "(u64, room) hmap"
  cm_public_ip :: string
  cm_port_min :: u16
  cm_port_max :: u16
  cm_port_counter :: u32
  cm_parts :: "(nat, participant) hmap"
  cm_next :: nat

definition conference_media_new :: "string \<Rightarrow> u16 \<Rightarrow> u16 \<Rightarrow> conference_media" where
  "conference_media_new public_ip port_min port_max =
     \<lparr>cm_rooms = [], cm_public_ip = public_ip, cm_port_min = port_min, cm_port_max = port_max,
      cm_port_counter = 0, cm_parts = [], cm_next = 0\<rparr>"

definition snapshot_frame :: "bool \<Rightarrow> participant \<Rightarrow> i16 list option" where
  "snapshot_frame locked p = (if locked \<or> cp_latest_frame p = [] then None else Some (cp_latest_frame p))"

definition record_dtmf :: "nat \<Rightarrow> u8 \<Rightarrow> participant \<Rightarrow> bool option \<times> participant" where
  "record_dtmf now event p =
     (let prev = ds_last_digit (cp_dtmf p);
          p = p\<lparr>cp_dtmf := (cp_dtmf p)\<lparr>ds_last_digit := Some (event, now)\<rparr>\<rparr>;
          prev_was_star_recent = (case prev of Some (d, t) \<Rightarrow> d = 10 \<and> now - t < STAR6_TIMEOUT | None \<Rightarrow> False)
      in if prev_was_star_recent \<and> event = 6
         then (Some (\<not> cp_muted p),
               p\<lparr>cp_dtmf := (cp_dtmf p)\<lparr>ds_last_digit := None\<rparr>, cp_muted := \<not> cp_muted p\<rparr>)
         else (None, p))"

text \<open>The ports whose sockets exist: of participants in a room or with a running receive task.\<close>

definition room_ids :: "conference_media \<Rightarrow> nat list" where
  "room_ids s = concat (map (\<lambda>(k, r). map snd (rm_participants r)) (cm_rooms s))"

definition conf_bound_ports :: "conference_media \<Rightarrow> u16 list" where
  "conf_bound_ports s =
     map (\<lambda>(i, p). cp_relay_port p) (filter (\<lambda>(i, p). cp_recv_task p \<or> i \<in> set (room_ids s)) (cm_parts s))"

definition empty_room :: room where
  "empty_room = \<lparr>rm_participants = [], rm_mixer_task = False, rm_mixer_runs = False, rm_recorder = None\<rparr>"

definition join_room ::
  "(u16 \<Rightarrow> bool) \<Rightarrow> u16 \<times> u32 \<times> u32 \<Rightarrow> u64 \<Rightarrow> string \<Rightarrow> conference_codec \<Rightarrow> u8 \<Rightarrow> u8 option \<Rightarrow> conference_media
    \<Rightarrow> (string, u16) outcome \<times> conference_media" where
  "join_room os rnd room_id cid codec audio_pt te s =
     (case conf_bind_socket (cm_port_min s) (cm_port_max s) (cm_port_counter s) (\<lambda>p. os p \<and> p \<notin> set (conf_bound_ports s)) of
        (Ok port, n) \<Rightarrow>
          (let (seq, ts, ssrc) = rnd;
               p = \<lparr>cp_call_id = cid, cp_relay_port = port, cp_codec = codec, cp_audio_pt = audio_pt,
                    cp_telephone_event_pt = te, cp_muted = False, cp_peer = None, cp_latest_frame = [],
                    cp_out_seq = seq, cp_out_ts = ts, cp_out_ssrc = ssrc,
                    cp_dtmf = \<lparr>ds_last_digit = None, ds_last_event_ts = None\<rparr>, cp_recv_task = True\<rparr>;
               room = (case hm_get (cm_rooms s) room_id of Some r \<Rightarrow> r | None \<Rightarrow> empty_room);
               room = room\<lparr>rm_participants := hm_put cid (cm_next s) (rm_participants room)\<rparr>;
               room = (if rm_mixer_task room then room else room\<lparr>rm_mixer_task := True, rm_mixer_runs := True\<rparr>)
           in (Ok port, s\<lparr>cm_port_counter := n, cm_parts := hm_put (cm_next s) p (cm_parts s),
                 cm_next := Suc (cm_next s), cm_rooms := hm_put room_id room (cm_rooms s)\<rparr>))
      | (Err e, n) \<Rightarrow> (Err e, s\<lparr>cm_port_counter := n\<rparr>)
      | (Panic, n) \<Rightarrow> (Panic, s\<lparr>cm_port_counter := n\<rparr>))"

definition stop_recv :: "nat \<Rightarrow> conference_media \<Rightarrow> conference_media" where
  "stop_recv i s = s\<lparr>cm_parts := hm_adjust i (\<lambda>p. p\<lparr>cp_recv_task := False\<rparr>) (cm_parts s)\<rparr>"

definition leave_room :: "u64 \<Rightarrow> string \<Rightarrow> conference_media \<Rightarrow> conference_media" where
  "leave_room room_id cid s =
     (case hm_get (cm_rooms s) room_id of
        None \<Rightarrow> s
      | Some room \<Rightarrow>
          (let s = (case hm_get (rm_participants room) cid of None \<Rightarrow> s | Some i \<Rightarrow> stop_recv i s);
               room = room\<lparr>rm_participants := hm_del cid (rm_participants room)\<rparr>
           in if rm_participants room = [] then s\<lparr>cm_rooms := hm_del room_id (cm_rooms s)\<rparr>
              else s\<lparr>cm_rooms := hm_put room_id room (cm_rooms s)\<rparr>))"

text \<open>The WAV bytes and the length in seconds; the inner \<open>None\<close> is a panic of the WAV writer.\<close>

definition flush_recorder :: "u64 \<Rightarrow> conference_media \<Rightarrow> (u8 list option \<times> u32) option \<times> conference_media" where
  "flush_recorder room_id s =
     (case hm_get (cm_rooms s) room_id of
        None \<Rightarrow> (None, s)
      | Some room \<Rightarrow>
          (case rm_recorder room of
             None \<Rightarrow> (None, s)
           | Some samples \<Rightarrow>
               (Some (pcm16_wav_bytes samples 8000, of_nat (length samples) div 8000),
                s\<lparr>cm_rooms := hm_put room_id (room\<lparr>rm_recorder := Some []\<rparr>) (cm_rooms s)\<rparr>)))"

definition part_of :: "u64 \<Rightarrow> string \<Rightarrow> conference_media \<Rightarrow> nat option" where
  "part_of room_id cid s =
     (case hm_get (cm_rooms s) room_id of None \<Rightarrow> None | Some room \<Rightarrow> hm_get (rm_participants room) cid)"

definition set_muted :: "u64 \<Rightarrow> string \<Rightarrow> bool \<Rightarrow> conference_media \<Rightarrow> bool \<times> conference_media" where
  "set_muted room_id cid muted s =
     (case part_of room_id cid s of
        None \<Rightarrow> (False, s)
      | Some i \<Rightarrow> (True, s\<lparr>cm_parts := hm_adjust i (\<lambda>p. p\<lparr>cp_muted := muted\<rparr>) (cm_parts s)\<rparr>))"

definition record_dtmf_for :: "nat \<Rightarrow> u64 \<Rightarrow> string \<Rightarrow> u8 \<Rightarrow> conference_media \<Rightarrow> bool option \<times> conference_media" where
  "record_dtmf_for now room_id cid event s =
     (case part_of room_id cid s of
        None \<Rightarrow> (None, s)
      | Some i \<Rightarrow>
          (case hm_get (cm_parts s) i of
             None \<Rightarrow> (None, s)
           | Some p \<Rightarrow> (fst (record_dtmf now event p),
               s\<lparr>cm_parts := hm_adjust i (\<lambda>p. snd (record_dtmf now event p)) (cm_parts s)\<rparr>)))"

definition participant_count :: "u64 \<Rightarrow> conference_media \<Rightarrow> nat" where
  "participant_count room_id s =
     (case hm_get (cm_rooms s) room_id of None \<Rightarrow> 0 | Some room \<Rightarrow> length (rm_participants room))"

definition shutdown_all :: "conference_media \<Rightarrow> conference_media" where
  "shutdown_all s = fold stop_recv (room_ids s) (s\<lparr>cm_rooms := []\<rparr>)"

definition handle_dtmf_packet :: "nat \<Rightarrow> u8 list \<Rightarrow> u8 list \<Rightarrow> participant \<Rightarrow> participant" where
  "handle_dtmf_packet now packet payload p =
     (if length payload < 4 then p
      else let event = payload ! 0 AND 0x0F;
               end_marker = (payload ! 1 AND 0x80 \<noteq> 0);
               rtp_ts = from_be32 (packet ! 4) (packet ! 5) (packet ! 6) (packet ! 7);
               already_handled = (ds_last_event_ts (cp_dtmf p) = Some rtp_ts)
           in if \<not> end_marker \<or> already_handled then p
              else snd (record_dtmf now event (p\<lparr>cp_dtmf := (cp_dtmf p)\<lparr>ds_last_event_ts := Some rtp_ts\<rparr>\<rparr>)))"

text \<open>One turn of \<open>run_recv_loop\<close>; \<open>None\<close> is a panic of the task.\<close>

definition recv_packet :: "nat \<Rightarrow> socket_addr \<Rightarrow> u8 list \<Rightarrow> participant \<Rightarrow> participant option" where
  "recv_packet now src datagram p =
     (let packet = take CONF_RTP_BUF_SIZE datagram in
      if length packet < RTP_HEADER_LEN then Some p
      else let p = p\<lparr>cp_peer := Some src\<rparr>;
               pt = packet ! 1 AND 0x7F
           in case rtp_payload_offset packet of
                None \<Rightarrow> None
              | Some payload_offset \<Rightarrow>
                  if length packet \<le> payload_offset then Some p
                  else let payload = drop payload_offset packet in
                    if Some pt = cp_telephone_event_pt p then Some (handle_dtmf_packet now packet payload p)
                    else if pt \<noteq> cp_audio_pt p then Some p
                    else let pcm = (case cp_codec p of ConfPcmu \<Rightarrow> decode_ulaw payload | ConfPcma \<Rightarrow> decode_alaw payload)
                         in if pcm = [] then Some p else Some (p\<lparr>cp_latest_frame := fit_frame pcm\<rparr>))"

definition receive_on :: "nat \<Rightarrow> u16 \<Rightarrow> socket_addr \<Rightarrow> u8 list \<Rightarrow> conference_media \<Rightarrow> conference_media" where
  "receive_on now port src datagram s =
     (case find (\<lambda>(i, p). cp_recv_task p \<and> cp_relay_port p = port) (cm_parts s) of
        None \<Rightarrow> s
      | Some (i, p) \<Rightarrow>
          s\<lparr>cm_parts := hm_adjust i (\<lambda>p. case recv_packet now src datagram p of
               Some p' \<Rightarrow> p' | None \<Rightarrow> p\<lparr>cp_recv_task := False\<rparr>) (cm_parts s)\<rparr>)"

text \<open>\<open>acc.iter_mut().zip(f)\<close> with addition, and the final clamp.\<close>

fun add_frame :: "int list \<Rightarrow> i16 list \<Rightarrow> int list" where
  "add_frame [] f = []"
| "add_frame acc [] = acc"
| "add_frame (a # acc) (s # f) = (a + sint s) # add_frame acc f"

definition clamp16 :: "int \<Rightarrow> i16" where
  "clamp16 v = word_of_int (max (- 32768) (min 32767 v))"

fun mix_acc :: "nat \<Rightarrow> (nat \<times> i16 list option) list \<Rightarrow> int list \<Rightarrow> int list" where
  "mix_acc receiver [] acc = acc"
| "mix_acc receiver ((other, frame) # frames) acc =
     (if other = receiver then mix_acc receiver frames acc
      else (case frame of None \<Rightarrow> mix_acc receiver frames acc
            | Some f \<Rightarrow> mix_acc receiver frames (add_frame acc f)))"

definition mix_for_receiver :: "nat \<Rightarrow> (nat \<times> i16 list option) list \<Rightarrow> i16 list" where
  "mix_for_receiver receiver frames = map clamp16 (mix_acc receiver frames (replicate SAMPLES_PER_FRAME 0))"

definition room_mix :: "(nat \<times> i16 list option) list \<Rightarrow> i16 list option" where
  "room_mix frames =
     (if list_all (\<lambda>(i, f). f = None) frames then None
      else Some (map clamp16 (foldl (\<lambda>acc (i, f). case f of None \<Rightarrow> acc | Some f \<Rightarrow> add_frame acc f)
             (replicate SAMPLES_PER_FRAME 0) frames)))"

text \<open>
  The sends of one tick: the packets with the port they leave from and their destination. The flag
  tells whether the task panicked in the encoder, in a build with overflow checks.
\<close>

fun send_mixes ::
  "bool \<Rightarrow> (nat \<times> i16 list option) list \<Rightarrow> nat list \<Rightarrow> (nat, participant) hmap
    \<Rightarrow> (u16 \<times> socket_addr \<times> u8 list) list \<times> (nat, participant) hmap \<times> bool" where
  "send_mixes checks frames [] parts = ([], parts, False)"
| "send_mixes checks frames (i # ids) parts =
     (case hm_get parts i of
        None \<Rightarrow> send_mixes checks frames ids parts
      | Some p \<Rightarrow>
          (case cp_peer p of
             None \<Rightarrow> send_mixes checks frames ids parts
           | Some peer \<Rightarrow>
               let mixed = mix_for_receiver i frames in
               case (case cp_codec p of ConfPcmu \<Rightarrow> encode_ulaw checks mixed | ConfPcma \<Rightarrow> Some (encode_alaw mixed)) of
                 None \<Rightarrow> ([], parts, True)
               | Some payload \<Rightarrow>
                   let packet = build_rtp_packet (cp_audio_pt p) (cp_out_seq p) (cp_out_ts p) (cp_out_ssrc p) payload;
                       parts = hm_adjust i (\<lambda>p. p\<lparr>cp_out_seq := cp_out_seq p + 1,
                                  cp_out_ts := cp_out_ts p + of_nat SAMPLES_PER_FRAME\<rparr>) parts;
                       (out, parts, panicked) = send_mixes checks frames ids parts
                   in ((cp_relay_port p, peer, packet) # out, parts, panicked)))"

definition tick_frames :: "(nat \<Rightarrow> bool) \<Rightarrow> (nat, participant) hmap \<Rightarrow> nat list \<Rightarrow> (nat \<times> i16 list option) list" where
  "tick_frames locked parts ids =
     map (\<lambda>i. (i, case hm_get parts i of None \<Rightarrow> None
                  | Some p \<Rightarrow> if cp_muted p then None else snapshot_frame (locked i) p)) ids"

definition mixer_tick ::
  "bool \<Rightarrow> (nat \<Rightarrow> bool) \<Rightarrow> u64 \<Rightarrow> conference_media \<Rightarrow> (u16 \<times> socket_addr \<times> u8 list) list \<times> conference_media" where
  "mixer_tick checks locked room_id s =
     (case hm_get (cm_rooms s) room_id of
        None \<Rightarrow> ([], s)
      | Some room \<Rightarrow>
          if \<not> rm_mixer_runs room then ([], s)
          else (let ids = map snd (rm_participants room) in
                if ids = [] then ([], s\<lparr>cm_rooms := hm_put room_id (room\<lparr>rm_mixer_runs := False\<rparr>) (cm_rooms s)\<rparr>)
                else let frames = tick_frames locked (cm_parts s) ids;
                         (out, parts, panicked) = send_mixes checks frames ids (cm_parts s);
                         s = s\<lparr>cm_parts := parts\<rparr>
                     in if panicked
                        then (out, s\<lparr>cm_rooms := hm_put room_id (room\<lparr>rm_mixer_runs := False\<rparr>) (cm_rooms s)\<rparr>)
                        else (case (room_mix frames, rm_recorder room) of
                                (Some mix, Some buf) \<Rightarrow>
                                  if length buf < MAX_RECORDING_SAMPLES
                                  then (out, s\<lparr>cm_rooms := hm_put room_id (room\<lparr>rm_recorder := Some (buf @ mix)\<rparr>) (cm_rooms s)\<rparr>)
                                  else (out, s)
                              | _ \<Rightarrow> (out, s))))"

datatype conf_op =
    Join "u16 \<Rightarrow> bool" "u16 \<times> u32 \<times> u32" u64 string conference_codec u8 "u8 option"
  | Leave u64 string
  | Flush u64
  | SetMuted u64 string bool
  | Dtmf nat u64 string u8
  | Datagram nat u16 socket_addr "u8 list"
  | Tick bool "nat \<Rightarrow> bool" u64
  | Shutdown

fun conf_step :: "conf_op \<Rightarrow> conference_media \<Rightarrow> conference_media" where
  "conf_step (Join os rnd room_id cid codec pt te) s = snd (join_room os rnd room_id cid codec pt te s)"
| "conf_step (Leave room_id cid) s = leave_room room_id cid s"
| "conf_step (Flush room_id) s = snd (flush_recorder room_id s)"
| "conf_step (SetMuted room_id cid m) s = snd (set_muted room_id cid m s)"
| "conf_step (Dtmf now room_id cid event) s = snd (record_dtmf_for now room_id cid event s)"
| "conf_step (Datagram now port src dg) s = receive_on now port src dg s"
| "conf_step (Tick checks locked room_id) s = snd (mixer_tick checks locked room_id s)"
| "conf_step Shutdown s = shutdown_all s"

section \<open>The invariant\<close>

definition in_room :: "conference_media \<Rightarrow> nat \<Rightarrow> bool" where
  "in_room s i = (\<exists>k r c. hm_get (cm_rooms s) k = Some r \<and> hm_get (rm_participants r) c = Some i)"

definition socket_held :: "conference_media \<Rightarrow> nat \<Rightarrow> participant \<Rightarrow> bool" where
  "socket_held s i p = (hm_get (cm_parts s) i = Some p \<and> (cp_recv_task p \<or> in_room s i))"

definition frame_ok :: "participant \<Rightarrow> bool" where
  "frame_ok p = (cp_latest_frame p = [] \<or> length (cp_latest_frame p) = SAMPLES_PER_FRAME)"

definition room_ok :: "conference_media \<Rightarrow> room \<Rightarrow> bool" where
  "room_ok s r = (rm_participants r \<noteq> [] \<and> hm_wf (rm_participants r) \<and> rm_mixer_task r \<and> rm_recorder r = None \<and>
     (\<forall>c i. hm_get (rm_participants r) c = Some i \<longrightarrow> (\<exists>p. hm_get (cm_parts s) i = Some p \<and> cp_call_id p = c)))"

definition conf_wf :: "conference_media \<Rightarrow> bool" where
  "conf_wf s = (hm_wf (cm_rooms s) \<and> hm_wf (cm_parts s) \<and> (\<forall>i \<in> set (map fst (cm_parts s)). i < cm_next s) \<and>
     (\<forall>k r. hm_get (cm_rooms s) k = Some r \<longrightarrow> room_ok s r) \<and>
     (\<forall>i p. hm_get (cm_parts s) i = Some p \<longrightarrow> frame_ok p) \<and>
     (\<forall>i p. socket_held s i p \<longrightarrow> cm_port_min s \<le> cp_relay_port p \<and> cp_relay_port p < cm_port_max s) \<and>
     (\<forall>i j p q. socket_held s i p \<longrightarrow> socket_held s j q \<longrightarrow> cp_relay_port p = cp_relay_port q \<longrightarrow> i = j))"

lemma conf_wf_new: "conf_wf (conference_media_new ip mn mx)"
  by (simp add: conf_wf_def conference_media_new_def socket_held_def)

lemma room_ids_in_room:
  assumes "conf_wf s"
  shows "i \<in> set (room_ids s) \<longleftrightarrow> in_room s i"
proof
  assume "i \<in> set (room_ids s)"
  then obtain k r c where kr: "(k, r) \<in> set (cm_rooms s)" "(c, i) \<in> set (rm_participants r)"
    by (auto simp: room_ids_def)
  then have r: "hm_get (cm_rooms s) k = Some r" using assms by (simp add: conf_wf_def map_of_is_SomeI)
  then have "hm_wf (rm_participants r)" using assms by (auto simp: conf_wf_def room_ok_def simp del: map_of_eq_Some_iff)
  then have "hm_get (rm_participants r) c = Some i" using kr(2) by (simp add: map_of_is_SomeI)
  then show "in_room s i" using r unfolding in_room_def by blast
next
  assume "in_room s i"
  then show "i \<in> set (room_ids s)" by (force simp: in_room_def room_ids_def dest: map_of_SomeD)
qed

lemma conf_bound_held:
  assumes "conf_wf s" "socket_held s i p"
  shows "cp_relay_port p \<in> set (conf_bound_ports s)"
proof -
  have "(i, p) \<in> set (cm_parts s)" using assms(2) by (auto simp: socket_held_def dest: map_of_SomeD)
  moreover have "cp_recv_task p \<or> i \<in> set (room_ids s)"
    using assms room_ids_in_room [OF assms(1), of i] by (auto simp: socket_held_def)
  ultimately show ?thesis by (force simp: conf_bound_ports_def)
qed

text \<open>Operations that change participants in place, without moving them or starting a task.\<close>

lemma conf_wf_parts:
  assumes wf: "conf_wf s" and keys: "map fst parts = map fst (cm_parts s)"
    and ch: "\<And>i p'. hm_get parts i = Some p' \<Longrightarrow> \<exists>p. hm_get (cm_parts s) i = Some p \<and> cp_relay_port p' = cp_relay_port p \<and>
      cp_call_id p' = cp_call_id p \<and> (cp_recv_task p' \<longrightarrow> cp_recv_task p) \<and> frame_ok p'"
  shows "conf_wf (s\<lparr>cm_parts := parts\<rparr>)"
proof -
  let ?s = "s\<lparr>cm_parts := parts\<rparr>"
  have held: "\<exists>p. socket_held s i p \<and> cp_relay_port p' = cp_relay_port p" if "socket_held ?s i p'" for i p'
    using ch [of i p'] that unfolding socket_held_def in_room_def by auto
  have rooms: "room_ok ?s r" if "hm_get (cm_rooms s) k = Some r" for k r
  proof -
    have r: "room_ok s r" using wf that unfolding conf_wf_def by blast
    have "\<exists>p. hm_get parts i = Some p \<and> cp_call_id p = c" if "hm_get (rm_participants r) c = Some i" for c i
    proof -
      obtain p where p: "hm_get (cm_parts s) i = Some p" "cp_call_id p = c" using r \<open>hm_get (rm_participants r) c = Some i\<close> unfolding room_ok_def by blast
      have "i \<in> set (map fst parts)" unfolding keys using p(1) by (auto dest: map_of_SomeD intro: rev_image_eqI)
      then obtain p' where p': "hm_get parts i = Some p'" using map_of_eq_None_iff [of parts i] by (cases "hm_get parts i") auto
      then show ?thesis using ch [OF p'] p by auto
    qed
    then show ?thesis using r unfolding room_ok_def by simp
  qed
  have w: "hm_wf (cm_rooms s)" "hm_wf (cm_parts s)" "\<forall>i \<in> set (map fst (cm_parts s)). i < cm_next s"
    "\<And>i p. socket_held s i p \<Longrightarrow> cm_port_min s \<le> cp_relay_port p \<and> cp_relay_port p < cm_port_max s"
    "\<And>i j p q. socket_held s i p \<Longrightarrow> socket_held s j q \<Longrightarrow> cp_relay_port p = cp_relay_port q \<Longrightarrow> i = j"
    using wf unfolding conf_wf_def by blast+
  show ?thesis
    unfolding conf_wf_def
  proof (intro conjI allI impI)
    show "hm_wf (cm_rooms ?s)" using w(1) by simp
    show "hm_wf (cm_parts ?s)" using w(2) keys by simp
    show "\<forall>i \<in> set (map fst (cm_parts ?s)). i < cm_next ?s" using w(3) keys by simp
    show "room_ok ?s r" if "hm_get (cm_rooms ?s) k = Some r" for k r using rooms that by simp
    show "frame_ok p" if "hm_get (cm_parts ?s) i = Some p" for i p using ch [of i p] that by auto
    show "cm_port_min ?s \<le> cp_relay_port p" "cp_relay_port p < cm_port_max ?s" if "socket_held ?s i p" for i p
      using held [OF that] w(4) by auto
    show "i = j" if "socket_held ?s i p" "socket_held ?s j q" "cp_relay_port p = cp_relay_port q" for i j p q
      using held [OF that(1)] held [OF that(2)] w(5) that(3) by metis
  qed
qed

lemma conf_wf_adjust:
  assumes "conf_wf s" "\<And>p. frame_ok p \<Longrightarrow> cp_relay_port (f p) = cp_relay_port p \<and> cp_call_id (f p) = cp_call_id p \<and>
      (cp_recv_task (f p) \<longrightarrow> cp_recv_task p) \<and> frame_ok (f p)"
  shows "conf_wf (s\<lparr>cm_parts := hm_adjust i f (cm_parts s)\<rparr>)"
proof (rule conf_wf_parts [OF assms(1)])
  have fr: "hm_get (cm_parts s) j = Some p \<Longrightarrow> frame_ok p" for j p using assms(1) unfolding conf_wf_def by blast
  show "\<exists>p. hm_get (cm_parts s) j = Some p \<and> cp_relay_port p' = cp_relay_port p \<and>
      cp_call_id p' = cp_call_id p \<and> (cp_recv_task p' \<longrightarrow> cp_recv_task p) \<and> frame_ok p'"
    if "hm_get (hm_adjust i f (cm_parts s)) j = Some p'" for j p'
    using that assms(2) fr by (auto split: if_splits simp del: map_of_eq_Some_iff)
qed simp

text \<open>Shrinking the rooms.\<close>

lemma conf_wf_rooms:
  assumes wf: "conf_wf s" and m: "hm_wf rooms"
    and sub: "\<And>k r. hm_get rooms k = Some r \<Longrightarrow> room_ok s r \<and>
      (\<forall>c i. hm_get (rm_participants r) c = Some i \<longrightarrow> in_room s i)"
  shows "conf_wf (s\<lparr>cm_rooms := rooms\<rparr>)"
proof -
  let ?s = "s\<lparr>cm_rooms := rooms\<rparr>"
  have held: "socket_held s i p" if "socket_held ?s i p" for i p
  proof -
    have "in_room s i" if "in_room ?s i" using that sub unfolding in_room_def by auto
    then show ?thesis using \<open>socket_held ?s i p\<close> by (auto simp: socket_held_def)
  qed
  have w: "hm_wf (cm_parts s)" "\<forall>i \<in> set (map fst (cm_parts s)). i < cm_next s"
    "\<And>i p. hm_get (cm_parts s) i = Some p \<Longrightarrow> frame_ok p"
    "\<And>i p. socket_held s i p \<Longrightarrow> cm_port_min s \<le> cp_relay_port p \<and> cp_relay_port p < cm_port_max s"
    "\<And>i j p q. socket_held s i p \<Longrightarrow> socket_held s j q \<Longrightarrow> cp_relay_port p = cp_relay_port q \<Longrightarrow> i = j"
    using wf unfolding conf_wf_def by blast+
  have rok: "room_ok ?s r" if "room_ok s r" for r using that by (simp add: room_ok_def)
  show ?thesis
    unfolding conf_wf_def
  proof (intro conjI allI impI)
    show "room_ok ?s r" if "hm_get (cm_rooms ?s) k = Some r" for k r using rok sub that by auto
    show "cm_port_min ?s \<le> cp_relay_port p" "cp_relay_port p < cm_port_max ?s" if "socket_held ?s i p" for i p
      using w(4) held [OF that] by auto
    show "i = j" if "socket_held ?s i p" "socket_held ?s j q" "cp_relay_port p = cp_relay_port q" for i j p q
      using w(5) held that by blast
  qed (use w m in \<open>auto simp del: map_of_eq_Some_iff\<close>)
qed

lemma frame_ok_fit [simp]: "frame_ok (p\<lparr>cp_latest_frame := fit_frame pcm\<rparr>)"
  by (simp add: frame_ok_def)

lemma stop_recv_wf: "conf_wf s \<Longrightarrow> conf_wf (stop_recv i s)"
  unfolding stop_recv_def by (rule conf_wf_adjust) (simp_all add: frame_ok_def)

lemma stop_recv_frame [frame_simps]:
  "cm_rooms (stop_recv i s) = cm_rooms s" "cm_port_min (stop_recv i s) = cm_port_min s" "cm_port_max (stop_recv i s) = cm_port_max s"
  by (simp_all add: stop_recv_def)

lemma record_dtmf_frame:
  "cp_relay_port (snd (record_dtmf now e p)) = cp_relay_port p" "cp_call_id (snd (record_dtmf now e p)) = cp_call_id p"
  "cp_recv_task (snd (record_dtmf now e p)) = cp_recv_task p" "cp_latest_frame (snd (record_dtmf now e p)) = cp_latest_frame p"
  by (simp_all add: record_dtmf_def Let_def)

lemma handle_dtmf_frame:
  "cp_relay_port (handle_dtmf_packet now k d p) = cp_relay_port p" "cp_call_id (handle_dtmf_packet now k d p) = cp_call_id p"
  "cp_recv_task (handle_dtmf_packet now k d p) = cp_recv_task p" "cp_latest_frame (handle_dtmf_packet now k d p) = cp_latest_frame p"
  by (simp_all add: handle_dtmf_packet_def Let_def record_dtmf_frame)

lemma recv_packet_frame:
  assumes "recv_packet now src dg p = Some p'" "frame_ok p"
  shows "cp_relay_port p' = cp_relay_port p \<and> cp_call_id p' = cp_call_id p \<and> cp_recv_task p' = cp_recv_task p \<and> frame_ok p'"
  using assms
  by (auto simp: recv_packet_def Let_def frame_ok_def handle_dtmf_frame split: if_splits option.splits)

lemma receive_on_wf: "conf_wf s \<Longrightarrow> conf_wf (receive_on now port src dg s)"
proof -
  assume wf: "conf_wf s"
  have "conf_wf (s\<lparr>cm_parts := hm_adjust i (\<lambda>p. case recv_packet now src dg p of
      Some p' \<Rightarrow> p' | None \<Rightarrow> p\<lparr>cp_recv_task := False\<rparr>) (cm_parts s)\<rparr>)" for i
    by (rule conf_wf_adjust [OF wf]) (auto dest: recv_packet_frame simp: frame_ok_def split: option.split)
  then show ?thesis using wf by (simp add: receive_on_def split: option.split)
qed

lemma set_muted_wf: "conf_wf s \<Longrightarrow> conf_wf (snd (set_muted k c m s))"
  by (auto simp: set_muted_def frame_ok_def intro: conf_wf_adjust split: option.split)

lemma record_dtmf_for_wf: "conf_wf s \<Longrightarrow> conf_wf (snd (record_dtmf_for now k c e s))"
  by (auto simp: record_dtmf_for_def frame_ok_def record_dtmf_frame intro: conf_wf_adjust split: option.split)

lemma flush_recorder_None: "conf_wf s \<Longrightarrow> flush_recorder k s = (None, s)"
  unfolding conf_wf_def flush_recorder_def room_ok_def by (auto split: option.split simp del: map_of_eq_Some_iff)

lemma send_mixes_keys: "map fst (fst (snd (send_mixes checks frames ids parts))) = map fst parts"
  by (induction checks frames ids parts rule: send_mixes.induct)
    (auto simp: Let_def split: option.split prod.split)

lemma send_mixes_get:
  "hm_get (fst (snd (send_mixes checks frames ids parts))) i = Some p' \<Longrightarrow>
    \<exists>p q t. hm_get parts i = Some p \<and> p' = p\<lparr>cp_out_seq := q, cp_out_ts := t\<rparr>"
proof (induction checks frames ids parts rule: send_mixes.induct)
  case (1 checks frames parts)
  then show ?case by (intro exI [of _ p'] exI [of _ "cp_out_seq p'"] exI [of _ "cp_out_ts p'"]) simp
next
  case (2 checks frames j ids parts)
  have keep: "\<exists>q t. p = p\<lparr>cp_out_seq := q, cp_out_ts := t\<rparr>" for p :: participant
    by (intro exI [of _ "cp_out_seq p"] exI [of _ "cp_out_ts p"]) simp
  show ?case
  proof (cases "hm_get parts j")
    case None
    then show ?thesis using 2 by simp
  next
    case (Some pj)
    show ?thesis
    proof (cases "cp_peer pj")
      case None
      then show ?thesis using 2 Some by simp
    next
      case (Some peer)
      let ?enc = "case cp_codec pj of ConfPcmu \<Rightarrow> encode_ulaw checks (mix_for_receiver j frames) | ConfPcma \<Rightarrow> Some (encode_alaw (mix_for_receiver j frames))"
      show ?thesis
      proof (cases ?enc)
        case None
        then show ?thesis using "2.prems" \<open>hm_get parts j = Some pj\<close> Some keep by auto
      next
        case (Some payload)
        let ?parts = "hm_adjust j (\<lambda>p. p\<lparr>cp_out_seq := cp_out_seq p + 1, cp_out_ts := cp_out_ts p + of_nat SAMPLES_PER_FRAME\<rparr>) parts"
        have "hm_get (fst (snd (send_mixes checks frames ids ?parts))) i = Some p'"
          using "2.prems" \<open>hm_get parts j = Some pj\<close> \<open>cp_peer pj = Some peer\<close> Some
          by (simp add: Let_def split_beta)
        from "2.IH"(3) [OF \<open>hm_get parts j = Some pj\<close> \<open>cp_peer pj = Some peer\<close> refl Some refl refl this]
        obtain p q t where "hm_get ?parts i = Some p" "p' = p\<lparr>cp_out_seq := q, cp_out_ts := t\<rparr>" by blast
        then show ?thesis by (auto split: if_splits simp del: map_of_eq_Some_iff intro!: exI [of _ q] exI [of _ t])
      qed
    qed
  qed
qed

lemma conf_wf_mixer_off:
  assumes "conf_wf s" "hm_get (cm_rooms s) k = Some r"
  shows "conf_wf (s\<lparr>cm_rooms := hm_put k (r\<lparr>rm_mixer_runs := False\<rparr>) (cm_rooms s)\<rparr>)"
proof (rule conf_wf_rooms [OF assms(1)])
  show "hm_wf (hm_put k (r\<lparr>rm_mixer_runs := False\<rparr>) (cm_rooms s))"
    using assms(1) by (simp add: conf_wf_def hm.wf_put)
  have ok: "hm_get (cm_rooms s) k' = Some r' \<Longrightarrow> room_ok s r'" for k' r' using assms(1) unfolding conf_wf_def by blast
  show "room_ok s r' \<and> (\<forall>c i. hm_get (rm_participants r') c = Some i \<longrightarrow> in_room s i)"
    if "hm_get (hm_put k (r\<lparr>rm_mixer_runs := False\<rparr>) (cm_rooms s)) k' = Some r'" for k' r'
  proof (cases "k' = k")
    case True
    then have "r' = r\<lparr>rm_mixer_runs := False\<rparr>" using that by (simp add: hm.get_put)
    then show ?thesis using ok [OF assms(2)] assms(2) unfolding in_room_def by (auto simp: room_ok_def simp del: map_of_eq_Some_iff)
  next
    case False
    then have "hm_get (cm_rooms s) k' = Some r'" using that by (simp add: hm.get_put)
    then show ?thesis using ok unfolding in_room_def by blast
  qed
qed

lemma mixer_tick_wf: "conf_wf s \<Longrightarrow> conf_wf (snd (mixer_tick checks locked k s))"
proof (cases "hm_get (cm_rooms s) k")
  case None
  then show "conf_wf s \<Longrightarrow> ?thesis" by (simp add: mixer_tick_def)
next
  case (Some r)
  assume wf: "conf_wf s"
  have rec: "rm_recorder r = None" using wf Some unfolding conf_wf_def room_ok_def by blast
  let ?ids = "map snd (rm_participants r)" let ?m = "send_mixes checks (tick_frames locked (cm_parts s) ?ids) ?ids (cm_parts s)"
  have parts: "conf_wf (s\<lparr>cm_parts := fst (snd ?m)\<rparr>)"
  proof (rule conf_wf_parts [OF wf send_mixes_keys])
    have fr: "hm_get (cm_parts s) j = Some p \<Longrightarrow> frame_ok p" for j p using wf unfolding conf_wf_def by blast
    show "\<exists>p. hm_get (cm_parts s) i = Some p \<and> cp_relay_port p' = cp_relay_port p \<and> cp_call_id p' = cp_call_id p \<and>
        (cp_recv_task p' \<longrightarrow> cp_recv_task p) \<and> frame_ok p'" if "hm_get (fst (snd ?m)) i = Some p'" for i p'
      using send_mixes_get [OF that] fr by (force simp: frame_ok_def simp del: map_of_eq_Some_iff)
  qed
  have off: "conf_wf (s\<lparr>cm_rooms := hm_put k (r\<lparr>rm_mixer_runs := False\<rparr>) (cm_rooms s)\<rparr>)"
    "conf_wf (s\<lparr>cm_parts := fst (snd ?m), cm_rooms := hm_put k (r\<lparr>rm_mixer_runs := False\<rparr>) (cm_rooms s)\<rparr>)"
    using conf_wf_mixer_off [OF wf Some] conf_wf_mixer_off [OF parts, of k r] Some by simp_all
  show ?thesis using Some rec wf parts off by (simp add: mixer_tick_def Let_def split_beta split: option.split)
qed

lemma leave_room_wf: "conf_wf s \<Longrightarrow> conf_wf (leave_room k cid s)"
proof (cases "hm_get (cm_rooms s) k")
  case None
  then show "conf_wf s \<Longrightarrow> ?thesis" by (simp add: leave_room_def)
next
  case (Some r)
  assume wf: "conf_wf s"
  define s1 where "s1 = (case hm_get (rm_participants r) cid of None \<Rightarrow> s | Some i \<Rightarrow> stop_recv i s)"
  have s1: "conf_wf s1" "cm_rooms s1 = cm_rooms s"
    using wf by (auto simp: s1_def stop_recv_wf frame_simps split: option.split)
  have ok: "hm_get (cm_rooms s1) k' = Some r' \<Longrightarrow> room_ok s1 r'" for k' r' using s1(1) unfolding conf_wf_def by blast
  have r: "room_ok s1 r" using ok [of k r] Some s1(2) by simp
  let ?r = "r\<lparr>rm_participants := hm_del cid (rm_participants r)\<rparr>"
  have del: "conf_wf (s1\<lparr>cm_rooms := hm_del k (cm_rooms s1)\<rparr>)"
    by (rule conf_wf_rooms [OF s1(1)])
      (use s1(1) ok in \<open>auto simp: conf_wf_def hm.wf_del hm.get_del in_room_def simp del: map_of_eq_Some_iff split: if_splits\<close>)
  have put: "conf_wf (s1\<lparr>cm_rooms := hm_put k ?r (cm_rooms s1)\<rparr>)" if "hm_del cid (rm_participants r) \<noteq> []"
  proof (rule conf_wf_rooms [OF s1(1)])
    show "hm_wf (hm_put k ?r (cm_rooms s1))" using s1(1) by (simp add: conf_wf_def hm.wf_put)
    show "room_ok s1 r' \<and> (\<forall>c i. hm_get (rm_participants r') c = Some i \<longrightarrow> in_room s1 i)"
      if "hm_get (hm_put k ?r (cm_rooms s1)) k' = Some r'" for k' r'
    proof (cases "k' = k")
      case True
      then have r': "r' = ?r" using that by (simp add: hm.get_put)
      have "room_ok s1 ?r"
        using r \<open>hm_del cid (rm_participants r) \<noteq> []\<close>
        by (auto simp: room_ok_def hm.wf_del hm.get_del simp del: map_of_eq_Some_iff split: if_splits)
      moreover have "in_room s1 i" if "hm_get (rm_participants ?r) c = Some i" for c i
        using that Some s1(2) unfolding in_room_def by (auto simp: hm.get_del simp del: map_of_eq_Some_iff split: if_splits)
      ultimately show ?thesis using r' by blast
    next
      case False
      then have "hm_get (cm_rooms s1) k' = Some r'" using that by (simp add: hm.get_put)
      then show ?thesis using ok unfolding in_room_def by blast
    qed
  qed
  show ?thesis using Some del put by (simp add: leave_room_def Let_def s1_def [symmetric] s1(2))
qed

lemma shutdown_all_wf: "conf_wf s \<Longrightarrow> conf_wf (shutdown_all s)"
proof -
  assume wf: "conf_wf s"
  have "conf_wf (s\<lparr>cm_rooms := []\<rparr>)" by (rule conf_wf_rooms [OF wf]) simp_all
  moreover have "conf_wf t \<Longrightarrow> conf_wf (fold stop_recv is t)" for "is" t
    by (induction "is" arbitrary: t) (simp_all add: stop_recv_wf)
  ultimately show ?thesis by (simp add: shutdown_all_def)
qed

lemma conf_bind_sound:
  assumes "conf_bind_socket mn mx c free = (Ok p, n)"
  shows "mn \<le> p" "p < mx" "free p"
  using conf_ports.alloc_sound [of mn mx c free p] assms by (auto simp: conf_alloc_def)

lemma conf_bind_no_panic: "fst (conf_bind_socket mn mx c free) \<noteq> Panic"
  by (simp add: conf_bind_socket_def Let_def split: prod.split option.split)

definition joined_room :: "u64 \<Rightarrow> string \<Rightarrow> conference_media \<Rightarrow> room" where
  "joined_room k cid s =
     (let r = (case hm_get (cm_rooms s) k of Some r \<Rightarrow> r | None \<Rightarrow> empty_room);
          r = r\<lparr>rm_participants := hm_put cid (cm_next s) (rm_participants r)\<rparr>
      in if rm_mixer_task r then r else r\<lparr>rm_mixer_task := True, rm_mixer_runs := True\<rparr>)"

lemma join_room_Ok:
  assumes "join_room os rnd k cid codec pt te s = (Ok port, s')"
  shows "\<exists>n p. s' = s\<lparr>cm_port_counter := n, cm_parts := hm_put (cm_next s) p (cm_parts s), cm_next := Suc (cm_next s),
      cm_rooms := hm_put k (joined_room k cid s) (cm_rooms s)\<rparr> \<and> cp_call_id p = cid \<and> cp_relay_port p = port \<and>
    cp_latest_frame p = [] \<and> cp_codec p = codec \<and> cp_audio_pt p = pt \<and> \<not> cp_muted p \<and> cp_recv_task p \<and> cp_peer p = None \<and>
    cm_port_min s \<le> port \<and> port < cm_port_max s \<and> os port \<and> port \<notin> set (conf_bound_ports s)"
proof -
  obtain n where b: "conf_bind_socket (cm_port_min s) (cm_port_max s) (cm_port_counter s)
      (\<lambda>p. os p \<and> p \<notin> set (conf_bound_ports s)) = (Ok port, n)"
    using assms by (auto simp: join_room_def Let_def split: prod.splits outcome.splits)
  obtain seq ts ssrc where rnd: "rnd = (seq, ts, ssrc)" by (cases rnd)
  let ?p = "\<lparr>cp_call_id = cid, cp_relay_port = port, cp_codec = codec, cp_audio_pt = pt,
    cp_telephone_event_pt = te, cp_muted = False, cp_peer = None, cp_latest_frame = [],
    cp_out_seq = seq, cp_out_ts = ts, cp_out_ssrc = ssrc,
    cp_dtmf = \<lparr>ds_last_digit = None, ds_last_event_ts = None\<rparr>, cp_recv_task = True\<rparr>"
  have "s' = s\<lparr>cm_port_counter := n, cm_parts := hm_put (cm_next s) ?p (cm_parts s), cm_next := Suc (cm_next s),
      cm_rooms := hm_put k (joined_room k cid s) (cm_rooms s)\<rparr>"
    using assms by (simp add: join_room_def b rnd joined_room_def Let_def)
  then show ?thesis using conf_bind_sound [OF b] by (intro exI [of _ n] exI [of _ ?p]) simp
qed

lemma join_room_wf: "conf_wf s \<Longrightarrow> conf_wf (snd (join_room os rnd k cid codec pt te s))"
proof -
  assume wf: "conf_wf s"
  note w = wf [unfolded conf_wf_def]
  obtain res s' where j: "join_room os rnd k cid codec pt te s = (res, s')" by fastforce
  have counter: "conf_wf (s\<lparr>cm_port_counter := n\<rparr>)" for n
  proof -
    have "room_ok (s\<lparr>cm_port_counter := n\<rparr>) = room_ok s" "socket_held (s\<lparr>cm_port_counter := n\<rparr>) = socket_held s"
      by (auto simp: room_ok_def socket_held_def in_room_def fun_eq_iff simp del: map_of_eq_Some_iff)
    then show ?thesis using wf by (simp add: conf_wf_def del: map_of_eq_Some_iff)
  qed
  show ?thesis
  proof (cases res)
    case (Ok port)
    obtain n p where s': "s' = s\<lparr>cm_port_counter := n, cm_parts := hm_put (cm_next s) p (cm_parts s), cm_next := Suc (cm_next s),
        cm_rooms := hm_put k (joined_room k cid s) (cm_rooms s)\<rparr>"
      and p: "cp_call_id p = cid" "cp_relay_port p = port" "cp_latest_frame p = []" "cm_port_min s \<le> port" "port < cm_port_max s"
        "port \<notin> set (conf_bound_ports s)"
      using join_room_Ok [OF j [unfolded Ok]] by blast
    have fresh: "hm_get (cm_parts s) (cm_next s) = None"
      using w by (auto simp: map_of_eq_None_iff)
    have parts: "hm_get (cm_parts s') i = (if i = cm_next s then Some p else hm_get (cm_parts s) i)" for i
      by (simp add: s' hm.get_put)
    have rok: "room_ok s' r" if "room_ok s r" for r
      using that fresh unfolding room_ok_def parts by (metis option.distinct(1))
    have new: "room_ok s' (joined_room k cid s)"
    proof -
      define r where "r = (case hm_get (cm_rooms s) k of Some r \<Rightarrow> r | None \<Rightarrow> empty_room)"
      have "hm_wf (rm_participants r)" "rm_recorder r = None"
        "\<forall>c i. hm_get (rm_participants r) c = Some i \<longrightarrow> (\<exists>p. hm_get (cm_parts s') i = Some p \<and> cp_call_id p = c)"
      proof -
        have "r = empty_room \<or> room_ok s' r" using w rok by (auto simp: r_def simp del: map_of_eq_Some_iff split: option.split)
        then show "hm_wf (rm_participants r)" "rm_recorder r = None"
          "\<forall>c i. hm_get (rm_participants r) c = Some i \<longrightarrow> (\<exists>p. hm_get (cm_parts s') i = Some p \<and> cp_call_id p = c)"
          unfolding room_ok_def by (auto simp: empty_room_def simp del: map_of_eq_Some_iff)
      qed
      then show ?thesis
        using p(1) parts update_nonempty
        by (auto simp: joined_room_def r_def [symmetric] room_ok_def Let_def hm.wf_put hm.get_put simp del: map_of_eq_Some_iff split: if_splits)
    qed
    have rooms: "hm_get (cm_rooms s') k' = (if k' = k then Some (joined_room k cid s) else hm_get (cm_rooms s) k')" for k'
      by (simp add: s' hm.get_put)
    have inr: "i = cm_next s \<or> in_room s i" if "in_room s' i" for i
    proof -
      obtain k' r c where g: "hm_get (cm_rooms s') k' = Some r" "hm_get (rm_participants r) c = Some i"
        using \<open>in_room s' i\<close> unfolding in_room_def by blast
      show ?thesis
      proof (cases "k' = k")
        case True
        then have r: "r = joined_room k cid s" using g(1) rooms by simp
        then have "i = cm_next s \<or> (\<exists>r0 c. hm_get (cm_rooms s) k = Some r0 \<and> hm_get (rm_participants r0) c = Some i)"
          using g(2) by (auto simp: joined_room_def Let_def hm.get_put empty_room_def simp del: map_of_eq_Some_iff split: if_splits option.splits)
        then show ?thesis unfolding in_room_def by blast
      next
        case False
        then show ?thesis using g rooms unfolding in_room_def by auto
      qed
    qed
    have held: "(i = cm_next s \<and> q = p) \<or> (i \<noteq> cm_next s \<and> socket_held s i q)" if "socket_held s' i q" for i q
      using that inr [of i] parts [of i] unfolding socket_held_def by (auto simp del: map_of_eq_Some_iff split: if_splits)
    have apart: "cp_relay_port q \<noteq> port" if "socket_held s i q" for i q
      using conf_bound_held [OF wf that] p(6) by auto
    have "conf_wf s'"
      unfolding conf_wf_def
    proof (intro conjI allI impI)
      show "hm_wf (cm_rooms s')" "hm_wf (cm_parts s')" using w by (simp_all add: s' hm.wf_put)
      show "\<forall>i \<in> set (map fst (cm_parts s')). i < cm_next s'" using w by (auto simp: s' dom_update)
      show "room_ok s' r" if "hm_get (cm_rooms s') k' = Some r" for k' r
        using that new rok w unfolding rooms by (auto simp del: map_of_eq_Some_iff split: if_splits)
      show "frame_ok q" if "hm_get (cm_parts s') i = Some q" for i q
        using that w p(3) unfolding parts by (auto simp: frame_ok_def simp del: map_of_eq_Some_iff split: if_splits)
      show "cm_port_min s' \<le> cp_relay_port q" "cp_relay_port q < cm_port_max s'" if "socket_held s' i q" for i q
        using held [OF that] w p(2,4,5) by (auto simp: s')
      show "i = j" if "socket_held s' i q" "socket_held s' j q'" "cp_relay_port q = cp_relay_port q'" for i j q q'
        using held [OF that(1)] held [OF that(2)] that(3) apart p(2) w by metis
    qed
    then show ?thesis using j by simp
  next
    case (Err e)
    then show ?thesis using j counter by (auto simp: join_room_def Let_def split: prod.splits outcome.splits)
  next
    case Panic
    then show ?thesis using j counter by (auto simp: join_room_def Let_def split: prod.splits outcome.splits)
  qed
qed

interpretation conf_kept: kept_invariant conf_step conf_wf
proof
  fix s c
  assume "conf_wf s"
  then show "conf_wf (conf_step c s)"
    by (cases c) (simp_all add: join_room_wf leave_room_wf flush_recorder_None set_muted_wf record_dtmf_for_wf
        receive_on_wf mixer_tick_wf shutdown_all_wf)
qed

section \<open>Mixing\<close>

definition sample_at :: "nat \<Rightarrow> i16 list option \<Rightarrow> int" where
  "sample_at i f = (case f of None \<Rightarrow> 0 | Some xs \<Rightarrow> if i < length xs then sint (xs ! i) else 0)"

lemma length_add_frame [simp]: "length (add_frame acc f) = length acc"
  by (induction acc f rule: add_frame.induct) auto

lemma nth_add_frame: "i < length acc \<Longrightarrow> add_frame acc f ! i = acc ! i + sample_at i (Some f)"
  by (induction acc f arbitrary: i rule: add_frame.induct) (auto simp: sample_at_def nth_Cons split: nat.splits)

lemma length_mix_acc [simp]: "length (mix_acc r frames acc) = length acc"
  by (induction r frames acc rule: mix_acc.induct) (auto split: option.split)

lemma nth_mix_acc:
  "i < length acc \<Longrightarrow> mix_acc r frames acc ! i = acc ! i + (\<Sum>(j, f)\<leftarrow>frames. if j = r then 0 else sample_at i f)"
proof (induction r frames acc rule: mix_acc.induct)
  case (2 r j f frames acc)
  then show ?case by (cases f) (auto simp: nth_add_frame sample_at_def)
qed simp

section \<open>Muting by star six\<close>

text \<open>How often a star is followed at once, within the time-out, by a six.\<close>

fun star_six :: "(nat \<times> u8) list \<Rightarrow> nat" where
  "star_six ((t, d) # (t', d') # es) =
     (if d = 10 \<and> d' = 6 \<and> t' - t < STAR6_TIMEOUT then 1 else 0) + star_six ((t', d') # es)"
| "star_six _ = 0"

definition dtmf_run :: "(nat \<times> u8) list \<Rightarrow> participant \<Rightarrow> participant" where
  "dtmf_run = fold (\<lambda>(t, d) p. snd (record_dtmf t d p))"

lemma dtmf_run_star_six:
  "(case ds_last_digit (cp_dtmf p) of Some (d, t) \<Rightarrow> cp_muted (dtmf_run es p) = (cp_muted p \<noteq> odd (star_six ((t, d) # es)))
    | None \<Rightarrow> cp_muted (dtmf_run es p) = (cp_muted p \<noteq> odd (star_six es)))"
proof (induction es arbitrary: p)
  case Nil
  then show ?case by (auto simp: dtmf_run_def split: option.split)
next
  case (Cons e es)
  obtain t d where e: "e = (t, d)" by (cases e)
  let ?p = "snd (record_dtmf t d p)"
  have run: "dtmf_run (e # es) p = dtmf_run es ?p" by (simp add: dtmf_run_def e)
  show ?case
  proof (cases "\<exists>t0. ds_last_digit (cp_dtmf p) = Some (10, t0) \<and> t - t0 < STAR6_TIMEOUT \<and> d = 6")
    case True
    then obtain t0 where t0: "ds_last_digit (cp_dtmf p) = Some (10, t0)" "t - t0 < STAR6_TIMEOUT" "d = 6" by blast
    have "ds_last_digit (cp_dtmf ?p) = None" "cp_muted ?p = (\<not> cp_muted p)" using t0 by (simp_all add: record_dtmf_def Let_def)
    then show ?thesis using Cons [of ?p] t0 run by (cases es) (auto simp: e)
  next
    case False
    have "ds_last_digit (cp_dtmf ?p) = Some (d, t)" "cp_muted ?p = cp_muted p"
      using False by (auto simp: record_dtmf_def Let_def split: option.splits prod.splits)
    then show ?thesis using Cons [of ?p] run False by (auto simp: e split: option.split)
  qed
qed

section \<open>A tick\<close>

lemma encode_ulaw_release: "\<exists>bs. encode_ulaw False xs = Some bs \<and> length bs = length xs"
proof (induction xs)
  case (Cons x xs)
  moreover have "\<exists>b. linear_to_ulaw False x = Some b" by (simp add: linear_to_ulaw_def Let_def)
  ultimately show ?case by (auto simp: encode_ulaw_def)
qed (simp add: encode_ulaw_def)

definition mix_payload :: "(nat \<times> i16 list option) list \<Rightarrow> nat \<Rightarrow> participant \<Rightarrow> u8 list" where
  "mix_payload frames i p =
     (case cp_codec p of ConfPcmu \<Rightarrow> the (encode_ulaw False (mix_for_receiver i frames))
      | ConfPcma \<Rightarrow> encode_alaw (mix_for_receiver i frames))"

definition mix_packet :: "(nat \<times> i16 list option) list \<Rightarrow> (nat, participant) hmap \<Rightarrow> nat \<Rightarrow> (u16 \<times> socket_addr \<times> u8 list) option" where
  "mix_packet frames parts i =
     (case hm_get parts i of None \<Rightarrow> None
      | Some p \<Rightarrow> map_option (\<lambda>peer. (cp_relay_port p, peer,
          build_rtp_packet (cp_audio_pt p) (cp_out_seq p) (cp_out_ts p) (cp_out_ssrc p) (mix_payload frames i p))) (cp_peer p))"

lemma send_mixes_release:
  "distinct ids \<Longrightarrow> send_mixes False frames ids parts =
     (List.map_filter (mix_packet frames parts) ids,
      fst (snd (send_mixes False frames ids parts)), False)"
proof (induction ids arbitrary: parts)
  case Nil
  then show ?case by (simp add: List.map_filter_def)
next
  case (Cons i ids)
  show ?case
  proof (cases "hm_get parts i")
    case None
    then show ?thesis using Cons by (simp add: List.map_filter_simps mix_packet_def)
  next
    case (Some p)
    show ?thesis
    proof (cases "cp_peer p")
      case None
      then show ?thesis using Cons Some by (simp add: List.map_filter_simps mix_packet_def)
    next
      case (Some peer)
      let ?parts = "hm_adjust i (\<lambda>p. p\<lparr>cp_out_seq := cp_out_seq p + 1, cp_out_ts := cp_out_ts p + of_nat SAMPLES_PER_FRAME\<rparr>) parts"
      have enc: "(case cp_codec p of ConfPcmu \<Rightarrow> encode_ulaw False (mix_for_receiver i frames)
          | ConfPcma \<Rightarrow> Some (encode_alaw (mix_for_receiver i frames))) = Some (mix_payload frames i p)"
        using encode_ulaw_release [of "mix_for_receiver i frames"] by (auto simp: mix_payload_def split: conference_codec.split)
      have "mix_packet frames ?parts j = mix_packet frames parts j" if "j \<in> set ids" for j
        using that Cons.prems by (auto simp: mix_packet_def)
      then have rest: "List.map_filter (mix_packet frames ?parts) ids = List.map_filter (mix_packet frames parts) ids"
        by (simp add: List.map_filter_def cong: filter_cong)
      have "send_mixes False frames ids ?parts = (List.map_filter (mix_packet frames parts) ids,
          fst (snd (send_mixes False frames ids ?parts)), False)"
        using Cons.IH [of ?parts] Cons.prems rest by simp
      moreover have "mix_packet frames parts i = Some (cp_relay_port p, peer,
          build_rtp_packet (cp_audio_pt p) (cp_out_seq p) (cp_out_ts p) (cp_out_ssrc p) (mix_payload frames i p))"
        using \<open>hm_get parts i = Some p\<close> Some by (simp add: mix_packet_def)
      ultimately show ?thesis
        using \<open>hm_get parts i = Some p\<close> Some enc
        by (simp add: List.map_filter_simps Let_def split_beta prod_eq_iff)
    qed
  qed
qed

lemma room_ids_distinct: "room_ok s r \<Longrightarrow> distinct (map snd (rm_participants r))"
proof -
  assume r: "room_ok s r"
  have "inj_on snd (set (rm_participants r))"
  proof (rule inj_onI)
    fix x y
    assume xy: "x \<in> set (rm_participants r)" "y \<in> set (rm_participants r)" "snd x = snd y"
    have wf: "hm_wf (rm_participants r)" using r by (simp add: room_ok_def)
    have "hm_get (rm_participants r) (fst x) = Some (snd x)" "hm_get (rm_participants r) (fst y) = Some (snd y)"
      using map_of_is_SomeI [OF wf, of "fst x" "snd x"] map_of_is_SomeI [OF wf, of "fst y" "snd y"] xy(1,2) by simp_all
    then have "fst x = fst y" using r xy(3) unfolding room_ok_def by (metis option.inject)
    then show "x = y" using xy(3) by (rule prod_eqI)
  qed
  moreover have "distinct (rm_participants r)" using r by (simp add: room_ok_def distinct_map)
  ultimately show ?thesis by (simp add: distinct_map)
qed

section \<open>The properties\<close>

text \<open>
  rooms stay well formed. After any sequence of joins, departures, datagrams, ticks, mutes and
  shut-downs every room has a participant and a mixer task, every socket in use has a port of its own
  inside the range, every stored frame is empty or 160 samples long, and no room has a recorder, so
  flushing one never returns a recording.
\<close>

theorem conference_rooms_invariant:
  assumes "s = fold conf_step ops (conference_media_new ip mn mx)"
  shows "(\<forall>k r. hm_get (cm_rooms s) k = Some r \<longrightarrow> rm_participants r \<noteq> [] \<and> rm_mixer_task r) \<and>
    (\<forall>i j p q. socket_held s i p \<and> socket_held s j q \<and> cp_relay_port p = cp_relay_port q \<longrightarrow> i = j) \<and>
    (\<forall>i p. hm_get (cm_parts s) i = Some p \<longrightarrow> cp_latest_frame p = [] \<or> length (cp_latest_frame p) = SAMPLES_PER_FRAME) \<and>
    flush_recorder k s = (None, s)"
proof -
  have wf: "conf_wf s" unfolding assms by (rule conf_kept.run_inv [OF conf_wf_new])
  then have "hm_get (cm_rooms s) k = Some r \<Longrightarrow> rm_participants r \<noteq> [] \<and> rm_mixer_task r" for k r
    unfolding conf_wf_def room_ok_def by blast
  moreover have "socket_held s i p \<Longrightarrow> socket_held s j q \<Longrightarrow> cp_relay_port p = cp_relay_port q \<Longrightarrow> i = j" for i j p q
    using wf unfolding conf_wf_def by blast
  moreover have "hm_get (cm_parts s) i = Some p \<Longrightarrow> cp_latest_frame p = [] \<or> length (cp_latest_frame p) = SAMPLES_PER_FRAME" for i p
    using wf unfolding conf_wf_def frame_ok_def by blast
  ultimately show ?thesis using flush_recorder_None [OF wf] by blast
qed

text \<open>
  C15: mixing is exact. Each sample sent to a participant is the sum of the samples of the others at that
  position, muted and silent ones counting nothing, clipped to 16 bits; the participant's own audio has no
  influence.
\<close>

theorem mix_excludes_receiver:
  assumes "i < SAMPLES_PER_FRAME"
  shows "mix_for_receiver r frames ! i = clamp16 (\<Sum>(j, f)\<leftarrow>frames. if j = r then 0 else sample_at i f)"
  using assms nth_mix_acc [of i "replicate SAMPLES_PER_FRAME 0" r frames] by (simp add: mix_for_receiver_def)

text \<open>
  the mute switch follows the keys. From a fresh state, after any sequence of digits the participant is
  muted exactly when it was not and an odd number of stars were directly followed by a six within three
  seconds, or it was and an even number were.
\<close>

theorem star_six_toggles:
  assumes "ds_last_digit (cp_dtmf p) = None"
  shows "cp_muted (dtmf_run es p) \<longleftrightarrow> cp_muted p \<noteq> odd (star_six es)"
  using dtmf_run_star_six [where p = p and es = es] assms by simp

text \<open>
  a tick serves everybody. In a build without overflow checks, a tick of a running mixer sends exactly
  one packet, from the participant's own port, to each participant of the room whose address is known, in
  the order of the room, and no packet to the others.
\<close>

theorem mixer_tick_serves_all:
  assumes "conf_wf s" "hm_get (cm_rooms s) k = Some room" "rm_mixer_runs room"
  shows "fst (mixer_tick False locked k s) =
    List.map_filter (mix_packet (tick_frames locked (cm_parts s) (map snd (rm_participants room))) (cm_parts s))
      (map snd (rm_participants room))"
proof -
  have r: "room_ok s room" using assms(1,2) unfolding conf_wf_def by blast
  have ne: "rm_participants room \<noteq> []" and rec: "rm_recorder room = None" using r by (simp_all add: room_ok_def)
  let ?ids = "map snd (rm_participants room)" let ?fs = "tick_frames locked (cm_parts s) ?ids"
  obtain parts where "send_mixes False ?fs ?ids (cm_parts s) = (List.map_filter (mix_packet ?fs (cm_parts s)) ?ids, parts, False)"
    using send_mixes_release [OF room_ids_distinct [OF r], of ?fs "cm_parts s"] by blast
  then show ?thesis using assms(2,3) ne rec by (simp add: mixer_tick_def Let_def split: option.split)
qed

section \<open>Witnesses\<close>

definition example_conf :: conference_media where
  "example_conf = fold conf_step
     [Join (\<lambda>p. True) (1, 2, 3) 7 ''a'' ConfPcma 8 (Some 101), Join (\<lambda>p. True) (4, 5, 6) 7 ''b'' ConfPcma 8 None]
     (conference_media_new ''203.0.113.9'' 10100 10104)"

lemma example_conf_wf: "conf_wf example_conf"
  unfolding example_conf_def by (rule conf_kept.run_inv [OF conf_wf_new])

lemma example_conf_rooms:
  "hm_get (cm_rooms example_conf) 7 =
    Some \<lparr>rm_participants = [(''a'', 0), (''b'', 1)], rm_mixer_task = True, rm_mixer_runs = True, rm_recorder = None\<rparr>"
  by code_simp

theorem conference_rooms_invariant_witness:
  "flush_recorder 7 example_conf = (None, example_conf) \<and> participant_count 7 example_conf = 2"
  using conference_rooms_invariant [OF example_conf_def, of 7] by (simp add: participant_count_def example_conf_rooms)

theorem mix_excludes_receiver_witness:
  "mix_for_receiver 0 [(0, Some [100]), (1, Some [7]), (2, None), (3, Some [5])] ! 0 = 12"
  using mix_excludes_receiver [of 0 0 "[(0, Some [100]), (1, Some [7]), (2, None), (3, Some [5])]"]
  by (simp add: SAMPLES_PER_FRAME_def sample_at_def clamp16_def)

definition example_participant :: participant where
  "example_participant = \<lparr>cp_call_id = ''a'', cp_relay_port = 10100, cp_codec = ConfPcma, cp_audio_pt = 8,
     cp_telephone_event_pt = None, cp_muted = False, cp_peer = None, cp_latest_frame = [], cp_out_seq = 1,
     cp_out_ts = 2, cp_out_ssrc = 3, cp_dtmf = \<lparr>ds_last_digit = None, ds_last_event_ts = None\<rparr>, cp_recv_task = True\<rparr>"

theorem star_six_toggles_witness:
  "cp_muted (dtmf_run [(0, 10), (1, 6), (2, 6), (3, 1)] example_participant)"
  using star_six_toggles [of example_participant "[(0, 10), (1, 6), (2, 6), (3, 1)]"]
  by (simp add: example_participant_def STAR6_TIMEOUT_def)

definition example_heard :: conference_media where
  "example_heard = conf_step (Datagram 0 10100 \<lparr>sa_ip = Ipv4 192 0 2 3, sa_port = 4000\<rparr> (replicate 12 0)) example_conf"

theorem mixer_tick_serves_all_witness:
  "\<exists>packet. fst (mixer_tick False (\<lambda>i. False) 7 example_heard) = [(10100, \<lparr>sa_ip = Ipv4 192 0 2 3, sa_port = 4000\<rparr>, packet)]"
proof -
  have wf: "conf_wf example_heard" unfolding example_heard_def by (rule conf_kept.step_inv [OF example_conf_wf])
  have r: "hm_get (cm_rooms example_heard) 7 =
      Some \<lparr>rm_participants = [(''a'', 0), (''b'', 1)], rm_mixer_task = True, rm_mixer_runs = True, rm_recorder = None\<rparr>"
    by code_simp
  have "map_option cp_peer (hm_get (cm_parts example_heard) 0) = Some (Some \<lparr>sa_ip = Ipv4 192 0 2 3, sa_port = 4000\<rparr>)"
    "map_option cp_relay_port (hm_get (cm_parts example_heard) 0) = Some 10100"
    "map_option cp_peer (hm_get (cm_parts example_heard) 1) = Some None"
    by code_simp+
  then show ?thesis
    using mixer_tick_serves_all [OF wf r, of "\<lambda>i. False"]
    by (auto simp: List.map_filter_simps mix_packet_def simp del: map_of_eq_Some_iff)
qed

end
