(* ===== verification/Call_State.thy ===== *)
theory Call_State
  imports Voicemail Webrtc_Gateway Proxy_Messages Conference_Media
begin

text \<open>
  The state of the whole SIP handler, \<open>handler.rs\<close>: beside the registrar, presence and voicemail it has the
  maps of calls (\<open>PendingDialogs\<close>, \<open>PendingInvites\<close>, \<open>ActiveDialogs\<close>), the media relay, the WebRTC gateway, the
  guard of INVITE requests, the conference endpoint, and the tables \<open>sip_calls\<close>, \<open>sip_messages\<close>,
  \<open>sip_conference_rooms\<close> and \<open>sip_conference_participants\<close>. Generated row ids that no code reads are left out.
\<close>

record dialog_info =
  di_caller_addr :: socket_addr
  di_callee_addr :: socket_addr
  di_caller_is_stream :: bool
  di_callee_is_stream :: bool

datatype call_status = CallTrying | CallAnswered | CallEnded | CallCancelled

record sip_call =
  sc_caller :: string
  sc_callee :: string
  sc_status :: call_status
  sc_started_at :: nat
  sc_answered_at :: "nat option"
  sc_ended_at :: "nat option"

record sip_message_row =
  sm_message_id :: "string option"
  sm_call_id :: "string option"
  sm_sender :: string
  sm_receiver :: string
  sm_content_type :: string
  sm_body :: string
  sm_status :: string
  sm_source_ip :: string
  sm_delivered_at :: "nat option"

record conference_room =
  cr_id :: u64
  cr_extension :: string
  cr_domain :: string
  cr_enabled :: int
  cr_max_participants :: u32
  cr_pin_hash :: "string option"

record conference_participant =
  pt_room_id :: u64
  pt_account :: string
  pt_source_ip :: string
  pt_source_port :: u16
  pt_relay_port :: u16
  pt_codec :: string
  pt_muted :: bool
  pt_joined_at :: nat
  pt_left_at :: "nat option"

record conference_call =
  cc_room_id :: u64
  cc_extension :: string
  cc_domain :: string
  cc_caller_account :: string
  cc_to_tag :: string

record call_server = voicemail_server +
  cs_invite_guard :: security_guard
  cs_pending :: "(string, socket_addr) hmap"
  cs_invites :: "(string, sip_message) hmap"
  cs_active :: "(string, dialog_info) hmap"
  cs_relay :: media_relay
  cs_webrtc :: webrtc_gateway
  cs_calls :: "(string, sip_call) hmap"
  cs_messages :: "sip_message_row list"
  cs_rooms :: "conference_room list"
  cs_participants :: "(string, conference_participant) hmap"
  cs_conf_calls :: "(string, conference_call) hmap"
  cs_conf_media :: conference_media

text \<open>
  What one request finds outside: the world of the voicemail endpoint with the environment, the MD5 and
  WebRTC crates, the ports the operating system grants to the relay, the gateway and the conference, and
  the random numbers of a conference participant.
\<close>

record call_world =
  cw_vm :: voicemail_world
  cw_md5 :: "string \<Rightarrow> string"
  cw_rtc :: rtc_world
  cw_ports :: "u16 \<Rightarrow> bool"
  cw_rtp_start :: "u16 \<times> u32 \<times> u32"

abbreviation cw_env :: "call_world \<Rightarrow> env" where
  "cw_env w \<equiv> vw_env (cw_vm w)"

text \<open>A relay socket and a gateway socket cannot have the same port: both are taken from the same range.\<close>

definition relay_os :: "call_world \<Rightarrow> 'a call_server_scheme \<Rightarrow> u16 \<Rightarrow> bool" where
  "relay_os w st p = (cw_ports w p \<and> p \<notin> set (gw_bound_ports (cs_webrtc st)))"

definition gateway_os :: "call_world \<Rightarrow> 'a call_server_scheme \<Rightarrow> u16 \<Rightarrow> bool" where
  "gateway_os w st p = (cw_ports w p \<and> p \<notin> set (bound_ports (cs_relay st)))"

text \<open>What ends a call everywhere: both dialog maps, the relay session and the WebRTC session.\<close>

definition drop_call :: "string \<Rightarrow> 'a call_server_scheme \<Rightarrow> 'a call_server_scheme" where
  "drop_call cid st =
     st\<lparr>cs_pending := hm_del cid (cs_pending st), cs_active := hm_del cid (cs_active st),
        cs_relay := remove_session cid (cs_relay st), cs_webrtc := webrtc_remove_session cid (cs_webrtc st)\<rparr>"

text \<open>Nothing is left of a call: no dialog, no relayed media, no WebRTC session.\<close>

definition call_gone :: "string \<Rightarrow> 'a call_server_scheme \<Rightarrow> bool" where
  "call_gone cid st =
     (hm_get (cs_pending st) cid = None \<and> hm_get (cs_active st) cid = None \<and> hm_get (mr_sessions (cs_relay st)) cid = None \<and>
      hm_get (wg_sessions (cs_webrtc st)) cid = None)"

lemma webrtc_remove_sessions [simp]: "wg_sessions (webrtc_remove_session cid g) = hm_del cid (wg_sessions g)"
  by (auto simp: webrtc_remove_session_def stop_session_frame delete_conv' map_of_eq_None_iff intro: delete_idem [symmetric] split: option.split)

lemma drop_call_gone: "call_gone cid (drop_call cid st)"
  by (simp add: drop_call_def call_gone_def hm.get_del)

section \<open>An example\<close>

definition example_room :: conference_room where
  "example_room = \<lparr>cr_id = 1, cr_extension = ''900000000'', cr_domain = ''x.org'', cr_enabled = 1, cr_max_participants = 2,
     cr_pin_hash = Some ''42''\<rparr>"

definition example_calls :: call_server where
  "example_calls = voicemail_server.extend example_voicemail
     (call_server.fields (guard_new \<lparr>window_secs = 60, ip_fail_threshold = 3, user_ip_fail_threshold = 2, block_secs = 30\<rparr>)
        [] [] [] (media_relay_new ''203.0.113.9'' 10000 10010) (webrtc_gateway_new ''203.0.113.9'' 10000 10010) [] [] [example_room] [] []
        (conference_media_new ''203.0.113.9'' 20000 20010))"

definition example_call_world :: call_world where
  "example_call_world = \<lparr>cw_vm = example_world, cw_md5 = (\<lambda>s. replicate 32 (CHR ''0'')), cw_rtc = example_rtc, cw_ports = (\<lambda>p. True),
     cw_rtp_start = (0, 0, 0)\<rparr>"

lemmas example_calls_simps = example_calls_def voicemail_server.extend_def call_server.fields_def example_voicemail_simps

lemma example_calls_selectors [simp]:
  "vx_no_answer example_calls = []" "vx_timers example_calls = []" "sv_streams example_calls = []" "sv_outbox example_calls = []"
  "cs_pending example_calls = []" "cs_active example_calls = []" "cs_invites example_calls = []" "vx_boxes example_calls = [example_box]"
  "cs_relay example_calls = media_relay_new ''203.0.113.9'' 10000 10010" "cs_webrtc example_calls = webrtc_gateway_new ''203.0.113.9'' 10000 10010"
  "cs_rooms example_calls = [example_room]" "cs_participants example_calls = []" "cs_conf_calls example_calls = []"
  "cs_conf_media example_calls = conference_media_new ''203.0.113.9'' 20000 20010" "vx_active example_calls = []"
  "sv_accounts example_calls = [((''1001'', ''x.org''), \<lparr>ac_ha1_hash = Some ''h'', ac_enabled = 1\<rparr>)]"
  "sv_registrations example_calls = [((''1001'', ''x.org''), \<lparr>rg_contact_uri = ''sip:1001@192.0.2.3'', rg_user_agent = [],
        rg_expires_at = 2000, rg_source_ip = ''192.0.2.3'', rg_source_port = 5060\<rparr>)]"
  "cs_invite_guard example_calls = guard_new \<lparr>window_secs = 60, ip_fail_threshold = 3, user_ip_fail_threshold = 2, block_secs = 30\<rparr>"
  by (simp_all add: example_calls_simps)

lemma example_call_world_selectors [simp]:
  "cw_env example_call_world = example_env" "cw_vm example_call_world = example_world" "cw_rtc example_call_world = example_rtc"
  "cw_ports example_call_world = (\<lambda>p. True)" "cw_md5 example_call_world = (\<lambda>s. replicate 32 (CHR ''0''))"
  by (simp_all add: example_call_world_def example_world_def)

end
