(* ===== verification/No_Answer.thy ===== *)
theory No_Answer
  imports Call_State
begin

text \<open>
  The no-answer timer of \<open>voicemail.rs\<close>: a spawned task that sleeps, claims the call, cancels the ringing leg,
  clears the call, runs the delivery of the voicemail endpoint and answers the caller. Every place where the
  task takes a lock or sends is a step of its own, so that the requests that cancel the timer come between
  any two of them. The dialogs, the relay and the gateway are cleared in one step. A handle that is aborted
  ends its task at once.
\<close>

section \<open>Definitions\<close>

definition claim_no_answer_timer_to_fire :: "string \<Rightarrow> (string, no_answer_entry) hmap \<Rightarrow> bool \<times> (string, no_answer_entry) hmap" where
  "claim_no_answer_timer_to_fire cid timers =
     (case hm_get timers cid of Some (Ringing _) \<Rightarrow> (True, hm_put cid Firing timers) | _ \<Rightarrow> (False, timers))"

definition mark_fired_no_answer_timer_canceled :: "string \<Rightarrow> (string, no_answer_entry) hmap \<Rightarrow> bool \<times> (string, no_answer_entry) hmap" where
  "mark_fired_no_answer_timer_canceled cid timers =
     (if hm_get timers cid = Some Firing then (True, hm_put cid TimerCanceled timers) else (False, timers))"

definition no_answer_timer_should_continue :: "string \<Rightarrow> (string, no_answer_entry) hmap \<Rightarrow> bool" where
  "no_answer_timer_should_continue cid timers = (hm_get timers cid = Some Firing)"

definition cancel_no_answer_timer_for_caller_cancel ::
  "string \<Rightarrow> 'a voicemail_server_scheme \<Rightarrow> no_answer_timer_cancel \<times> 'a voicemail_server_scheme" where
  "cancel_no_answer_timer_for_caller_cancel cid st =
     (case mark_fired_no_answer_timer_canceled cid (vx_no_answer st) of
        (True, timers) \<Rightarrow> (CancelCanceled, st\<lparr>vx_no_answer := timers\<rparr>)
      | (False, timers) \<Rightarrow>
          (case hm_get timers cid of
             Some (Ringing t) \<Rightarrow> (CancelCanceled, abort_timer t (st\<lparr>vx_no_answer := hm_del cid timers\<rparr>))
           | Some _ \<Rightarrow> (CancelCanceled, st)
           | None \<Rightarrow> (CancelNotFound, st)))"

definition max_forwards :: "sip_message \<Rightarrow> u32" where
  "max_forwards msg = (case Option.bind (header msg ''max-forwards'') parse_u32 of None \<Rightarrow> 70 | Some n \<Rightarrow> n)"

definition saturating_dec :: "u32 \<Rightarrow> u32" where
  "saturating_dec n = (if n = 0 then 0 else n - 1)"

definition start_no_answer_timer ::
  "env \<Rightarrow> sip_message \<Rightarrow> socket_addr \<Rightarrow> socket_addr \<Rightarrow> string \<Rightarrow> string \<Rightarrow> u32 \<Rightarrow> 'a voicemail_server_scheme \<Rightarrow> 'a voicemail_server_scheme" where
  "start_no_answer_timer env msg src target_addr target_uri callee no_answer_secs st =
     (let cid = (case call_id msg of None \<Rightarrow> [] | Some c \<Rightarrow> c) in
      if cid = [] \<or> callee = [] then st
      else
        let t = vx_next_timer st;
            task = \<lparr>tt_call_id = cid, tt_msg = msg, tt_src = src, tt_target_addr = target_addr, tt_target_uri = target_uri,
                    tt_callee = callee, tt_max_fwd = saturating_dec (max_forwards msg),
                    tt_wake = ev_instant env + unat (max no_answer_secs 1) * 1000000000, tt_place = Sleeping\<rparr>;
            old = hm_get (vx_no_answer st) cid;
            st = st\<lparr>vx_timers := hm_put t task (vx_timers st), vx_next_timer := Suc t, vx_no_answer := hm_put cid (Ringing t) (vx_no_answer st)\<rparr>
        in case old of Some (Ringing t') \<Rightarrow> abort_timer t' st | _ \<Rightarrow> st)"

definition finish_no_answer_timer :: "string \<Rightarrow> 'a voicemail_server_scheme \<Rightarrow> 'a voicemail_server_scheme" where
  "finish_no_answer_timer cid st = st\<lparr>vx_no_answer := hm_del cid (vx_no_answer st)\<rparr>"

definition cleanup_suppressed_no_answer_delivery :: "string \<Rightarrow> 'a voicemail_server_scheme \<Rightarrow> 'a voicemail_server_scheme" where
  "cleanup_suppressed_no_answer_delivery cid st =
     (let st = snd (mark_recording_canceled cid st)
      in st\<lparr>vx_active := hm_del cid (vx_active st), vx_media := vm_remove cid (vx_media st)\<rparr>)"

definition timer_goto :: "nat \<Rightarrow> timer_place \<Rightarrow> 'a voicemail_server_scheme \<Rightarrow> 'a voicemail_server_scheme" where
  "timer_goto t place st = st\<lparr>vx_timers := hm_adjust t (\<lambda>task. task\<lparr>tt_place := place\<rparr>) (vx_timers st)\<rparr>"

text \<open>The step of a task at the place it has reached.\<close>

definition timer_at ::
  "sip_config \<Rightarrow> call_world \<Rightarrow> nat \<Rightarrow> timer_task \<Rightarrow> 'a call_server_scheme \<Rightarrow> 'a call_server_scheme" where
  "timer_at cfg w t task st =
     (let cid = tt_call_id task in
      case tt_place task of
        Sleeping \<Rightarrow>
          if ev_instant (cw_env w) < tt_wake task then st
          else (case claim_no_answer_timer_to_fire cid (vx_no_answer st) of
                  (True, timers) \<Rightarrow> timer_goto t Claimed (st\<lparr>vx_no_answer := timers\<rparr>)
                | (False, timers) \<Rightarrow> abort_timer t st)
      | Claimed \<Rightarrow>
          timer_goto t Cleaning (snd (send_sip (cw_env w)
            (build_forwarded_cancel_for_target (cw_md5 w) (tt_msg task) (tt_target_uri task) (tt_max_fwd task) (cfg_sip_domain cfg))
            (tt_target_addr task) st))
      | Cleaning \<Rightarrow> timer_goto t Checking (drop_call cid st)
      | Checking \<Rightarrow> timer_goto t (if no_answer_timer_should_continue cid (vx_no_answer st) then Delivering else Finishing) st
      | Delivering \<Rightarrow>
          (case handle_delivery_invite cfg (cw_vm w) (tt_msg task) (tt_callee task) st of
             (Ok response, st) \<Rightarrow> timer_goto t (Answering response) st
           | (Err e, st) \<Rightarrow> timer_goto t (Answering (build (base_response (tt_msg task) 500 ''Internal Server Error''))) st
           | (Panic, st) \<Rightarrow> abort_timer t st)
      | Answering response \<Rightarrow>
          if no_answer_timer_should_continue cid (vx_no_answer st) then timer_goto t (Sending response) st
          else timer_goto t Finishing (cleanup_suppressed_no_answer_delivery cid st)
      | Sending response \<Rightarrow> timer_goto t Finishing (snd (send_sip (cw_env w) response (tt_src task) st))
      | Finishing \<Rightarrow> abort_timer t (finish_no_answer_timer cid st))"

definition timer_step :: "sip_config \<Rightarrow> call_world \<Rightarrow> nat \<Rightarrow> 'a call_server_scheme \<Rightarrow> 'a call_server_scheme" where
  "timer_step cfg w t st = (case hm_get (vx_timers st) t of None \<Rightarrow> st | Some task \<Rightarrow> timer_at cfg w t task st)"

section \<open>Frame\<close>

lemma delivery_box_timers [frame_simps]:
  "vx_no_answer (snd (delivery_to_box cfg w msg cid caller callee st)) = vx_no_answer st"
  "vx_timers (snd (delivery_to_box cfg w msg cid caller callee st)) = vx_timers st"
  "vx_next_timer (snd (delivery_to_box cfg w msg cid caller callee st)) = vx_next_timer st"
  "voicemail_server.more (snd (delivery_to_box cfg w msg cid caller callee st)) = voicemail_server.more st"
  "sv_outbox (snd (delivery_to_box cfg w msg cid caller callee st)) = sv_outbox st"
  "sv_streams (snd (delivery_to_box cfg w msg cid caller callee st)) = sv_streams st"
  by (simp_all add: delivery_to_box_def delivery_established_def Let_def discard_recording_candidate_def
      split: option.split outcome.split prod.split bool.split)

lemma delivery_timers [frame_simps]:
  "vx_no_answer (snd (handle_delivery_invite cfg w msg callee st)) = vx_no_answer st"
  "vx_timers (snd (handle_delivery_invite cfg w msg callee st)) = vx_timers st"
  "vx_next_timer (snd (handle_delivery_invite cfg w msg callee st)) = vx_next_timer st"
  "voicemail_server.more (snd (handle_delivery_invite cfg w msg callee st)) = voicemail_server.more st"
  "sv_outbox (snd (handle_delivery_invite cfg w msg callee st)) = sv_outbox st"
  "sv_streams (snd (handle_delivery_invite cfg w msg callee st)) = sv_streams st"
  by (simp_all add: handle_delivery_invite_def Let_def candidate_defs frame_simps
      split: option.split outcome.split prod.split bool.split)

lemma send_sip_timers [frame_simps]:
  "vx_no_answer (snd (send_sip env m a st)) = vx_no_answer st"
  "vx_timers (snd (send_sip env m a st)) = vx_timers st"
  "vx_next_timer (snd (send_sip env m a st)) = vx_next_timer st"
  by (simp_all add: send_sip_def transport_send_def udp_send_def split: option.split)

lemma call_server_more:
  fixes st st' :: "'a call_server_scheme"
  assumes "voicemail_server.more st = voicemail_server.more st'"
  shows "cs_invite_guard st = cs_invite_guard st'" "cs_pending st = cs_pending st'" "cs_invites st = cs_invites st'" "cs_active st = cs_active st'"
    "cs_relay st = cs_relay st'" "cs_webrtc st = cs_webrtc st'" "cs_calls st = cs_calls st'" "cs_messages st = cs_messages st'"
    "cs_rooms st = cs_rooms st'" "cs_participants st = cs_participants st'"
    "cs_conf_calls st = cs_conf_calls st'" "cs_conf_media st = cs_conf_media st'"
  using assms by (cases st; cases st'; simp)+

section \<open>Tasks and entries\<close>

text \<open>An entry that rings names a sleeping task of its call, so an aborted handle is that of a sleeping task.\<close>

definition timers_wf :: "'a voicemail_server_scheme \<Rightarrow> bool" where
  "timers_wf st =
     ((\<forall>cid t. hm_get (vx_no_answer st) cid = Some (Ringing t) \<longrightarrow>
        (\<exists>task. hm_get (vx_timers st) t = Some task \<and> tt_call_id task = cid \<and> tt_place task = Sleeping)) \<and>
      (\<forall>t task. hm_get (vx_timers st) t = Some task \<longrightarrow> t < vx_next_timer st))"

lemma timers_wf_same:
  "timers_wf st \<Longrightarrow> vx_no_answer st' = vx_no_answer st \<Longrightarrow> vx_timers st' = vx_timers st \<Longrightarrow> vx_next_timer st' = vx_next_timer st \<Longrightarrow> timers_wf st'"
  by (simp add: timers_wf_def)

lemma timers_wf_named:
  assumes "timers_wf st" "hm_get (vx_no_answer st) c = Some (Ringing t)" "hm_get (vx_timers st) t = Some task"
  shows "c = tt_call_id task" "tt_place task = Sleeping"
  using assms(1) assms(2,3) unfolding timers_wf_def by (metis option.sel)+

lemma timers_wf_put: "timers_wf st \<Longrightarrow> \<forall>t. e \<noteq> Ringing t \<Longrightarrow> timers_wf (st\<lparr>vx_no_answer := hm_put cid e (vx_no_answer st)\<rparr>)"
  by (auto simp: timers_wf_def hm.get_put)

lemma timers_wf_del: "timers_wf st \<Longrightarrow> timers_wf (st\<lparr>vx_no_answer := hm_del cid (vx_no_answer st)\<rparr>)"
  by (auto simp: timers_wf_def hm.get_del)

lemma timers_wf_abort: "timers_wf st \<Longrightarrow> \<forall>cid. hm_get (vx_no_answer st) cid \<noteq> Some (Ringing t) \<Longrightarrow> timers_wf (abort_timer t st)"
  unfolding timers_wf_def abort_timer_def by (auto simp: hm.get_del)

lemma timers_wf_ringing:
  assumes "timers_wf st" "hm_get (vx_no_answer st) cid = Some (Ringing t)"
  shows "timers_wf (abort_timer t (st\<lparr>vx_no_answer := hm_del cid (vx_no_answer st)\<rparr>))"
proof (intro timers_wf_abort timers_wf_del assms(1) allI)
  fix c
  obtain task where "hm_get (vx_timers st) t = Some task" "tt_call_id task = cid" using assms by (auto simp: timers_wf_def)
  then show "hm_get (vx_no_answer (st\<lparr>vx_no_answer := hm_del cid (vx_no_answer st)\<rparr>)) c \<noteq> Some (Ringing t)"
    using timers_wf_named [OF assms(1), of c t task] by (auto simp: hm.get_del)
qed

lemma cancel_timers_wf: "timers_wf st \<Longrightarrow> timers_wf (snd (cancel_no_answer_timer cid st))"
  by (auto simp: cancel_no_answer_timer_def split: option.split no_answer_entry.split intro: timers_wf_ringing timers_wf_put)

lemma caller_cancel_timers_wf: "timers_wf st \<Longrightarrow> timers_wf (snd (cancel_no_answer_timer_for_caller_cancel cid st))"
  by (auto simp: cancel_no_answer_timer_for_caller_cancel_def mark_fired_no_answer_timer_canceled_def split: option.split no_answer_entry.split
      intro: timers_wf_ringing timers_wf_put)

lemma timers_wf_start:
  assumes "timers_wf st" "tt_call_id task = cid" "tt_place task = Sleeping" "\<And>t'. old = Some (Ringing t') \<Longrightarrow> hm_get (vx_no_answer st) cid = Some (Ringing t')"
  shows "timers_wf (case old of Some (Ringing t') \<Rightarrow> abort_timer t' (st\<lparr>vx_timers := hm_put (vx_next_timer st) task (vx_timers st),
      vx_next_timer := Suc (vx_next_timer st), vx_no_answer := hm_put cid (Ringing (vx_next_timer st)) (vx_no_answer st)\<rparr>)
    | _ \<Rightarrow> st\<lparr>vx_timers := hm_put (vx_next_timer st) task (vx_timers st),
      vx_next_timer := Suc (vx_next_timer st), vx_no_answer := hm_put cid (Ringing (vx_next_timer st)) (vx_no_answer st)\<rparr>)"
proof -
  have lt: "t < vx_next_timer st" if "hm_get (vx_timers st) t = Some task'" for t task' using assms(1) that by (auto simp: timers_wf_def)
  have ring: "\<exists>task. hm_get (vx_timers st) t = Some task \<and> tt_call_id task = c \<and> tt_place task = Sleeping"
    if "hm_get (vx_no_answer st) c = Some (Ringing t)" for c t using assms(1) that by (auto simp: timers_wf_def)
  have old: "t' < vx_next_timer st" "\<And>c t. c \<noteq> cid \<Longrightarrow> hm_get (vx_no_answer st) c = Some (Ringing t) \<Longrightarrow> t \<noteq> t'" if "old = Some (Ringing t')" for t'
    using ring [OF assms(4) [OF that]] lt ring by fastforce+
  let ?st = "st\<lparr>vx_timers := hm_put (vx_next_timer st) task (vx_timers st), vx_next_timer := Suc (vx_next_timer st),
      vx_no_answer := hm_put cid (Ringing (vx_next_timer st)) (vx_no_answer st)\<rparr>"
  have 1: "timers_wf ?st"
    unfolding timers_wf_def
  proof (intro conjI allI impI)
    fix c t assume "hm_get (vx_no_answer ?st) c = Some (Ringing t)"
    then show "\<exists>task. hm_get (vx_timers ?st) t = Some task \<and> tt_call_id task = c \<and> tt_place task = Sleeping"
      using ring [of c t] lt assms(2,3) by (cases "c = cid") (auto simp: hm.get_put)
  next
    fix t task' assume "hm_get (vx_timers ?st) t = Some task'"
    then show "t < vx_next_timer ?st" using lt [of t task'] by (auto simp: hm.get_put split: if_splits)
  qed
  have 2: "timers_wf (abort_timer t' ?st)" if o: "old = Some (Ringing t')" for t'
    unfolding timers_wf_def
  proof (intro conjI allI impI)
    fix c t assume r: "hm_get (vx_no_answer (abort_timer t' ?st)) c = Some (Ringing t)"
    then have "t \<noteq> t'" using old(1) [OF o] old(2) [OF o, of c t] by (auto simp: abort_timer_def hm.get_put split: if_splits)
    then show "\<exists>task. hm_get (vx_timers (abort_timer t' ?st)) t = Some task \<and> tt_call_id task = c \<and> tt_place task = Sleeping"
      using 1 r by (auto simp: timers_wf_def abort_timer_def hm.get_del)
  next
    fix t task' assume "hm_get (vx_timers (abort_timer t' ?st)) t = Some task'"
    then show "t < vx_next_timer (abort_timer t' ?st)" using 1 by (auto simp: timers_wf_def abort_timer_def hm.get_del split: if_splits)
  qed
  show ?thesis using 1 2 by (auto split: option.split no_answer_entry.split)
qed

lemma start_timers_wf: "timers_wf st \<Longrightarrow> timers_wf (start_no_answer_timer env msg src ta tu callee n st)"
  unfolding start_no_answer_timer_def Let_def by (auto intro!: timers_wf_start)

lemma timers_wf_goto:
  "timers_wf st \<Longrightarrow> \<forall>cid. hm_get (vx_no_answer st) cid \<noteq> Some (Ringing t) \<Longrightarrow> timers_wf (timer_goto t place st)"
  unfolding timers_wf_def timer_goto_def by auto

lemma drop_call_timers [frame_simps]:
  "vx_no_answer (drop_call cid st) = vx_no_answer st" "vx_timers (drop_call cid st) = vx_timers st" "vx_next_timer (drop_call cid st) = vx_next_timer st"
  by (simp_all add: drop_call_def)

lemma suppressed_timers [frame_simps]:
  "vx_no_answer (cleanup_suppressed_no_answer_delivery cid st) = vx_no_answer st"
  "vx_timers (cleanup_suppressed_no_answer_delivery cid st) = vx_timers st"
  "vx_next_timer (cleanup_suppressed_no_answer_delivery cid st) = vx_next_timer st"
  by (simp_all add: cleanup_suppressed_no_answer_delivery_def Let_def mark_recording_canceled_def)

lemma timer_at_wf:
  assumes "timers_wf st" "hm_get (vx_timers st) t = Some task"
  shows "timers_wf (timer_at cfg w t task st)"
proof (cases "tt_place task = Sleeping")
  case True
  have named: "c = tt_call_id task" if "hm_get (vx_no_answer st) c = Some (Ringing t)" for c
    by (rule timers_wf_named(1) [OF assms(1) that assms(2)])
  show ?thesis
  proof (cases "\<exists>t'. hm_get (vx_no_answer st) (tt_call_id task) = Some (Ringing t')")
    case r: True
    have "timers_wf (timer_goto t Claimed (st\<lparr>vx_no_answer := hm_put (tt_call_id task) Firing (vx_no_answer st)\<rparr>))"
      using named by (intro timers_wf_goto timers_wf_put assms(1)) (auto simp: hm.get_put)
    then show ?thesis using True r assms(1) by (auto simp: timer_at_def Let_def claim_no_answer_timer_to_fire_def)
  next
    case False
    then have "timers_wf (abort_timer t st)" using named by (intro timers_wf_abort assms(1)) blast
    then show ?thesis using True False assms(1)
      by (auto simp: timer_at_def Let_def claim_no_answer_timer_to_fire_def split: option.split no_answer_entry.split)
  qed
next
  case False
  then have n: "hm_get (vx_no_answer st) c \<noteq> Some (Ringing t)" for c using timers_wf_named(2) [OF assms(1) _ assms(2)] by blast
  have k: "timers_wf (timer_goto t p st') \<and> timers_wf (abort_timer t st')"
    if "vx_no_answer st' = vx_no_answer st" "vx_timers st' = vx_timers st" "vx_next_timer st' = vx_next_timer st" for p and st' :: "'a call_server_scheme"
    using n timers_wf_same [OF assms(1) that] that by (intro conjI timers_wf_goto timers_wf_abort) auto
  have f: "timers_wf (abort_timer t (finish_no_answer_timer c st))" for c
    unfolding finish_no_answer_timer_def using n by (intro timers_wf_abort timers_wf_del assms(1)) (auto simp: hm.get_del)
  note d = delivery_timers [of cfg "cw_vm w" "tt_msg task" "tt_callee task" st]
  obtain r st' where p: "handle_delivery_invite cfg (cw_vm w) (tt_msg task) (tt_callee task) st = (r, st')" by force
  show ?thesis using False f k k [of st'] d p
    by (auto simp: timer_at_def Let_def frame_simps split: timer_place.split outcome.split)
qed

lemma timer_step_wf: "timers_wf st \<Longrightarrow> timers_wf (timer_step cfg w t st)"
  by (simp add: timer_step_def timer_at_wf split: option.split)

section \<open>Calls the caller gave up\<close>

text \<open>The timer of the call is gone or marked, and no task of the call is about to send its answer.\<close>

definition timer_quiet :: "string \<Rightarrow> 'a voicemail_server_scheme \<Rightarrow> bool" where
  "timer_quiet cid st =
     (hm_get (vx_no_answer st) cid \<in> {None, Some TimerCanceled} \<and>
      (\<forall>t task r. hm_get (vx_timers st) t = Some task \<longrightarrow> tt_call_id task = cid \<longrightarrow> tt_place task \<noteq> Sending r))"

lemma quiet_same: "timer_quiet cid st \<Longrightarrow> vx_no_answer st' = vx_no_answer st \<Longrightarrow> vx_timers st' = vx_timers st \<Longrightarrow> timer_quiet cid st'"
  by (simp add: timer_quiet_def)

lemma quiet_abort: "timer_quiet cid st \<Longrightarrow> timer_quiet cid (abort_timer t st)"
  by (simp add: timer_quiet_def abort_timer_def hm.get_del)

lemma quiet_put: "timer_quiet cid st \<Longrightarrow> c \<noteq> cid \<or> e = TimerCanceled \<Longrightarrow> timer_quiet cid (st\<lparr>vx_no_answer := hm_put c e (vx_no_answer st)\<rparr>)"
  by (auto simp: timer_quiet_def hm.get_put)

lemma quiet_del: "timer_quiet cid st \<Longrightarrow> timer_quiet cid (st\<lparr>vx_no_answer := hm_del c (vx_no_answer st)\<rparr>)"
  by (auto simp: timer_quiet_def hm.get_del)

lemma quiet_goto:
  "timer_quiet cid st \<Longrightarrow> hm_get (vx_timers st) t = Some task \<Longrightarrow> tt_call_id task \<noteq> cid \<or> (\<forall>r. p \<noteq> Sending r) \<Longrightarrow> timer_quiet cid (timer_goto t p st)"
  unfolding timer_quiet_def timer_goto_def by (auto split: if_splits)

lemma cancel_quiet: "timer_quiet cid st \<Longrightarrow> timer_quiet cid (snd (cancel_no_answer_timer c st))"
  by (auto simp: cancel_no_answer_timer_def intro!: quiet_abort quiet_put quiet_del split: option.split no_answer_entry.split)
    (simp add: timer_quiet_def)

lemma caller_cancel_quiet: "timer_quiet cid st \<Longrightarrow> timer_quiet cid (snd (cancel_no_answer_timer_for_caller_cancel c st))"
  by (auto simp: cancel_no_answer_timer_for_caller_cancel_def mark_fired_no_answer_timer_canceled_def
      intro!: quiet_abort quiet_put quiet_del split: option.split no_answer_entry.split)

text \<open>The CANCEL of the caller makes the call quiet, unless a task has passed its last check.\<close>

lemma caller_cancel_starts_quiet:
  assumes "\<And>t task r. hm_get (vx_timers st) t = Some task \<Longrightarrow> tt_call_id task = cid \<Longrightarrow> tt_place task \<noteq> Sending r"
  shows "timer_quiet cid (snd (cancel_no_answer_timer_for_caller_cancel cid st))"
  using assms
  by (auto simp: timer_quiet_def cancel_no_answer_timer_for_caller_cancel_def mark_fired_no_answer_timer_canceled_def abort_timer_def
      hm.get_put hm.get_del split: option.split no_answer_entry.split)

lemma start_quiet:
  assumes "timer_quiet cid st" "call_id msg \<noteq> Some cid"
  shows "timer_quiet cid (start_no_answer_timer env msg src ta tu callee n st)"
  using assms unfolding start_no_answer_timer_def Let_def
  by (auto simp: timer_quiet_def abort_timer_def hm.get_put hm.get_del split: option.splits no_answer_entry.splits if_splits)

lemma timer_at_quiet:
  assumes "timer_quiet cid st" "hm_get (vx_timers st) t = Some task"
  shows "timer_quiet cid (timer_at cfg w t task st)"
proof -
  have g: "timer_quiet cid (timer_goto t p st')" if "vx_no_answer st' = vx_no_answer st" "vx_timers st' = vx_timers st" "tt_call_id task \<noteq> cid \<or> (\<forall>r. p \<noteq> Sending r)"
    for p and st' :: "'a call_server_scheme"
    using quiet_goto [of cid st' t task p] quiet_same [OF assms(1) that(1,2)] that(2,3) assms(2) by simp
  have c: "no_answer_timer_should_continue (tt_call_id task) (vx_no_answer st) \<Longrightarrow> tt_call_id task \<noteq> cid"
    "claim_no_answer_timer_to_fire (tt_call_id task) (vx_no_answer st) = (True, timers) \<Longrightarrow>
      tt_call_id task \<noteq> cid \<and> timers = hm_put (tt_call_id task) Firing (vx_no_answer st)" for timers
    using assms(1) by (auto simp: timer_quiet_def no_answer_timer_should_continue_def claim_no_answer_timer_to_fire_def
        split: option.splits no_answer_entry.splits)
  have s: "timer_quiet cid (timer_goto t Claimed (st\<lparr>vx_no_answer := timers\<rparr>))"
    if "claim_no_answer_timer_to_fire (tt_call_id task) (vx_no_answer st) = (True, timers)" for timers
    using c(2) [OF that] quiet_goto [of cid "st\<lparr>vx_no_answer := timers\<rparr>" t task Claimed] quiet_put [OF assms(1)] assms(2) by simp
  have f: "timer_quiet cid (abort_timer t (finish_no_answer_timer c st))" for c
    unfolding finish_no_answer_timer_def by (intro quiet_abort quiet_del assms(1))
  obtain r st' where p: "handle_delivery_invite cfg (cw_vm w) (tt_msg task) (tt_callee task) st = (r, st')" by force
  note d = delivery_timers [of cfg "cw_vm w" "tt_msg task" "tt_callee task" st]
  have a: "timer_quiet cid (abort_timer t st')" using quiet_abort [OF quiet_same [OF assms(1)]] d p by simp
  show ?thesis using assms(1) g g [of st'] c(1) s f a d p quiet_abort [OF assms(1)]
    by (auto simp: timer_at_def Let_def frame_simps split: timer_place.split outcome.split bool.split prod.split)
qed

lemma timer_step_quiet: "timer_quiet cid st \<Longrightarrow> timer_quiet cid (timer_step cfg w t st)"
  by (simp add: timer_step_def timer_at_quiet split: option.split)

section \<open>An undisturbed timer\<close>

lemma delivery_result_cong:
  fixes st st' :: "'a voicemail_server_scheme"
  assumes "vx_recording st' = vx_recording st" "sv_accounts st' = sv_accounts st" "vx_boxes st' = vx_boxes st"
    "vx_messages st' = vx_messages st" "vx_media st' = vx_media st"
  shows "fst (handle_delivery_invite cfg w msg callee st') = fst (handle_delivery_invite cfg w msg callee st)"
proof -
  have l: "lookup_enabled_box env u d (st'\<lparr>vx_recording := r\<rparr>) = lookup_enabled_box env u d (st\<lparr>vx_recording := r\<rparr>)"
    "mailbox_is_full env b n (st'\<lparr>vx_recording := r\<rparr>) = mailbox_is_full env b n (st\<lparr>vx_recording := r\<rparr>)"
    "caller_account_exists env u d (st'\<lparr>vx_recording := r\<rparr>) = caller_account_exists env u d (st\<lparr>vx_recording := r\<rparr>)" for env u d r b n
    using assms by (simp_all add: lookup_enabled_box_def mailbox_is_full_def caller_account_exists_def)
  show ?thesis
    using assms(1,5)
    by (auto simp: handle_delivery_invite_def delivery_to_box_def delivery_established_def Let_def track_recording_candidate_def
        duplicate_candidate_response_def l split: option.split outcome.split bool.split prod.split)
qed

lemma vm_negotiate_no_panic: "vm_negotiate_offer sdp \<noteq> Panic"
  by (simp add: vm_negotiate_offer_def Let_def split: prod.split option.split)

lemma vm_allocate_no_panic: "vm_allocate os cid codec pt te s \<noteq> (Panic, s')"
  by (auto simp: vm_allocate_def validate_payload_type_def vm_bind_socket_def Let_def split: option.split outcome.split prod.split if_splits)

lemma delivery_no_panic: "fst (handle_delivery_invite cfg w msg callee st) \<noteq> Panic"
  using vm_negotiate_no_panic vm_allocate_no_panic
  by (auto simp: handle_delivery_invite_def delivery_to_box_def delivery_established_def Let_def track_recording_candidate_def
        duplicate_candidate_response_def caller_account_exists_def mailbox_is_full_def split: option.split outcome.split bool.split prod.split)

definition no_answer_cancel :: "sip_config \<Rightarrow> call_world \<Rightarrow> timer_task \<Rightarrow> string" where
  "no_answer_cancel cfg w task =
     build_forwarded_cancel_for_target (cw_md5 w) (tt_msg task) (tt_target_uri task) (tt_max_fwd task) (cfg_sip_domain cfg)"

text \<open>The answer a delivery gives the caller.\<close>

definition delivery_answer :: "sip_config \<Rightarrow> voicemail_world \<Rightarrow> sip_message \<Rightarrow> string \<Rightarrow> 'a voicemail_server_scheme \<Rightarrow> string" where
  "delivery_answer cfg w msg callee st =
     (case fst (handle_delivery_invite cfg w msg callee st) of Ok r \<Rightarrow> r | _ \<Rightarrow> build (base_response msg 500 ''Internal Server Error''))"

lemma timer_fires:
  assumes "hm_get (vx_timers st) t = Some task" "tt_place task = Sleeping" "tt_wake task \<le> ev_instant (cw_env w)"
    and "hm_get (vx_no_answer st) (tt_call_id task) = Some (Ringing t)"
    and "hm_get (sv_streams st) (tt_target_addr task) = None" "\<not> ev_send_fails (cw_env w) (tt_target_addr task)"
  shows "(timer_step cfg w t ^^ 4) st = timer_goto t Delivering (drop_call (tt_call_id task)
    (st\<lparr>vx_no_answer := hm_put (tt_call_id task) Firing (vx_no_answer st),
        sv_outbox := sv_outbox st @ [(tt_target_addr task, no_answer_cancel cfg w task)]\<rparr>))"
proof -
  have adj: "hm_adjust t f (hm_adjust t g m) = hm_adjust t (f \<circ> g) m" for f g :: "timer_task \<Rightarrow> timer_task" and m
    by (induction m) (auto simp: hm_adjust_def)
  show ?thesis
    using assms
    by (simp add: numeral_eq_Suc timer_step_def timer_at_def timer_goto_def Let_def claim_no_answer_timer_to_fire_def send_sip_def
        transport_send_def udp_send_def no_answer_timer_should_continue_def hm.get_put drop_call_def adj comp_def no_answer_cancel_def)
qed

lemma timer_answers:
  assumes "hm_get (vx_timers st) t = Some task" "tt_place task = Delivering" "hm_get (vx_no_answer st) (tt_call_id task) = Some Firing"
    and "hm_get (sv_streams st) (tt_src task) = None" "\<not> ev_send_fails (cw_env w) (tt_src task)"
  shows "sv_outbox ((timer_step cfg w t ^^ 4) st) = sv_outbox st @ [(tt_src task, delivery_answer cfg (cw_vm w) (tt_msg task) (tt_callee task) st)]"
    "hm_get (vx_no_answer ((timer_step cfg w t ^^ 4) st)) (tt_call_id task) = None"
    "hm_get (vx_timers ((timer_step cfg w t ^^ 4) st)) t = None"
    "voicemail_server.more ((timer_step cfg w t ^^ 4) st) = voicemail_server.more st"
proof -
  obtain res st' where p: "handle_delivery_invite cfg (cw_vm w) (tt_msg task) (tt_callee task) st = (res, st')" by force
  note d = delivery_timers [of cfg "cw_vm w" "tt_msg task" "tt_callee task" st, unfolded p, simplified]
  define r where "r = delivery_answer cfg (cw_vm w) (tt_msg task) (tt_callee task) st"
  have "res \<noteq> Panic" using delivery_no_panic [of cfg "cw_vm w" "tt_msg task" "tt_callee task" st] p by simp
  then have "timer_step cfg w t st = timer_goto t (Answering r) st'"
    using assms(1,2) p by (auto simp: timer_step_def timer_at_def Let_def r_def delivery_answer_def split: outcome.split)
  then have f: "(timer_step cfg w t ^^ 4) st = abort_timer t (finish_no_answer_timer (tt_call_id task)
     (timer_goto t Finishing (timer_goto t (Sending r) (timer_goto t (Answering r) (st'\<lparr>sv_outbox := sv_outbox st @ [(tt_src task, r)]\<rparr>)))))"
    using assms d
    by (simp add: numeral_eq_Suc timer_step_def timer_at_def timer_goto_def Let_def send_sip_def
        transport_send_def udp_send_def no_answer_timer_should_continue_def)
  show "sv_outbox ((timer_step cfg w t ^^ 4) st) = sv_outbox st @ [(tt_src task, delivery_answer cfg (cw_vm w) (tt_msg task) (tt_callee task) st)]"
    "hm_get (vx_no_answer ((timer_step cfg w t ^^ 4) st)) (tt_call_id task) = None"
    "hm_get (vx_timers ((timer_step cfg w t ^^ 4) st)) t = None"
    "voicemail_server.more ((timer_step cfg w t ^^ 4) st) = voicemail_server.more st"
    unfolding f r_def [symmetric] by (simp_all add: abort_timer_def finish_no_answer_timer_def timer_goto_def hm.get_del d)
qed

text \<open>
  C11: An undisturbed no-answer timer gives the call to voicemail. When a timer wakes whose entry still rings, eight steps
  of its task send the CANCEL to the callee and then the answer of the voicemail delivery to the caller, in this order and
  nothing else, and leave no task, no timer entry, no dialog, no relayed media and no WebRTC session of the call.
\<close>

theorem no_answer_delivers:
  fixes st :: "'a call_server_scheme"
  assumes "hm_get (vx_timers st) t = Some task" "tt_place task = Sleeping" "tt_wake task \<le> ev_instant (cw_env w)"
    and "hm_get (vx_no_answer st) (tt_call_id task) = Some (Ringing t)"
    and "hm_get (sv_streams st) (tt_target_addr task) = None" "\<not> ev_send_fails (cw_env w) (tt_target_addr task)"
    and "hm_get (sv_streams st) (tt_src task) = None" "\<not> ev_send_fails (cw_env w) (tt_src task)"
  shows "let st' = (timer_step cfg w t ^^ 8) st in sv_outbox st' = sv_outbox st @ [(tt_target_addr task, no_answer_cancel cfg w task),
      (tt_src task, delivery_answer cfg (cw_vm w) (tt_msg task) (tt_callee task) st)] \<and>
    hm_get (vx_timers st') t = None \<and> hm_get (vx_no_answer st') (tt_call_id task) = None \<and> call_gone (tt_call_id task) st'"
proof -
  let ?cid = "tt_call_id task"
  define st' where "st' = (timer_step cfg w t ^^ 8) st"
  define s4 where "s4 = timer_goto t Delivering (drop_call ?cid (st\<lparr>vx_no_answer := hm_put ?cid Firing (vx_no_answer st),
    sv_outbox := sv_outbox st @ [(tt_target_addr task, no_answer_cancel cfg w task)]\<rparr>))"
  have s4: "(timer_step cfg w t ^^ 4) st = s4" using timer_fires [OF assms(1-6)] s4_def by simp
  have st': "st' = (timer_step cfg w t ^^ 4) s4" using funpow_add [of 4 4 "timer_step cfg w t", THEN fun_cong, of st] unfolding st'_def by (simp only: s4 [symmetric] comp_apply numeral_Bit0 [symmetric] numeral_plus_numeral add_num_simps)
  have f: "hm_get (vx_timers s4) t = Some (task\<lparr>tt_place := Delivering\<rparr>)" "hm_get (vx_no_answer s4) ?cid = Some Firing"
    "sv_streams s4 = sv_streams st" "sv_outbox s4 = sv_outbox st @ [(tt_target_addr task, no_answer_cancel cfg w task)]"
    "call_gone ?cid s4"
    using assms(1) drop_call_gone [of ?cid] by (simp_all add: s4_def timer_goto_def drop_call_def hm.get_put call_gone_def hm.get_del)
  have a: "delivery_answer cfg (cw_vm w) (tt_msg task) (tt_callee task) s4 = delivery_answer cfg (cw_vm w) (tt_msg task) (tt_callee task) st"
    unfolding delivery_answer_def
    by (subst delivery_result_cong [of s4 st]) (simp_all add: s4_def timer_goto_def drop_call_def)
  note ans = timer_answers [of s4 t "task\<lparr>tt_place := Delivering\<rparr>" w cfg, simplified, OF f(1,2)]
  show ?thesis
    using ans assms(7,8) f(3-5) a call_server_more [of st' s4] unfolding st' [symmetric] by (simp add: call_gone_def st'_def [symmetric] Let_def)
qed

definition example_task :: timer_task where
  "example_task = \<lparr>tt_call_id = ''c2'', tt_msg = example_delivery, tt_src = \<lparr>sa_ip = Ipv4 192 0 2 9, sa_port = 5062\<rparr>, tt_target_addr = listener_source,
     tt_target_uri = ''sip:1001@192.0.2.3'', tt_callee = ''1001'', tt_max_fwd = 69, tt_wake = 0, tt_place = Sleeping\<rparr>"

theorem no_answer_delivers_witness:
  "let st' = (timer_step example_config example_call_world 0 ^^ 8)
       (example_calls\<lparr>vx_timers := [(0, example_task)], vx_no_answer := [(''c2'', Ringing 0)]\<rparr>)
   in length (sv_outbox st') = 2 \<and> hm_get (vx_timers st') 0 = None \<and> call_gone ''c2'' st'"
proof -
  have "example_env = vw_env example_world" "ev_send_fails example_env = (\<lambda>a. False)" by (simp_all add: example_world_def example_env_def)
  then show ?thesis
    using no_answer_delivers [of "example_calls\<lparr>vx_timers := [(0, example_task)], vx_no_answer := [(''c2'', Ringing 0)]\<rparr>" 0 example_task
        example_call_world example_config] by (simp add: Let_def example_task_def)
qed

end
