(* ===== verification/Proxy.thy ===== *)
theory Proxy
  imports No_Answer "HOL-Library.Multiset"
begin

text \<open>
  Call routing, \<open>proxy.rs\<close>: INVITE to the registered address of the callee with media through the relay or the
  WebRTC gateway, the requests inside a dialog, and instant messages. A handler is one step; each of its SQL
  statements and sends can fail as the environment says. \<open>SELECT \<dots> LIMIT 1\<close> gives the first row of the table.
\<close>

section \<open>INVITE\<close>

definition INVITE_AUTO_BAN_DESCRIPTION :: string where
  "INVITE_AUTO_BAN_DESCRIPTION = ''auto-ban: invalid sip invite abuse''"

definition reject_invalid_invite ::
  "sip_config \<Rightarrow> env \<Rightarrow> sip_message \<Rightarrow> socket_addr \<Rightarrow> string option \<Rightarrow> string \<Rightarrow> 'a call_server_scheme
    \<Rightarrow> (string, string) outcome \<times> 'a call_server_scheme" where
  "reject_invalid_invite cfg env msg src caller detail st =
     (let source_ip = show_ip (sa_ip src);
          (blocked, g) = record_failure (ev_instant env) (ev_instant env) SipInvite source_ip caller (cs_invite_guard st);
          st = st\<lparr>cs_invite_guard := g\<rparr>;
          st = persist_security_event env SipInvite InviteRejected source_ip caller detail st;
          st = (if blocked \<and> cfg_persist_acl_bans cfg
                then persist_security_event env SipInvite IpBlocked source_ip caller ''invite source blocked by threshold''
                       (persist_ban cfg env (sa_ip src) INVITE_AUTO_BAN_DESCRIPTION st)
                else st)
      in (Ok (build (base_response msg 403 ''Forbidden'')), st))"

definition refresh_sender_registration_source ::
  "env \<Rightarrow> string \<Rightarrow> string \<Rightarrow> socket_addr \<Rightarrow> 'a server_state_scheme \<Rightarrow> (string, unit) outcome \<times> 'a server_state_scheme" where
  "refresh_sender_registration_source env username domain src st =
     (if ev_fails env SelectSource then (Err db_error, st)
      else case live_registration env username domain st of
             None \<Rightarrow> (Ok (), st)
           | Some r \<Rightarrow>
               if \<not> should_refresh_registration_source (rg_source_ip r) (rg_source_port r) src then (Ok (), st)
               else if ev_fails env UpdateSource then (Err db_error, st)
               else (Ok (), st\<lparr>sv_registrations := hm_adjust (username, domain) (\<lambda>r. r\<lparr>rg_source_port := sa_port src\<rparr>) (sv_registrations st)\<rparr>))"

definition has_video :: "string \<Rightarrow> bool" where
  "has_video body = list_ex (\<lambda>m. md_kind m = Video \<and> md_active m) (parse_sdp_media_sections body)"

text \<open>The peers of a WebRTC session that are read from plain SDP.\<close>

definition learn_video_peer :: "string \<Rightarrow> string \<Rightarrow> webrtc_gateway \<Rightarrow> webrtc_gateway" where
  "learn_video_peer cid sdp g =
     (case (sdp_connection_ip sdp, sdp_video_port sdp) of
        (Some ip, Some video_port) \<Rightarrow>
          (case parse_socket_addr (ip @ '':'' @ show_uint video_port) of
             Some video_addr \<Rightarrow> set_sip_video_peer cid video_addr g
           | None \<Rightarrow> g)
      | _ \<Rightarrow> g)"

definition reverse_bridge ::
  "call_world \<Rightarrow> string \<Rightarrow> string \<Rightarrow> 'a call_server_scheme \<Rightarrow> (string, string option) outcome \<times> 'a call_server_scheme" where
  "reverse_bridge w cid body st =
     (case create_session_for_sip_caller (cw_rtc w) (gateway_os w st) (ev_instant (cw_env w)) (ev_utc (cw_env w)) cid (has_video body) (cs_webrtc st) of
        (Ok (webrtc_offer_sdp, _, _), g) \<Rightarrow>
          (let g = (case sdp_rtp_addr body of Some sip_addr \<Rightarrow> set_sip_peer cid sip_addr g | None \<Rightarrow> g)
           in (Ok (Some webrtc_offer_sdp), st\<lparr>cs_webrtc := learn_video_peer cid body g\<rparr>))
      | (Err e, g) \<Rightarrow> (Ok None, st\<lparr>cs_webrtc := g\<rparr>)
      | (Panic, g) \<Rightarrow> (Panic, st\<lparr>cs_webrtc := g\<rparr>))"

definition browser_bridge ::
  "sip_config \<Rightarrow> call_world \<Rightarrow> string \<Rightarrow> string \<Rightarrow> 'a call_server_scheme \<Rightarrow> (string, string option) outcome \<times> 'a call_server_scheme" where
  "browser_bridge cfg w cid body st =
     (case create_session (cw_rtc w) (gateway_os w st) (ev_instant (cw_env w)) cid body (has_video body) (cs_webrtc st) of
        (Ok (_, sip_audio_port, sip_video_port), g) \<Rightarrow>
          (Ok (Some (make_plain_rtp_sdp (ev_utc (cw_env w)) (cfg_public_ip cfg) sip_audio_port sip_video_port)), st\<lparr>cs_webrtc := g\<rparr>)
      | (Err e, g) \<Rightarrow> (Ok None, st\<lparr>cs_webrtc := g\<rparr>)
      | (Panic, g) \<Rightarrow> (Panic, st\<lparr>cs_webrtc := g\<rparr>))"

definition plain_relay ::
  "call_world \<Rightarrow> string \<Rightarrow> string \<Rightarrow> 'a call_server_scheme \<Rightarrow> (string, string option) outcome \<times> 'a call_server_scheme" where
  "plain_relay w cid body st =
     (if body = [] then (Ok None, st)
      else let media = parse_sdp_media_sections body in
        if \<not> list_ex md_active media then (Ok None, st)
        else case allocate_session_for_media (relay_os w st) (ev_instant (cw_env w)) cid media (cs_relay st) of
               (Ok ports, r) \<Rightarrow>
                 (Ok (Some (rewrite_sdp_media body (mr_public_ip r) (map (\<lambda>p. (rp_media_index p, rp_port_a p)) ports))), st\<lparr>cs_relay := r\<rparr>)
             | (Err e, r) \<Rightarrow> (Ok None, st\<lparr>cs_relay := r\<rparr>)
             | (Panic, r) \<Rightarrow> (Panic, st\<lparr>cs_relay := r\<rparr>))"

definition invite_media ::
  "sip_config \<Rightarrow> call_world \<Rightarrow> string \<Rightarrow> string \<Rightarrow> bool \<Rightarrow> string \<Rightarrow> 'a call_server_scheme
    \<Rightarrow> (string, string option) outcome \<times> 'a call_server_scheme" where
  "invite_media cfg w cid contact_uri callee_is_stream body st =
     (if should_preserve_webrtc_sdp_for_target contact_uri body then (Ok None, st)
      else if callee_is_stream \<and> should_bridge_plain_sip_to_websocket_target contact_uri body then reverse_bridge w cid body st
      else if body \<noteq> [] \<and> is_webrtc_sdp body then browser_bridge cfg w cid body st
      else plain_relay w cid body st)"

text \<open>The call as it is recorded before its media are set up.\<close>

definition record_call ::
  "env \<Rightarrow> string \<Rightarrow> string \<Rightarrow> string \<Rightarrow> 'a call_server_scheme \<Rightarrow> 'a call_server_scheme" where
  "record_call env cid caller callee st =
     (if ev_fails env UpsertCall then st
      else st\<lparr>cs_calls := (case hm_get (cs_calls st) cid of
            None \<Rightarrow> hm_put cid \<lparr>sc_caller = caller, sc_callee = callee, sc_status = CallTrying, sc_started_at = ev_utc env,
              sc_answered_at = None, sc_ended_at = None\<rparr> (cs_calls st)
          | Some _ \<Rightarrow> hm_adjust cid (\<lambda>c. c\<lparr>sc_status := CallTrying, sc_started_at := ev_utc env\<rparr>) (cs_calls st))\<rparr>)"

definition open_dialog :: "string \<Rightarrow> sip_message \<Rightarrow> socket_addr \<Rightarrow> socket_addr \<Rightarrow> 'a call_server_scheme \<Rightarrow> 'a call_server_scheme" where
  "open_dialog cid msg src target_addr st =
     st\<lparr>cs_pending := hm_put cid src (cs_pending st), cs_invites := hm_put cid msg (cs_invites st),
        cs_active := hm_put cid \<lparr>di_caller_addr = src, di_callee_addr = target_addr, di_caller_is_stream = transport_contains src st,
          di_callee_is_stream = transport_contains target_addr st\<rparr> (cs_active st)\<rparr>"

text \<open>\<open>handle_invite\<close> once the address of the callee is known.\<close>

definition invite_target ::
  "sip_config \<Rightarrow> call_world \<Rightarrow> sip_message \<Rightarrow> socket_addr \<Rightarrow> string \<Rightarrow> string \<Rightarrow> string \<Rightarrow> u32 \<Rightarrow> mailbox_settings option \<Rightarrow> string \<Rightarrow> socket_addr
    \<Rightarrow> 'a call_server_scheme \<Rightarrow> (string, string) outcome \<times> 'a call_server_scheme" where
  "invite_target cfg w msg src caller callee cid max_fwd mailbox contact_uri target_addr st =
     (let env = cw_env w; domain = cfg_sip_domain cfg;
          callee_is_stream = transport_contains target_addr st;
          st = record_call env cid (caller @ ''@'' @ domain) (callee @ ''@'' @ domain) st;
          st = open_dialog cid msg src target_addr st
      in case invite_media cfg w cid contact_uri callee_is_stream (m_body msg) st of
           (Ok rewritten_body, st) \<Rightarrow>
             (let target_uri = registered_target_uri callee contact_uri target_addr;
                  forwarded = build_forwarded_invite_for_target (cw_md5 w) msg target_uri (max_fwd - 1) domain rewritten_body
              in case send_sip env forwarded target_addr st of
                   (Ok _, st) \<Rightarrow>
                     (Ok (build (base_response msg 100 ''Trying'')),
                      (case mailbox of None \<Rightarrow> st
                       | Some b \<Rightarrow> start_no_answer_timer env msg src target_addr target_uri callee (mb_no_answer_secs b) st))
                 | (Err e, st) \<Rightarrow> (Err e, st)
                 | (Panic, st) \<Rightarrow> (Panic, st))
         | (Err e, st) \<Rightarrow> (Err e, st)
         | (Panic, st) \<Rightarrow> (Panic, st))"

text \<open>\<open>handle_invite\<close> for a known caller.\<close>

definition invite_callee ::
  "sip_config \<Rightarrow> call_world \<Rightarrow> sip_message \<Rightarrow> socket_addr \<Rightarrow> string \<Rightarrow> string \<Rightarrow> string \<Rightarrow> u32
    \<Rightarrow> 'a call_server_scheme \<Rightarrow> (string, string) outcome \<times> 'a call_server_scheme" where
  "invite_callee cfg w msg src caller callee cid max_fwd st =
     (let env = cw_env w; domain = cfg_sip_domain cfg in
      if ev_fails env SelectTarget then (Err db_error, st)
      else case live_registration env callee domain st of
             None \<Rightarrow>
               (case lookup_enabled_box env callee domain st of
                  Some _ \<Rightarrow> handle_delivery_invite cfg (cw_vm w) msg callee st
                | None \<Rightarrow> (Ok (build (base_response msg 404 ''Not Found'')), st))
           | Some r \<Rightarrow>
               (let mailbox = lookup_enabled_box env callee domain st in
                case parse_socket_addr (rg_source_ip r @ '':'' @ show_uint (rg_source_port r)) of
                  None \<Rightarrow> (Err ''invalid socket address syntax'', st)
                | Some target_addr \<Rightarrow>
                    invite_target cfg w msg src caller callee cid max_fwd mailbox (rg_contact_uri r) target_addr st))"

definition invite_caller :: "sip_message \<Rightarrow> string" where
  "invite_caller msg = (case Option.bind (Option.bind (from_header msg) extract_uri) uri_username of None \<Rightarrow> ''unknown'' | Some u \<Rightarrow> u)"

definition message_call_id :: "sip_message \<Rightarrow> string" where
  "message_call_id msg = (case call_id msg of None \<Rightarrow> [] | Some c \<Rightarrow> c)"

definition request_user :: "sip_message \<Rightarrow> string" where
  "request_user msg = (case uri_username (case m_request_uri msg of None \<Rightarrow> [] | Some u \<Rightarrow> u) of None \<Rightarrow> [] | Some u \<Rightarrow> u)"

definition proxy_invite ::
  "sip_config \<Rightarrow> call_world \<Rightarrow> sip_message \<Rightarrow> socket_addr \<Rightarrow> 'a call_server_scheme \<Rightarrow> (string, string) outcome \<times> 'a call_server_scheme" where
  "proxy_invite cfg w msg src st =
     (let env = cw_env w;
          callee = request_user msg;
          caller = invite_caller msg;
          cid = message_call_id msg;
          domain = cfg_sip_domain cfg;
          source_ip = show_ip (sa_ip src);
          max_fwd = max_forwards msg
      in if callee = [] then (Ok (build (base_response msg 400 ''Bad Request'')), st)
         else if max_fwd = 0 then (Ok (build (base_response msg 483 ''Too Many Hops'')), st)
         else
           let (blocked, g) = is_blocked (ev_instant env) source_ip (cs_invite_guard st);
               st = st\<lparr>cs_invite_guard := g\<rparr>
           in if blocked then (Ok (build (base_response msg 403 ''Forbidden'')), st)
              else if caller = ''unknown''
              then reject_invalid_invite cfg env msg src None ''invite rejected: missing caller identity'' st
              else case caller_account_exists env caller domain st of
                     Err e \<Rightarrow> (Err e, st)
                   | Panic \<Rightarrow> (Panic, st)
                   | Ok False \<Rightarrow>
                       reject_invalid_invite cfg env msg src (Some caller)
                         (''invite rejected: unrecognised caller '' @ caller @ ''@'' @ domain) st
                   | Ok True \<Rightarrow>
                       (case refresh_sender_registration_source env caller domain src st of
                          (Ok _, st) \<Rightarrow> invite_callee cfg w msg src caller callee cid max_fwd st
                        | (Err e, st) \<Rightarrow> (Err e, st)
                        | (Panic, st) \<Rightarrow> (Panic, st)))"

section \<open>Requests inside a dialog\<close>

definition other_party :: "socket_addr \<Rightarrow> dialog_info \<Rightarrow> socket_addr" where
  "other_party src d = (if src = di_caller_addr d then di_callee_addr d else di_caller_addr d)"

definition lookup_registered_target :: "env \<Rightarrow> string \<Rightarrow> string \<Rightarrow> 'a server_state_scheme \<Rightarrow> socket_addr option" where
  "lookup_registered_target env username domain st =
     (if ev_fails env SelectTarget then None
      else case live_registration env username domain st of
             None \<Rightarrow> None
           | Some r \<Rightarrow> parse_socket_addr (rg_source_ip r @ '':'' @ show_uint (rg_source_port r)))"

definition update_call :: "env \<Rightarrow> string \<Rightarrow> (sip_call \<Rightarrow> sip_call) \<Rightarrow> 'a call_server_scheme \<Rightarrow> 'a call_server_scheme" where
  "update_call env cid f st = (if ev_fails env UpdateCall then st else st\<lparr>cs_calls := hm_adjust cid f (cs_calls st)\<rparr>)"

text \<open>The fallback of \<open>handle_ack\<close> and \<open>handle_bye\<close>: the registered address of the user in the request URI.\<close>

definition forward_by_uri :: "sip_config \<Rightarrow> env \<Rightarrow> sip_message \<Rightarrow> 'a call_server_scheme \<Rightarrow> 'a call_server_scheme" where
  "forward_by_uri cfg env msg st =
     (let callee = request_user msg in
      if callee = [] then st
      else case lookup_registered_target env callee (cfg_sip_domain cfg) st of
             None \<Rightarrow> st
           | Some target \<Rightarrow> snd (send_sip env (m_raw msg) target st))"

definition proxy_ack :: "sip_config \<Rightarrow> env \<Rightarrow> sip_message \<Rightarrow> 'a call_server_scheme \<Rightarrow> 'a call_server_scheme" where
  "proxy_ack cfg env msg st =
     (let cid = message_call_id msg;
          st = snd (cancel_no_answer_timer cid st);
          st = update_call env cid (\<lambda>c. c\<lparr>sc_status := CallAnswered, sc_answered_at := Some (ev_utc env)\<rparr>) st
      in case hm_get (cs_active st) cid of
           Some d \<Rightarrow> snd (send_sip env (m_raw msg) (di_callee_addr d) st)
         | None \<Rightarrow> forward_by_uri cfg env msg st)"

definition proxy_bye ::
  "sip_config \<Rightarrow> env \<Rightarrow> sip_message \<Rightarrow> socket_addr \<Rightarrow> 'a call_server_scheme \<Rightarrow> (string, string) outcome \<times> 'a call_server_scheme" where
  "proxy_bye cfg env msg src st =
     (let cid = message_call_id msg;
          st = snd (cancel_no_answer_timer cid st);
          st = update_call env cid (\<lambda>c. c\<lparr>sc_status := CallEnded, sc_ended_at := Some (ev_utc env)\<rparr>) st;
          forward_addr = map_option (other_party src) (hm_get (cs_active st) cid);
          st = drop_call cid st;
          st = (case forward_addr of
                  Some target \<Rightarrow> snd (send_sip env (m_raw msg) target st)
                | None \<Rightarrow> forward_by_uri cfg env msg st)
      in (Ok (build (base_response msg 200 ''OK'')), st))"

definition contact_at :: "env \<Rightarrow> socket_addr \<Rightarrow> 'a server_state_scheme \<Rightarrow> string option" where
  "contact_at env target st =
     (if ev_fails env SelectContact then None
      else map_option (\<lambda>(_, r). rg_contact_uri r)
             (find (\<lambda>(_, r). rg_source_ip r = show_ip (sa_ip target) \<and> rg_source_port r = sa_port target \<and> ev_utc env < rg_expires_at r)
                (sv_registrations st)))"

definition cancel_target_uri :: "sip_config \<Rightarrow> env \<Rightarrow> sip_message \<Rightarrow> socket_addr \<Rightarrow> 'a server_state_scheme \<Rightarrow> string" where
  "cancel_target_uri cfg env msg target st =
     (case contact_at env target st of
        Some uri \<Rightarrow> uri
      | None \<Rightarrow> (case m_request_uri msg of Some uri \<Rightarrow> uri | None \<Rightarrow> ''sip:'' @ request_user msg @ ''@'' @ cfg_sip_domain cfg))"

definition proxy_cancel ::
  "sip_config \<Rightarrow> call_world \<Rightarrow> sip_message \<Rightarrow> 'a call_server_scheme \<Rightarrow> (string, string) outcome \<times> 'a call_server_scheme" where
  "proxy_cancel cfg w msg st =
     (let env = cw_env w;
          cid = message_call_id msg;
          st = snd (cancel_no_answer_timer_for_caller_cancel cid st);
          st = update_call env cid (\<lambda>c. c\<lparr>sc_status := CallCancelled, sc_ended_at := Some (ev_utc env)\<rparr>) st;
          st = (case hm_get (cs_active st) cid of
                  Some d \<Rightarrow>
                    (let target = di_callee_addr d;
                         forwarded = build_forwarded_cancel_for_target (cw_md5 w) msg (cancel_target_uri cfg env msg target st)
                           (saturating_dec (max_forwards msg)) (cfg_sip_domain cfg)
                     in snd (send_sip env forwarded target st))
                | None \<Rightarrow> st);
          st = drop_call cid st
      in (Ok (build (base_response msg 200 ''OK'')), st))"

definition proxy_refer ::
  "env \<Rightarrow> sip_message \<Rightarrow> socket_addr \<Rightarrow> 'a call_server_scheme \<Rightarrow> (string, string) outcome \<times> 'a call_server_scheme" where
  "proxy_refer env msg src st =
     (case hm_get (cs_active st) (message_call_id msg) of
        Some d \<Rightarrow> (Ok (build (base_response msg 202 ''Accepted'')), snd (send_sip env (m_raw msg) (other_party src d) st))
      | None \<Rightarrow> (Ok (build (base_response msg 481 ''Call/Transaction Does Not Exist'')), st))"

text \<open>\<open>handle_notify\<close> and \<open>handle_info\<close>, which are the same.\<close>

definition proxy_in_dialog ::
  "env \<Rightarrow> sip_message \<Rightarrow> socket_addr \<Rightarrow> 'a call_server_scheme \<Rightarrow> (string, string) outcome \<times> 'a call_server_scheme" where
  "proxy_in_dialog env msg src st =
     (Ok (build (base_response msg 200 ''OK'')),
      (case hm_get (cs_active st) (message_call_id msg) of
         Some d \<Rightarrow> snd (send_sip env (m_raw msg) (other_party src d) st)
       | None \<Rightarrow> st))"

section \<open>MESSAGE\<close>

definition persist_message ::
  "env \<Rightarrow> sip_message \<Rightarrow> string \<Rightarrow> string \<Rightarrow> string \<Rightarrow> string \<Rightarrow> 'a call_server_scheme \<Rightarrow> 'a call_server_scheme" where
  "persist_message env msg sender receiver status source_ip st =
     (if ev_fails env InsertMessage then st
      else st\<lparr>cs_messages := cs_messages st @
        [\<lparr>sm_message_id = header msg ''message-id'', sm_call_id = call_id msg, sm_sender = sender, sm_receiver = receiver,
          sm_content_type = (case header msg ''content-type'' of None \<Rightarrow> ''text/plain'' | Some c \<Rightarrow> c), sm_body = m_body msg,
          sm_status = status, sm_source_ip = source_ip,
          sm_delivered_at = (if status = ''delivered'' then Some (ev_utc env) else None)\<rparr>]\<rparr>)"

definition message_callee :: "sip_message \<Rightarrow> string" where
  "message_callee msg =
     (case Option.bind (m_request_uri msg) uri_username of
        Some (c # cs) \<Rightarrow> c # cs
      | _ \<Rightarrow> (case Option.bind (Option.bind (to_header msg) extract_uri) uri_username of None \<Rightarrow> [] | Some u \<Rightarrow> u))"

definition message_target :: "sip_config \<Rightarrow> env \<Rightarrow> sip_message \<Rightarrow> socket_addr \<Rightarrow> 'a call_server_scheme \<Rightarrow> socket_addr option" where
  "message_target cfg env msg src st =
     (let cid = message_call_id msg in
      case (if cid = [] then None else map_option (other_party src) (hm_get (cs_active st) cid)) of
        Some addr \<Rightarrow> Some addr
      | None \<Rightarrow> lookup_registered_target env (message_callee msg) (cfg_sip_domain cfg) st)"

text \<open>\<open>handle_message\<close> for a known sender.\<close>

definition message_from ::
  "sip_config \<Rightarrow> env \<Rightarrow> sip_message \<Rightarrow> socket_addr \<Rightarrow> string \<Rightarrow> 'a call_server_scheme \<Rightarrow> (string, string) outcome \<times> 'a call_server_scheme" where
  "message_from cfg env msg src sender st =
     (let domain = cfg_sip_domain cfg;
          callee = message_callee msg;
          sender_aor = sender @ ''@'' @ domain;
          callee_aor = callee @ ''@'' @ domain;
          source_ip = show_ip (sa_ip src);
          respond = (\<lambda>status reason. Ok (build (base_response msg status reason)))
      in if callee = [] then (respond 400 ''Bad Request'', st)
         else case message_target cfg env msg src st of
                None \<Rightarrow> (respond 404 ''Not Found'', persist_message env msg sender_aor callee_aor ''failed'' source_ip st)
              | Some target_addr \<Rightarrow>
                  (case send_sip env (m_raw msg) target_addr st of
                     (Ok _, st) \<Rightarrow> (respond 200 ''OK'', persist_message env msg sender_aor callee_aor ''delivered'' source_ip st)
                   | (Err e, st) \<Rightarrow>
                       (respond 500 ''Internal Server Error'', persist_message env msg sender_aor callee_aor ''failed'' source_ip st)
                   | (Panic, st) \<Rightarrow> (Panic, st)))"

definition proxy_message ::
  "sip_config \<Rightarrow> env \<Rightarrow> sip_message \<Rightarrow> socket_addr \<Rightarrow> 'a call_server_scheme \<Rightarrow> (string, string) outcome \<times> 'a call_server_scheme" where
  "proxy_message cfg env msg src st =
     (let domain = cfg_sip_domain cfg;
          sender = (case Option.bind (Option.bind (from_header msg) extract_uri) uri_username of None \<Rightarrow> [] | Some u \<Rightarrow> u)
      in if sender = [] then (Ok (build (base_response msg 400 ''Bad Request'')), st)
         else case caller_account_exists env sender domain st of
                Err e \<Rightarrow> (Err e, st)
              | Panic \<Rightarrow> (Panic, st)
              | Ok False \<Rightarrow> (Ok (build (base_response msg 403 ''Forbidden'')), st)
              | Ok True \<Rightarrow>
                  (case refresh_sender_registration_source env sender domain src st of
                     (Ok _, st) \<Rightarrow> message_from cfg env msg src sender st
                   | (Err e, st) \<Rightarrow> (Err e, st)
                   | (Panic, st) \<Rightarrow> (Panic, st)))"

section \<open>What the helpers leave alone\<close>

lemma voicemail_more:
  fixes st st' :: "'a voicemail_server_scheme"
  assumes "server_state.more st = server_state.more st'"
  shows "vx_no_answer st = vx_no_answer st'" "vx_timers st = vx_timers st'" "vx_next_timer st = vx_next_timer st'" "vx_active st = vx_active st'"
    "vx_boxes st = vx_boxes st'" "vx_messages st = vx_messages st'" "vx_media st = vx_media st'" "vx_recording st = vx_recording st'"
    "voicemail_server.more st = voicemail_server.more st'"
  using assms by (cases st; cases st'; simp)+

lemma send_sip_more [frame_simps]: "server_state.more (snd (send_sip env m a st)) = server_state.more st"
  by (simp add: send_sip_def transport_send_def udp_send_def split: option.split)

lemma udp_send_more [frame_simps]: "server_state.more (snd (udp_send env a m st)) = server_state.more st"
  by (simp add: udp_send_def)

lemma persist_more [frame_simps]:
  "server_state.more (persist_security_event env s e ip u d st) = server_state.more st" "server_state.more (persist_ban cfg env a d st) = server_state.more st"
  "server_state.more (snd (enqueue env e' p st)) = server_state.more st"
  by (simp_all add: persist_security_event_def persist_ban_def enqueue_def split_beta)

lemma refresh_more [frame_simps]: "server_state.more (snd (refresh_sender_registration_source env u d src st)) = server_state.more st"
  by (simp add: refresh_sender_registration_source_def split: option.split)

lemma call_more:
  fixes st st' :: "'a call_server_scheme"
  assumes "server_state.more st = server_state.more st'"
  shows "cs_pending st = cs_pending st'" "cs_invites st = cs_invites st'" "cs_active st = cs_active st'" "cs_relay st = cs_relay st'"
    "cs_webrtc st = cs_webrtc st'" "cs_calls st = cs_calls st'" "cs_messages st = cs_messages st'"
  using call_server_more [OF voicemail_more(9) [OF assms]] by simp_all

section \<open>Admission\<close>

text \<open>What an INVITE needs to be routed: a callee, hops left, a source that is not blocked, and the name of an enabled account.\<close>

definition invite_admitted :: "sip_config \<Rightarrow> env \<Rightarrow> sip_message \<Rightarrow> socket_addr \<Rightarrow> 'a call_server_scheme \<Rightarrow> bool" where
  "invite_admitted cfg env msg src st =
     (request_user msg \<noteq> [] \<and> max_forwards msg \<noteq> 0 \<and> \<not> fst (is_blocked (ev_instant env) (show_ip (sa_ip src)) (cs_invite_guard st)) \<and>
      invite_caller msg \<noteq> ''unknown'' \<and> caller_account_exists env (invite_caller msg) (cfg_sip_domain cfg) st = Ok True)"

definition invite_checked :: "env \<Rightarrow> socket_addr \<Rightarrow> 'a call_server_scheme \<Rightarrow> 'a call_server_scheme" where
  "invite_checked env src st = st\<lparr>cs_invite_guard := snd (is_blocked (ev_instant env) (show_ip (sa_ip src)) (cs_invite_guard st))\<rparr>"

lemma account_exists_guard [simp]: "caller_account_exists env u d (st\<lparr>cs_invite_guard := g\<rparr>) = caller_account_exists env u d st"
  by (simp add: caller_account_exists_def)

lemma admitted_invite:
  assumes "invite_admitted cfg (cw_env w) msg src st"
  shows "proxy_invite cfg w msg src st =
    (case refresh_sender_registration_source (cw_env w) (invite_caller msg) (cfg_sip_domain cfg) src (invite_checked (cw_env w) src st) of
       (Ok _, st) \<Rightarrow> invite_callee cfg w msg src (invite_caller msg) (request_user msg) (message_call_id msg) (max_forwards msg) st
     | (Err e, st) \<Rightarrow> (Err e, st)
     | (Panic, st) \<Rightarrow> (Panic, st))"
  using assms by (simp add: proxy_invite_def invite_admitted_def invite_checked_def Let_def split_beta)

text \<open>An INVITE that is not admitted changes only the guard, the security events and the ACL.\<close>

definition same_traffic :: "'a call_server_scheme \<Rightarrow> 'a call_server_scheme \<Rightarrow> bool" where
  "same_traffic st st' = (sv_outbox st' = sv_outbox st \<and> sv_streams st' = sv_streams st \<and> sv_registrations st' = sv_registrations st \<and>
     vx_active st' = vx_active st \<and> vx_no_answer st' = vx_no_answer st \<and> cs_pending st' = cs_pending st \<and> cs_active st' = cs_active st \<and>
     cs_calls st' = cs_calls st \<and> cs_relay st' = cs_relay st \<and> cs_webrtc st' = cs_webrtc st)"

lemma rejected_traffic: "same_traffic st (snd (reject_invalid_invite cfg env msg src u d st))"
  by (simp add: same_traffic_def reject_invalid_invite_def Let_def split_beta persist_security_event_def persist_ban_def)

lemma refused_traffic:
  assumes "\<not> invite_admitted cfg (cw_env w) msg src st"
  shows "same_traffic st (snd (proxy_invite cfg w msg src st))"
proof -
  have 1: "same_traffic st (st\<lparr>cs_invite_guard := g\<rparr>)" "same_traffic st st" for g by (simp_all add: same_traffic_def)
  have 2: "same_traffic st (snd (reject_invalid_invite cfg env msg src u d (st\<lparr>cs_invite_guard := g\<rparr>)))" for env u d g
    using rejected_traffic [of "st\<lparr>cs_invite_guard := g\<rparr>" cfg env msg src u d] by (simp add: same_traffic_def)
  show ?thesis
  proof (cases "caller_account_exists (cw_env w) (invite_caller msg) (cfg_sip_domain cfg) st")
    case (Ok known)
    then show ?thesis using assms 1 2 unfolding proxy_invite_def invite_admitted_def Let_def by (cases known) (auto simp: split_beta)
  qed (use 1 2 in \<open>simp_all add: proxy_invite_def Let_def split_beta\<close>)
qed

section \<open>Messages on their way\<close>

text \<open>What waits for an address: its stream queue and the datagrams sent to it.\<close>

definition mail_to :: "socket_addr \<Rightarrow> 'a server_state_scheme \<Rightarrow> string multiset" where
  "mail_to addr st = mset (case hm_get (sv_streams st) addr of Some (Some queue) \<Rightarrow> queue | _ \<Rightarrow> []) +
     mset (map snd (filter (\<lambda>(a, _). a = addr) (sv_outbox st)))"

lemma mail_to_cong: "sv_streams st' = sv_streams st \<Longrightarrow> sv_outbox st' = sv_outbox st \<Longrightarrow> mail_to a st' = mail_to a st"
  by (simp add: mail_to_def)

lemma sent_mail:
  assumes "send_sip env m a st = (Ok u, st')"
  shows "mail_to b st' = (if b = a then add_mset m (mail_to b st) else mail_to b st)"
proof (cases "\<exists>queue. hm_get (sv_streams st) a = Some (Some queue)")
  case True
  then obtain queue where q: "hm_get (sv_streams st) a = Some (Some queue)" by blast
  then have "st' = st\<lparr>sv_streams := hm_put a (Some (queue @ [m])) (sv_streams st)\<rparr>"
    using assms by (simp add: send_sip_def transport_send_def)
  then show ?thesis using q by (simp add: mail_to_def hm.get_put)
next
  case False
  then have "send_sip env m a st = udp_send env a m st"
    by (simp add: send_sip_def transport_send_def split: option.split)
  then have "st' = st\<lparr>sv_outbox := sv_outbox st @ [(a, m)]\<rparr>" using assms by (simp add: udp_send_def split: if_splits)
  then show ?thesis by (simp add: mail_to_def)
qed

lemma unsent_mail: "send_sip env m a st = (Err e, st') \<Longrightarrow> st' = st"
  by (auto simp: send_sip_def transport_send_def udp_send_def split: option.splits if_splits prod.splits)

lemma send_no_panic: "send_sip env m a st \<noteq> (Panic, st')"
  by (auto simp: send_sip_def transport_send_def udp_send_def split: option.splits)

lemma send_succeeds: "\<not> ev_send_fails env a \<Longrightarrow> \<exists>st'. send_sip env m a st = (Ok (), st')"
  by (auto simp: send_sip_def transport_send_def udp_send_def split: option.splits)

section \<open>The properties\<close>

text \<open>
  C7: an INVITE moves nothing unless it is admitted. When it sends a message, changes a registration, opens a dialog, a
  call record, a media session or a voicemail call, then its source was not blocked, it had hops left, and its From names an enabled account.
\<close>

theorem invite_needs_account:
  assumes "\<not> same_traffic st (snd (proxy_invite cfg w msg src st))"
  shows "\<not> fst (is_blocked (ev_instant (cw_env w)) (show_ip (sa_ip src)) (cs_invite_guard st)) \<and> max_forwards msg \<noteq> 0 \<and>
    (\<exists>a. hm_get (sv_accounts st) (invite_caller msg, cfg_sip_domain cfg) = Some a \<and> ac_enabled a = 1)"
proof -
  have "invite_admitted cfg (cw_env w) msg src st" using refused_traffic assms by blast
  then show ?thesis by (auto simp: invite_admitted_def caller_account_exists_def split: if_splits option.splits)
qed

section \<open>A routed INVITE\<close>

lemma refresh_shape:
  "\<exists>regs. snd (refresh_sender_registration_source env u d src st) = st\<lparr>sv_registrations := regs\<rparr> \<and>
     (\<forall>k. k \<noteq> (u, d) \<longrightarrow> hm_get regs k = hm_get (sv_registrations st) k)"
  by (rule exI [of _ "sv_registrations (snd (refresh_sender_registration_source env u d src st))"])
    (simp add: refresh_sender_registration_source_def split: option.split)

lemma bridge_shapes:
  "\<exists>g. snd (reverse_bridge w cid body st) = st\<lparr>cs_webrtc := g\<rparr>" "\<exists>g. snd (browser_bridge cfg w cid body st) = st\<lparr>cs_webrtc := g\<rparr>"
  by (auto simp: reverse_bridge_def browser_bridge_def Let_def split: prod.split outcome.split)

lemma plain_relay_shape: "\<exists>r. snd (plain_relay w cid body st) = st\<lparr>cs_relay := r\<rparr>"
proof -
  have "\<exists>r. st = st\<lparr>cs_relay := r\<rparr>" by (rule exI [of _ "cs_relay st"]) simp
  then show ?thesis unfolding plain_relay_def Let_def by (auto split: prod.split outcome.split)
qed

lemma invite_media_shape: "\<exists>r g. snd (invite_media cfg w cid uri stream body st) = st\<lparr>cs_relay := r, cs_webrtc := g\<rparr>"
proof -
  have 1: "\<exists>r g. st = st\<lparr>cs_relay := r, cs_webrtc := g\<rparr>" by (rule exI [of _ "cs_relay st"], rule exI [of _ "cs_webrtc st"]) simp
  have 2: "\<exists>r g'. st\<lparr>cs_webrtc := g\<rparr> = st\<lparr>cs_relay := r, cs_webrtc := g'\<rparr>" for g by (rule exI [of _ "cs_relay st"], rule exI [of _ g]) simp
  have 3: "\<exists>r' g. st\<lparr>cs_relay := r\<rparr> = st\<lparr>cs_relay := r', cs_webrtc := g\<rparr>" for r by (rule exI [of _ r], rule exI [of _ "cs_webrtc st"]) simp
  obtain g g' r where s: "snd (reverse_bridge w cid body st) = st\<lparr>cs_webrtc := g\<rparr>" "snd (browser_bridge cfg w cid body st) = st\<lparr>cs_webrtc := g'\<rparr>"
      "snd (plain_relay w cid body st) = st\<lparr>cs_relay := r\<rparr>"
    using bridge_shapes(1) [of w cid body st] bridge_shapes(2) [of cfg w cid body st] plain_relay_shape [of w cid body st] by blast
  show ?thesis unfolding invite_media_def if_distrib [of snd] s snd_conv using 1 2 3 by presburger
qed

lemma bridge_congs:
  assumes "cs_relay st' = cs_relay st" "cs_webrtc st' = cs_webrtc st"
  shows "fst (reverse_bridge w cid body st') = fst (reverse_bridge w cid body st) \<and>
      cs_webrtc (snd (reverse_bridge w cid body st')) = cs_webrtc (snd (reverse_bridge w cid body st))"
    "fst (browser_bridge cfg w cid body st') = fst (browser_bridge cfg w cid body st) \<and>
      cs_webrtc (snd (browser_bridge cfg w cid body st')) = cs_webrtc (snd (browser_bridge cfg w cid body st))"
    "fst (plain_relay w cid body st') = fst (plain_relay w cid body st) \<and>
      cs_relay (snd (plain_relay w cid body st')) = cs_relay (snd (plain_relay w cid body st))"
proof -
  have o: "relay_os w st' = relay_os w st" "gateway_os w st' = gateway_os w st" using assms by (simp_all add: relay_os_def gateway_os_def fun_eq_iff)
  show "fst (reverse_bridge w cid body st') = fst (reverse_bridge w cid body st) \<and>
      cs_webrtc (snd (reverse_bridge w cid body st')) = cs_webrtc (snd (reverse_bridge w cid body st))"
    unfolding reverse_bridge_def assms o by (simp add: Let_def split: prod.split outcome.split)
  show "fst (browser_bridge cfg w cid body st') = fst (browser_bridge cfg w cid body st) \<and>
      cs_webrtc (snd (browser_bridge cfg w cid body st')) = cs_webrtc (snd (browser_bridge cfg w cid body st))"
    unfolding browser_bridge_def assms o by (simp split: prod.split outcome.split)
  show "fst (plain_relay w cid body st') = fst (plain_relay w cid body st) \<and>
      cs_relay (snd (plain_relay w cid body st')) = cs_relay (snd (plain_relay w cid body st))"
    unfolding plain_relay_def Let_def assms o by (simp add: assms split: prod.split outcome.split)
qed

lemma invite_media_cong:
  assumes "cs_relay st' = cs_relay st" "cs_webrtc st' = cs_webrtc st"
  shows "fst (invite_media cfg w cid uri stream body st') = fst (invite_media cfg w cid uri stream body st)"
  using bridge_congs [OF assms] by (simp add: invite_media_def)

lemma record_call_frame [simp]:
  "sv_streams (record_call env cid a b st) = sv_streams st" "sv_outbox (record_call env cid a b st) = sv_outbox st"
  "cs_relay (record_call env cid a b st) = cs_relay st" "cs_webrtc (record_call env cid a b st) = cs_webrtc st"
  "cs_active (record_call env cid a b st) = cs_active st" "cs_pending (record_call env cid a b st) = cs_pending st"
  by (simp_all add: record_call_def)

lemma open_dialog_frame [simp]:
  "sv_streams (open_dialog cid msg src a st) = sv_streams st" "sv_outbox (open_dialog cid msg src a st) = sv_outbox st"
  "cs_relay (open_dialog cid msg src a st) = cs_relay st" "cs_webrtc (open_dialog cid msg src a st) = cs_webrtc st"
  "cs_calls (open_dialog cid msg src a st) = cs_calls st"
  by (simp_all add: open_dialog_def)

lemma start_timer_frame [simp]:
  "sv_streams (start_no_answer_timer env msg src a uri callee n st) = sv_streams st" "sv_outbox (start_no_answer_timer env msg src a uri callee n st) = sv_outbox st"
  "voicemail_server.more (start_no_answer_timer env msg src a uri callee n st) = voicemail_server.more st"
  by (simp_all add: start_no_answer_timer_def Let_def abort_timer_def split: option.split no_answer_entry.split)

lemma routed_target:
  assumes "fst (invite_media cfg w cid uri (transport_contains target st) (m_body msg) st) = Ok body" "\<not> ev_send_fails (cw_env w) target"
  shows "let st' = snd (invite_target cfg w msg src caller callee cid n mailbox uri target st);
      fwd = build_forwarded_invite_for_target (cw_md5 w) msg (registered_target_uri callee uri target) (n - 1) (cfg_sip_domain cfg) body
    in fst (invite_target cfg w msg src caller callee cid n mailbox uri target st) = Ok (build (base_response msg 100 ''Trying'')) \<and>
       (\<forall>a. mail_to a st' = (if a = target then add_mset fwd (mail_to a st) else mail_to a st)) \<and>
       hm_get (cs_active st') cid = Some \<lparr>di_caller_addr = src, di_callee_addr = target, di_caller_is_stream = transport_contains src st,
         di_callee_is_stream = transport_contains target st\<rparr> \<and>
       hm_get (cs_pending st') cid = Some src \<and>
       (\<not> ev_fails (cw_env w) UpsertCall \<longrightarrow> map_option sc_status (hm_get (cs_calls st') cid) = Some CallTrying)"
proof -
  let ?st1 = "open_dialog cid msg src target (record_call (cw_env w) cid (caller @ ''@'' @ cfg_sip_domain cfg) (callee @ ''@'' @ cfg_sip_domain cfg) st)"
  let ?fwd = "build_forwarded_invite_for_target (cw_md5 w) msg (registered_target_uri callee uri target) (n - 1) (cfg_sip_domain cfg) body"
  obtain r g where m: "invite_media cfg w cid uri (transport_contains target st) (m_body msg) ?st1 = (Ok body, ?st1\<lparr>cs_relay := r, cs_webrtc := g\<rparr>)"
    using invite_media_shape [of cfg w cid uri "transport_contains target st" "m_body msg" ?st1]
      invite_media_cong [of ?st1 st cfg w cid uri "transport_contains target st" "m_body msg"] assms(1)
    by (metis prod.collapse open_dialog_frame(3,4) record_call_frame(3,4))
  let ?st2 = "?st1\<lparr>cs_relay := r, cs_webrtc := g\<rparr>"
  obtain st3 where s: "send_sip (cw_env w) ?fwd target ?st2 = (Ok (), st3)" using send_succeeds [OF assms(2)] by blast
  define st' where "st' = snd (invite_target cfg w msg src caller callee cid n mailbox uri target st)"
  have res: "fst (invite_target cfg w msg src caller callee cid n mailbox uri target st) = Ok (build (base_response msg 100 ''Trying''))"
    "st' = (case mailbox of None \<Rightarrow> st3 | Some b \<Rightarrow> start_no_answer_timer (cw_env w) msg src target (registered_target_uri callee uri target) callee (mb_no_answer_secs b) st3)"
    unfolding st'_def invite_target_def Let_def m s prod.case outcome.case by simp_all
  have mail2: "mail_to a ?st2 = mail_to a st" for a by (rule mail_to_cong) simp_all
  have "mail_to a st' = mail_to a st3" for a unfolding res(2) by (rule mail_to_cong) (simp_all split: option.split)
  then have mail: "mail_to a st' = (if a = target then add_mset ?fwd (mail_to a st) else mail_to a st)" for a
    using sent_mail [OF s, of a] mail2 by simp
  have "server_state.more st3 = server_state.more ?st2" using send_sip_more [of "cw_env w" ?fwd target ?st2] s by simp
  note st3 = call_more [OF this]
  have "voicemail_server.more st' = voicemail_server.more st3" unfolding res(2) by (simp split: option.split)
  note st' = call_server_more [OF this]
  have "hm_get (cs_active st') cid = Some \<lparr>di_caller_addr = src, di_callee_addr = target, di_caller_is_stream = transport_contains src st,
         di_callee_is_stream = transport_contains target st\<rparr>" "hm_get (cs_pending st') cid = Some src"
    by (simp_all add: st' st3 open_dialog_def hm.get_put transport_contains_def)
  moreover have "\<not> ev_fails (cw_env w) UpsertCall \<longrightarrow> map_option sc_status (hm_get (cs_calls st') cid) = Some CallTrying"
    by (simp add: st' st3 record_call_def hm.get_put split: option.split)
  ultimately show ?thesis using res(1) mail unfolding Let_def st'_def [symmetric] by simp
qed

lemma refresh_succeeds:
  assumes "\<not> ev_fails env SelectSource" "\<not> ev_fails env UpdateSource"
  obtains regs where "refresh_sender_registration_source env u d src st = (Ok (), st\<lparr>sv_registrations := regs\<rparr>)"
    "\<And>k. k \<noteq> (u, d) \<Longrightarrow> hm_get regs k = hm_get (sv_registrations st) k"
proof -
  have "fst (refresh_sender_registration_source env u d src st) = Ok ()"
    using assms by (simp add: refresh_sender_registration_source_def split: option.split)
  then show ?thesis using refresh_shape [of env u d src st] that by (metis prod.collapse)
qed

lemma invite_routed:
  assumes "invite_admitted cfg (cw_env w) msg src st" "invite_caller msg \<noteq> request_user msg"
    and "\<not> ev_fails (cw_env w) SelectSource" "\<not> ev_fails (cw_env w) UpdateSource" "\<not> ev_fails (cw_env w) SelectTarget" "\<not> ev_fails (cw_env w) UpsertCall"
    and "live_registration (cw_env w) (request_user msg) (cfg_sip_domain cfg) st = Some r" "rg_source_ip r = show_ipv4 a b c d"
    and "target = \<lparr>sa_ip = Ipv4 a b c d, sa_port = rg_source_port r\<rparr>" "\<not> ev_send_fails (cw_env w) target"
    and "fst (invite_media cfg w (message_call_id msg) (rg_contact_uri r) (transport_contains target st) (m_body msg) st) = Ok body"
  shows "let (res, st') = proxy_invite cfg w msg src st;
      fwd = build_forwarded_invite_for_target (cw_md5 w) msg (registered_target_uri (request_user msg) (rg_contact_uri r) target)
        (max_forwards msg - 1) (cfg_sip_domain cfg) body
    in res = Ok (build (base_response msg 100 ''Trying'')) \<and>
       (\<forall>a. mail_to a st' = (if a = target then add_mset fwd (mail_to a st) else mail_to a st)) \<and>
       hm_get (cs_active st') (message_call_id msg) = Some \<lparr>di_caller_addr = src, di_callee_addr = target,
         di_caller_is_stream = transport_contains src st, di_callee_is_stream = transport_contains target st\<rparr> \<and>
       hm_get (cs_pending st') (message_call_id msg) = Some src \<and>
       map_option sc_status (hm_get (cs_calls st') (message_call_id msg)) = Some CallTrying"
proof -
  let ?d = "cfg_sip_domain cfg" and ?env = "cw_env w" and ?cid = "message_call_id msg"
  obtain regs where f: "refresh_sender_registration_source ?env (invite_caller msg) ?d src (invite_checked ?env src st) =
      (Ok (), (invite_checked ?env src st)\<lparr>sv_registrations := regs\<rparr>)"
    "\<And>k. k \<noteq> (invite_caller msg, ?d) \<Longrightarrow> hm_get regs k = hm_get (sv_registrations (invite_checked ?env src st)) k"
    by (rule refresh_succeeds [OF assms(3,4)]) blast
  let ?st1 = "(invite_checked ?env src st)\<lparr>sv_registrations := regs\<rparr>"
  have st1: "cs_relay ?st1 = cs_relay st" "cs_webrtc ?st1 = cs_webrtc st" "transport_contains x ?st1 = transport_contains x st" "mail_to x ?st1 = mail_to x st" for x
    by (simp_all add: invite_checked_def transport_contains_def mail_to_def)
  have l: "live_registration ?env (request_user msg) ?d ?st1 = Some r"
    using assms(2,7) f(2) [of "(request_user msg, ?d)"] by (simp add: live_registration_def invite_checked_def)
  have p: "parse_socket_addr (rg_source_ip r @ '':'' @ show_uint (rg_source_port r)) = Some target" using assms(8,9) by simp
  define mailbox where "mailbox = lookup_enabled_box ?env (request_user msg) ?d ?st1"
  have e: "proxy_invite cfg w msg src st =
      invite_target cfg w msg src (invite_caller msg) (request_user msg) ?cid (max_forwards msg) mailbox (rg_contact_uri r) target ?st1"
    unfolding admitted_invite [OF assms(1)] f prod.case outcome.case invite_callee_def Let_def l option.case p mailbox_def using assms(5) by (rule if_not_P)
  have m: "fst (invite_media cfg w ?cid (rg_contact_uri r) (transport_contains target ?st1) (m_body msg) ?st1) = Ok body"
    using assms(11) invite_media_cong [OF st1(1,2)] unfolding st1(3) by simp
  show ?thesis
    using routed_target [OF m assms(10), of src "invite_caller msg" "request_user msg" "max_forwards msg" mailbox] assms(6)
    unfolding e Let_def st1(3,4) by (simp add: split_beta)
qed

text \<open>
  C3: an admitted INVITE reaches the callee. When the callee has a live registration with an IPv4 address, the caller gets 100, one
  message is sent, namely the INVITE as forwarded with the body of the media set-up to the registered address, and the dialog between
  the two addresses is open with its call recorded as being set up.
\<close>

theorem invite_reaches_callee:
  assumes "invite_admitted cfg (cw_env w) msg src st" "invite_caller msg \<noteq> request_user msg"
    and "\<not> ev_fails (cw_env w) SelectSource" "\<not> ev_fails (cw_env w) UpdateSource" "\<not> ev_fails (cw_env w) SelectTarget" "\<not> ev_fails (cw_env w) UpsertCall"
    and "live_registration (cw_env w) (request_user msg) (cfg_sip_domain cfg) st = Some r" "rg_source_ip r = show_ipv4 a b c d"
    and "target = \<lparr>sa_ip = Ipv4 a b c d, sa_port = rg_source_port r\<rparr>" "\<not> ev_send_fails (cw_env w) target"
    and "fst (invite_media cfg w (message_call_id msg) (rg_contact_uri r) (transport_contains target st) (m_body msg) st) = Ok body"
  shows "let (res, st') = proxy_invite cfg w msg src st;
      fwd = build_forwarded_invite_for_target (cw_md5 w) msg (registered_target_uri (request_user msg) (rg_contact_uri r) target)
        (max_forwards msg - 1) (cfg_sip_domain cfg) body
    in res = Ok (build (base_response msg 100 ''Trying'')) \<and>
       (\<forall>a. mail_to a st' = (if a = target then add_mset fwd (mail_to a st) else mail_to a st)) \<and>
       hm_get (cs_active st') (message_call_id msg) = Some \<lparr>di_caller_addr = src, di_callee_addr = target,
         di_caller_is_stream = transport_contains src st, di_callee_is_stream = transport_contains target st\<rparr> \<and>
       hm_get (cs_pending st') (message_call_id msg) = Some src \<and>
       map_option sc_status (hm_get (cs_calls st') (message_call_id msg)) = Some CallTrying"
  by (rule invite_routed [OF assms])

section \<open>An example call\<close>

definition example_call_invite :: sip_message where
  "example_call_invite = \<lparr>m_method = Some ''INVITE'', m_request_uri = Some ''sip:1002@x.org'', m_status_code = None,
     m_headers = [(''from'', [''<sip:1001@x.org>;tag=9'']), (''call-id'', [''c7''])], m_body = [], m_raw = []\<rparr>"

definition example_callee :: socket_addr where
  "example_callee = \<lparr>sa_ip = Ipv4 192 0 2 4, sa_port = 5060\<rparr>"

definition example_binding_row :: registration where
  "example_binding_row = \<lparr>rg_contact_uri = ''sip:1002@192.0.2.4'', rg_user_agent = [], rg_expires_at = 2000,
     rg_source_ip = show_ipv4 192 0 2 4, rg_source_port = 5060\<rparr>"

definition example_ready :: call_server where
  "example_ready = example_calls\<lparr>sv_registrations := [((''1002'', ''x.org''), example_binding_row)]\<rparr>"

lemma example_invite_reads:
  "request_user example_call_invite = ''1002''" "invite_caller example_call_invite = ''1001''" "message_call_id example_call_invite = ''c7''"
  "max_forwards example_call_invite = 70" "m_body example_call_invite = []"
  by code_simp+

lemma example_invite_admitted: "invite_admitted example_config example_env example_call_invite src example_ready"
  by (simp add: invite_admitted_def example_invite_reads caller_account_exists_def example_ready_def example_config_def example_env_def
      guard_new_def is_blocked_def prune_expired_blocks_def hm_retain_def)

lemma example_call_media: "fst (invite_media example_config example_call_world ''c7'' ''sip:1002@192.0.2.4'' False [] st) = Ok None"
proof -
  have "\<not> should_preserve_webrtc_sdp_for_target ''sip:1002@192.0.2.4'' []" by code_simp
  then show ?thesis by (simp add: invite_media_def plain_relay_def)
qed

lemma example_world_env [simp]: "vw_env example_world = example_env"
  by (simp add: example_world_def)

lemma example_simps:
  "cfg_sip_domain example_config = ''x.org''" "\<not> ev_fails example_env q" "\<not> ev_send_fails example_env a"
  "rg_source_ip example_binding_row = show_ipv4 192 0 2 4" "rg_contact_uri example_binding_row = ''sip:1002@192.0.2.4''"
  "example_callee = \<lparr>sa_ip = Ipv4 192 0 2 4, sa_port = rg_source_port example_binding_row\<rparr>"
  "live_registration example_env ''1002'' ''x.org'' example_ready = Some example_binding_row"
  "\<not> transport_contains b example_ready" "mail_to b example_ready = {#}" "cs_calls example_ready = []"
  by (simp_all add: example_config_def example_env_def example_binding_row_def example_callee_def live_registration_def transport_contains_def
      mail_to_def example_ready_def) (simp add: example_calls_simps)

lemma example_hyps:
  "invite_admitted example_config (cw_env example_call_world) example_call_invite src example_ready"
  "invite_caller example_call_invite \<noteq> request_user example_call_invite"
  "\<not> ev_fails (cw_env example_call_world) q" "\<not> ev_send_fails (cw_env example_call_world) b"
  "live_registration (cw_env example_call_world) (request_user example_call_invite) (cfg_sip_domain example_config) example_ready = Some example_binding_row"
  "fst (invite_media example_config example_call_world (message_call_id example_call_invite) (rg_contact_uri example_binding_row)
     (transport_contains example_callee example_ready) (m_body example_call_invite) example_ready) = Ok None"
  using example_invite_admitted example_call_media by (simp_all add: example_simps example_invite_reads)

lemmas example_routed = example_hyps(1,2) example_hyps(3,3,3,3) example_hyps(5) example_simps(4,6) example_hyps(4,6)

theorem invite_reaches_callee_witness:
  "\<exists>fwd. mail_to example_callee (snd (proxy_invite example_config example_call_world example_call_invite listener_source example_ready)) = {#fwd#}"
  using invite_reaches_callee [OF example_routed, of listener_source]
  by (simp add: split_beta Let_def example_simps)

theorem invite_needs_account_witness:
  "\<exists>a. hm_get (sv_accounts example_ready) (''1001'', ''x.org'') = Some a \<and> ac_enabled a = 1"
proof -
  have "cs_active (snd (proxy_invite example_config example_call_world example_call_invite listener_source example_ready)) \<noteq> cs_active example_ready"
    using invite_routed [OF example_routed, of listener_source] by (auto simp: split_beta Let_def example_ready_def)
  then have "\<not> same_traffic example_ready (snd (proxy_invite example_config example_call_world example_call_invite listener_source example_ready))"
    by (auto simp: same_traffic_def)
  from invite_needs_account [OF this] show ?thesis by (simp add: example_simps example_invite_reads)
qed

section \<open>The end of a call, and messages\<close>

lemma proxy_cancel_timer_frame [simp]:
  "sv_streams (snd (cancel_no_answer_timer cid st)) = sv_streams st" "sv_outbox (snd (cancel_no_answer_timer cid st)) = sv_outbox st"
  "sv_registrations (snd (cancel_no_answer_timer cid st)) = sv_registrations st"
  "voicemail_server.more (snd (cancel_no_answer_timer cid st)) = voicemail_server.more st"
  by (simp_all add: cancel_no_answer_timer_def abort_timer_def split: option.split no_answer_entry.split)

lemma update_call_frame [simp]:
  "sv_streams (update_call env cid f st) = sv_streams st" "sv_outbox (update_call env cid f st) = sv_outbox st"
  "cs_active (update_call env cid f st) = cs_active st" "cs_pending (update_call env cid f st) = cs_pending st"
  "cs_relay (update_call env cid f st) = cs_relay st" "cs_webrtc (update_call env cid f st) = cs_webrtc st"
  by (simp_all add: update_call_def)

lemma drop_call_frame [simp]:
  "sv_streams (drop_call cid st) = sv_streams st" "sv_outbox (drop_call cid st) = sv_outbox st" "cs_calls (drop_call cid st) = cs_calls st"
  by (simp_all add: drop_call_def)

lemma dropped_others:
  assumes "c \<noteq> cid"
  shows "hm_get (cs_active (drop_call cid st)) c = hm_get (cs_active st) c" "hm_get (cs_pending (drop_call cid st)) c = hm_get (cs_pending st) c"
    "hm_get (mr_sessions (cs_relay (drop_call cid st))) c = hm_get (mr_sessions (cs_relay st)) c"
    "hm_get (wg_sessions (cs_webrtc (drop_call cid st))) c = hm_get (wg_sessions (cs_webrtc st)) c"
  using assms by (simp_all add: drop_call_def hm.get_del)

text \<open>
  C9: BYE ends a call for both sides. A BYE in an open dialog is answered 200 and sent unchanged to the other party and to nobody else; nothing is left
  of the call in the dialog maps, the relay and the gateway; its record is closed; and every other call is as before.
\<close>

theorem bye_ends_call:
  assumes "hm_get (cs_active st) (message_call_id msg) = Some d" "\<not> ev_send_fails env (other_party src d)" "\<not> ev_fails env UpdateCall"
  shows "let (res, st') = proxy_bye cfg env msg src st; cid = message_call_id msg in
    res = Ok (build (base_response msg 200 ''OK'')) \<and> call_gone cid st' \<and>
    (\<forall>a. mail_to a st' = (if a = other_party src d then add_mset (m_raw msg) (mail_to a st) else mail_to a st)) \<and>
    hm_get (cs_calls st') cid = map_option (\<lambda>c. c\<lparr>sc_status := CallEnded, sc_ended_at := Some (ev_utc env)\<rparr>) (hm_get (cs_calls st) cid) \<and>
    (\<forall>c. c \<noteq> cid \<longrightarrow> hm_get (cs_active st') c = hm_get (cs_active st) c \<and> hm_get (cs_pending st') c = hm_get (cs_pending st) c \<and>
       hm_get (mr_sessions (cs_relay st')) c = hm_get (mr_sessions (cs_relay st)) c \<and>
       hm_get (wg_sessions (cs_webrtc st')) c = hm_get (wg_sessions (cs_webrtc st)) c \<and> hm_get (cs_calls st') c = hm_get (cs_calls st) c)"
proof -
  let ?cid = "message_call_id msg"
  let ?st1 = "update_call env ?cid (\<lambda>c. c\<lparr>sc_status := CallEnded, sc_ended_at := Some (ev_utc env)\<rparr>) (snd (cancel_no_answer_timer ?cid st))"
  have c: "cs_active (snd (cancel_no_answer_timer ?cid st)) = cs_active st" "cs_pending (snd (cancel_no_answer_timer ?cid st)) = cs_pending st"
    "cs_relay (snd (cancel_no_answer_timer ?cid st)) = cs_relay st" "cs_webrtc (snd (cancel_no_answer_timer ?cid st)) = cs_webrtc st"
    "cs_calls (snd (cancel_no_answer_timer ?cid st)) = cs_calls st"
    using call_server_more [OF proxy_cancel_timer_frame(4) [of ?cid st]] by simp_all
  obtain st' where s: "send_sip env (m_raw msg) (other_party src d) (drop_call ?cid ?st1) = (Ok (), st')" using send_succeeds [OF assms(2)] by blast
  have e: "proxy_bye cfg env msg src st = (Ok (build (base_response msg 200 ''OK'')), st')"
    unfolding proxy_bye_def Let_def using assms(1) s by (simp add: c)
  have "server_state.more st' = server_state.more (drop_call ?cid ?st1)" using send_sip_more [of env "m_raw msg" "other_party src d" "drop_call ?cid ?st1"] s by simp
  note st' = call_more [OF this]
  have m: "mail_to a (drop_call ?cid ?st1) = mail_to a st" for a by (rule mail_to_cong) simp_all
  have "call_gone ?cid st'" using drop_call_gone [of ?cid ?st1] by (simp add: call_gone_def st')
  moreover have "hm_get (cs_calls st') x = (if x = ?cid then map_option (\<lambda>c. c\<lparr>sc_status := CallEnded, sc_ended_at := Some (ev_utc env)\<rparr>) (hm_get (cs_calls st) x)
      else hm_get (cs_calls st) x)" for x using assms(3) by (simp add: st' update_call_def c)
  ultimately show ?thesis
    using sent_mail [OF s] m dropped_others [where cid = ?cid and st = ?st1] by (simp add: e Let_def st' c)
qed

definition example_dialog :: dialog_info where
  "example_dialog = \<lparr>di_caller_addr = listener_source, di_callee_addr = example_callee, di_caller_is_stream = False, di_callee_is_stream = False\<rparr>"

theorem bye_ends_call_witness:
  "call_gone ''c7'' (snd (proxy_bye example_config example_env example_call_invite listener_source (example_ready\<lparr>cs_active := [(''c7'', example_dialog)]\<rparr>)))"
  using bye_ends_call [of "example_ready\<lparr>cs_active := [(''c7'', example_dialog)]\<rparr>" example_call_invite example_dialog example_env listener_source example_config]
  by (simp add: example_invite_reads example_simps split_beta Let_def)

text \<open>Whether a message can be handed over to an address: it has an open stream, or the datagram can be sent.\<close>

definition can_reach :: "env \<Rightarrow> socket_addr \<Rightarrow> 'a server_state_scheme \<Rightarrow> bool" where
  "can_reach env a st = ((\<exists>queue. hm_get (sv_streams st) a = Some (Some queue)) \<or> \<not> ev_send_fails env a)"

definition message_sender :: "sip_message \<Rightarrow> string" where
  "message_sender msg = (case Option.bind (Option.bind (from_header msg) extract_uri) uri_username of None \<Rightarrow> [] | Some u \<Rightarrow> u)"

lemma send_outcome:
  obtains st' where "can_reach env a st" "send_sip env m a st = (Ok (), st')"
  | e where "\<not> can_reach env a st" "send_sip env m a st = (Err e, st)"
proof (cases "can_reach env a st")
  case True
  then have "\<exists>st'. send_sip env m a st = (Ok (), st')" by (auto simp: can_reach_def send_sip_def transport_send_def udp_send_def split: option.split)
  then show ?thesis using that(1) True by blast
next
  case False
  then have "\<exists>e. send_sip env m a st = (Err e, st)" by (auto simp: can_reach_def send_sip_def transport_send_def udp_send_def split: option.split)
  then show ?thesis using that(2) False by blast
qed

lemma persist_message_frame [simp]:
  "sv_streams (persist_message env msg a b s ip st) = sv_streams st" "sv_outbox (persist_message env msg a b s ip st) = sv_outbox st"
  by (simp_all add: persist_message_def)

lemma message_from_accounted:
  assumes "message_callee msg \<noteq> []" "\<not> ev_fails env InsertMessage"
  shows "let (res, st') = message_from cfg env msg src sender st in
    \<exists>row. cs_messages st' = cs_messages st @ [row] \<and> sm_sender row = sender @ ''@'' @ cfg_sip_domain cfg \<and>
      sm_receiver row = message_callee msg @ ''@'' @ cfg_sip_domain cfg \<and> sm_body row = m_body msg \<and>
      (case message_target cfg env msg src st of
         Some t \<Rightarrow> if can_reach env t st
           then res = Ok (build (base_response msg 200 ''OK'')) \<and> sm_status row = ''delivered'' \<and>
             (\<forall>a. mail_to a st' = (if a = t then add_mset (m_raw msg) (mail_to a st) else mail_to a st))
           else res = Ok (build (base_response msg 500 ''Internal Server Error'')) \<and> sm_status row = ''failed'' \<and> (\<forall>a. mail_to a st' = mail_to a st)
       | None \<Rightarrow> res = Ok (build (base_response msg 404 ''Not Found'')) \<and> sm_status row = ''failed'' \<and> (\<forall>a. mail_to a st' = mail_to a st))"
proof (cases "message_target cfg env msg src st")
  case None
  then show ?thesis using assms by (simp add: message_from_def Let_def persist_message_def mail_to_def)
next
  case (Some t)
  have p: "mail_to a (persist_message env msg x y s ip st') = mail_to a st'" for a x y s ip st' by (rule mail_to_cong) simp_all
  show ?thesis
  proof (rule send_outcome [of env t st "m_raw msg"])
    fix st' assume r: "can_reach env t st" and s: "send_sip env (m_raw msg) t st = (Ok (), st')"
    have "server_state.more st' = server_state.more st" using send_sip_more [of env "m_raw msg" t st] s by simp
    then show ?thesis
      using assms r s Some sent_mail [OF s] call_more(7) [of st' st] by (simp add: message_from_def Let_def p) (simp add: persist_message_def)
  next
    fix e assume "\<not> can_reach env t st" "send_sip env (m_raw msg) t st = (Err e, st)"
    then show ?thesis using assms Some by (simp add: message_from_def Let_def p) (simp add: persist_message_def)
  qed
qed

text \<open>
  C13: every MESSAGE of a known sender is accounted for. It adds one row with the body and both addresses; the row says delivered and the answer is 200
  exactly when the other party of the dialog, or else the registered address of the receiver, could be reached, and then that address and no other has the
  message; otherwise the row says failed, the answer is 404 or 500, and nothing is sent.
\<close>

theorem message_accounted:
  assumes "caller_account_exists env (message_sender msg) (cfg_sip_domain cfg) st = Ok True" "message_sender msg \<noteq> []"
    and "\<not> ev_fails env SelectSource" "\<not> ev_fails env UpdateSource" "\<not> ev_fails env InsertMessage"
    and "message_callee msg \<noteq> []" "message_callee msg \<noteq> message_sender msg"
  shows "let (res, st') = proxy_message cfg env msg src st in
    \<exists>row. cs_messages st' = cs_messages st @ [row] \<and> sm_sender row = message_sender msg @ ''@'' @ cfg_sip_domain cfg \<and>
      sm_receiver row = message_callee msg @ ''@'' @ cfg_sip_domain cfg \<and> sm_body row = m_body msg \<and>
      (case message_target cfg env msg src st of
         Some t \<Rightarrow> if can_reach env t st
           then res = Ok (build (base_response msg 200 ''OK'')) \<and> sm_status row = ''delivered'' \<and>
             (\<forall>a. mail_to a st' = (if a = t then add_mset (m_raw msg) (mail_to a st) else mail_to a st))
           else res = Ok (build (base_response msg 500 ''Internal Server Error'')) \<and> sm_status row = ''failed'' \<and> (\<forall>a. mail_to a st' = mail_to a st)
       | None \<Rightarrow> res = Ok (build (base_response msg 404 ''Not Found'')) \<and> sm_status row = ''failed'' \<and> (\<forall>a. mail_to a st' = mail_to a st))"
proof -
  obtain regs where f: "refresh_sender_registration_source env (message_sender msg) (cfg_sip_domain cfg) src st = (Ok (), st\<lparr>sv_registrations := regs\<rparr>)"
    "\<And>k. k \<noteq> (message_sender msg, cfg_sip_domain cfg) \<Longrightarrow> hm_get regs k = hm_get (sv_registrations st) k"
    by (rule refresh_succeeds [OF assms(3,4), of "message_sender msg" "cfg_sip_domain cfg" src st]) blast
  let ?st1 = "st\<lparr>sv_registrations := regs\<rparr>"
  have e: "proxy_message cfg env msg src st = message_from cfg env msg src (message_sender msg) ?st1"
    unfolding proxy_message_def Let_def message_sender_def [symmetric] using assms(1,2) f(1) by simp
  have "lookup_registered_target env (message_callee msg) (cfg_sip_domain cfg) ?st1 = lookup_registered_target env (message_callee msg) (cfg_sip_domain cfg) st"
    using assms(7) f(2) [of "(message_callee msg, cfg_sip_domain cfg)"] by (simp add: lookup_registered_target_def live_registration_def)
  then have t: "message_target cfg env msg src ?st1 = message_target cfg env msg src st" by (simp add: message_target_def Let_def split: option.split)
  have r: "can_reach env a ?st1 = can_reach env a st" "mail_to a ?st1 = mail_to a st" for a by (simp_all add: can_reach_def mail_to_def)
  show ?thesis using message_from_accounted [OF assms(6,5), of cfg src "message_sender msg" ?st1] unfolding e t r by simp
qed

theorem message_accounted_witness:
  "\<exists>row. cs_messages (snd (proxy_message example_config example_env example_call_invite listener_source example_ready)) = [row] \<and> sm_status row = ''delivered''"
proof -
  have r: "message_sender example_call_invite = ''1001''" "message_callee example_call_invite = ''1002''" by code_simp+
  have a: "caller_account_exists example_env ''1001'' ''x.org'' example_ready = Ok True"
    by (simp add: caller_account_exists_def example_simps example_ready_def)
  have p: "parse_socket_addr (show_ipv4 192 0 2 4 @ CHR '':'' # show_uint (rg_source_port example_binding_row)) = Some example_callee"
    by (simp add: example_simps(6))
  have t: "message_target example_config example_env example_call_invite listener_source example_ready = Some example_callee"
  proof -
    have "lookup_registered_target example_env ''1002'' ''x.org'' example_ready = Some example_callee"
      using p by (simp add: lookup_registered_target_def example_simps)
    moreover have "cs_active example_ready = []" by (simp add: example_ready_def)
    ultimately show ?thesis by (simp add: message_target_def example_invite_reads r example_simps(1))
  qed
  have "cs_messages example_ready = []" by (simp add: example_ready_def example_calls_simps)
  then show ?thesis
    using message_accounted [of example_env example_call_invite example_config example_ready listener_source]
    by (simp add: r a t example_simps can_reach_def split_beta Let_def) blast
qed

section \<open>Abuse of INVITE\<close>

lemma rejected_guard:
  "cs_invite_guard (snd (reject_invalid_invite cfg env msg src u d st)) =
     snd (record_failure (ev_instant env) (ev_instant env) SipInvite (show_ip (sa_ip src)) u (cs_invite_guard st))"
  by (simp add: reject_invalid_invite_def Let_def split_beta persist_security_event_def persist_ban_def)

lemma invite_rejected_guard:
  assumes "request_user msg \<noteq> []" "max_forwards msg \<noteq> 0" "\<not> fst (is_blocked (ev_instant (cw_env w)) (show_ip (sa_ip src)) (cs_invite_guard st))"
    and "invite_caller msg = ''unknown'' \<or> caller_account_exists (cw_env w) (invite_caller msg) (cfg_sip_domain cfg) st = Ok False"
  obtains u where "cs_invite_guard (snd (proxy_invite cfg w msg src st)) =
      snd (record_failure (ev_instant (cw_env w)) (ev_instant (cw_env w)) SipInvite (show_ip (sa_ip src)) u
        (snd (is_blocked (ev_instant (cw_env w)) (show_ip (sa_ip src)) (cs_invite_guard st))))"
proof -
  have "\<exists>u dt. proxy_invite cfg w msg src st = reject_invalid_invite cfg (cw_env w) msg src u dt (invite_checked (cw_env w) src st)"
    using assms(4,1-3) by (elim disjE; simp add: proxy_invite_def invite_checked_def Let_def split_beta) blast+
  then obtain u dt where "proxy_invite cfg w msg src st = reject_invalid_invite cfg (cw_env w) msg src u dt (invite_checked (cw_env w) src st)" by blast
  then show ?thesis by (intro that [of u]) (simp add: rejected_guard invite_checked_def)
qed

text \<open>
  C22: guessing caller names locks the source out. When an INVITE without a known caller is the one that reaches the threshold of failures of its
  address within the window, every later INVITE from that address with a callee and hops left, whoever it names, is answered 403 and moves nothing until the
  block time has passed, however the rest of the traffic goes on in between.
\<close>

theorem invite_lockout:
  assumes "cs_invite_guard st = guard_run L h" "sorted (map fst h @ [ev_instant (cw_env w)])"
    and "request_user msg \<noteq> []" "max_forwards msg \<noteq> 0" "\<not> fst (is_blocked (ev_instant (cw_env w)) (show_ip (sa_ip src)) (cs_invite_guard st))"
    and "invite_caller msg = ''unknown'' \<or> caller_account_exists (cw_env w) (invite_caller msg) (cfg_sip_domain cfg) st = Ok False"
    and "ip_fail_threshold L \<le> Suc (length (filter (in_window (secs (window_secs L)) (ev_instant (cw_env w))) (ip_fail_times (show_ip (sa_ip src)) h)))"
    and "cs_invite_guard st' = fold guard_step es (cs_invite_guard (snd (proxy_invite cfg w msg src st)))"
    and "\<forall>e \<in> set es. \<not> touches (show_ip (sa_ip src)) e \<and> (\<forall>s \<in> set (op_times e). s \<le> ev_instant (cw_env w'))"
    and "ev_instant (cw_env w) \<le> ev_instant (cw_env w')" "ev_instant (cw_env w') < ev_instant (cw_env w) + secs (block_secs L)"
    and "sa_ip src' = sa_ip src" "request_user msg' \<noteq> []" "max_forwards msg' \<noteq> 0"
  shows "fst (proxy_invite cfg w' msg' src' st') = Ok (build (base_response msg' 403 ''Forbidden'')) \<and>
    same_traffic st' (snd (proxy_invite cfg w' msg' src' st'))"
proof -
  let ?ip = "show_ip (sa_ip src)" and ?now = "ev_instant (cw_env w)" and ?h = "h @ [(ev_instant (cw_env w), IsBlocked (show_ip (sa_ip src)))]"
  obtain u where g: "cs_invite_guard (snd (proxy_invite cfg w msg src st)) = snd (record_failure ?now ?now SipInvite ?ip u (guard_run L ?h))"
    by (rule invite_rejected_guard [OF assms(3-6)]) (simp add: assms(1) guard_run_def)
  let ?f = "record_failure ?now ?now SipInvite ?ip u (guard_run L ?h)"
  have "sorted (map fst ?h @ [?now])" using assms(2) by (auto simp: sorted_append)
  then have "fst ?f" using assms(7) by (subst record_failure_iff) (auto simp: ip_fail_times_append in_window_def)
  then have b: "fst (is_blocked (ev_instant (cw_env w')) (show_ip (sa_ip src')) (cs_invite_guard st'))"
    unfolding assms(8,12) g by (subst block_lasts) (use assms(9-11) in auto)
  then show ?thesis using assms(13,14) by (simp add: proxy_invite_def Let_def split_beta same_traffic_def)
qed

definition example_wary :: call_server where
  "example_wary = example_ready\<lparr>sv_accounts := [], cs_invite_guard := guard_new
     \<lparr>window_secs = 60, ip_fail_threshold = 1, user_ip_fail_threshold = 2, block_secs = 30\<rparr>\<rparr>"

definition example_later :: call_world where
  "example_later = example_call_world\<lparr>cw_vm := example_world\<lparr>vw_env := example_env\<lparr>ev_instant := 29999999999\<rparr>\<rparr>\<rparr>"

theorem invite_lockout_witness:
  "fst (proxy_invite example_config example_later example_call_invite listener_source
     (snd (proxy_invite example_config example_call_world example_call_invite listener_source example_wary)))
   = Ok (build (base_response example_call_invite 403 ''Forbidden''))"
proof -
  have g: "cs_invite_guard example_wary = guard_run \<lparr>window_secs = 60, ip_fail_threshold = 1, user_ip_fail_threshold = 2, block_secs = 30\<rparr> []"
    by (simp add: example_wary_def guard_run_def)
  have o: "\<not> fst (is_blocked t ip (cs_invite_guard example_wary))" for t ip
    by (simp add: example_wary_def guard_new_def is_blocked_def prune_expired_blocks_def hm_retain_def)
  have a: "caller_account_exists example_env u d example_wary = Ok False" for u d
    by (simp add: caller_account_exists_def example_simps example_wary_def)
  show ?thesis
    by (rule invite_lockout [OF g, where es = "[]" and w = example_call_world and msg = example_call_invite and src = listener_source and cfg = example_config, THEN conjunct1])
      (simp_all add: example_invite_reads o a example_later_def, simp_all add: example_env_def secs_def)
qed

end
