(* ===== verification/Conference.thy ===== *)
theory Conference
  imports Call_State
begin

text \<open>
  The conference endpoint, \<open>conference.rs\<close>: joining a room with an INVITE, leaving it, and muting by INFO.
  \<open>bcrypt::verify\<close> is that of the voicemail world, with an error taken as false. The table of participants has
  the Call-ID as a key.
\<close>

section \<open>Definitions\<close>

definition extract_pin_from_uri :: "string \<Rightarrow> string option" where
  "extract_pin_from_uri uri =
     (case List.map_filter (\<lambda>param. case split_once (CHR ''='') param of
             None \<Rightarrow> None
           | Some (key, value) \<Rightarrow> if trim key = ''pin'' then Some (trim value) else None) (tl (split_on (CHR '';'') uri)) of
        [] \<Rightarrow> None
      | pin # _ \<Rightarrow> Some pin)"

definition validate_conference_extension :: "string \<Rightarrow> bool" where
  "validate_conference_extension extension = (length extension = 9 \<and> list_all is_ascii_digit extension)"

definition is_conference_call :: "string \<Rightarrow> 'a call_server_scheme \<Rightarrow> bool" where
  "is_conference_call cid st = (hm_get (cs_conf_calls st) cid \<noteq> None)"

definition lookup_room :: "env \<Rightarrow> string \<Rightarrow> string \<Rightarrow> 'a call_server_scheme \<Rightarrow> (u64 \<times> u32) option" where
  "lookup_room env extension domain st =
     (if \<not> validate_conference_extension extension \<or> ev_fails env SelectRoom then None
      else map_option (\<lambda>r. (cr_id r, cr_max_participants r))
             (find (\<lambda>r. cr_extension r = extension \<and> cr_domain r = domain \<and> cr_enabled r = 1) (cs_rooms st)))"

definition conf_with_to_tag :: "string \<Rightarrow> string \<Rightarrow> string" where
  "conf_with_to_tag to tag =
     (if to = [] then '';tag='' @ tag
      else if contains_str '';tag='' (to_lower to) then to
      else to @ '';tag='' @ tag)"

definition conference_epoch_id :: "env \<Rightarrow> u64" where
  "conference_epoch_id env = of_nat (ev_utc env)"

definition codec_label :: "conference_codec \<Rightarrow> string" where
  "codec_label c = (case c of ConfPcmu \<Rightarrow> ''PCMU'' | ConfPcma \<Rightarrow> ''PCMA'')"

text \<open>\<open>INSERT \<dots> ON DUPLICATE KEY UPDATE\<close>: a row that exists keeps its room.\<close>

definition upsert_participant ::
  "env \<Rightarrow> u64 \<Rightarrow> string \<Rightarrow> string \<Rightarrow> socket_addr \<Rightarrow> u16 \<Rightarrow> string \<Rightarrow> 'a call_server_scheme \<Rightarrow> 'a call_server_scheme" where
  "upsert_participant env room_id cid account src relay_port codec st =
     (if ev_fails env UpsertParticipant then st
      else let row = \<lparr>pt_room_id = (case hm_get (cs_participants st) cid of None \<Rightarrow> room_id | Some p \<Rightarrow> pt_room_id p),
                      pt_account = account, pt_source_ip = show_ip (sa_ip src), pt_source_port = sa_port src,
                      pt_relay_port = relay_port, pt_codec = codec, pt_muted = False, pt_joined_at = ev_utc env, pt_left_at = None\<rparr>
           in st\<lparr>cs_participants := hm_put cid row (cs_participants st)\<rparr>)"

definition active_participants :: "u64 \<Rightarrow> 'a call_server_scheme \<Rightarrow> nat" where
  "active_participants room_id st =
     length (filter (\<lambda>(_, p). pt_room_id p = room_id \<and> pt_left_at p = None) (cs_participants st))"

text \<open>From the offer on: the negotiation, the socket, the row and the answer.\<close>

definition conference_join ::
  "sip_config \<Rightarrow> call_world \<Rightarrow> sip_message \<Rightarrow> socket_addr \<Rightarrow> u64 \<Rightarrow> string \<Rightarrow> string \<Rightarrow> string \<Rightarrow> 'a call_server_scheme
    \<Rightarrow> (string, string) outcome \<times> 'a call_server_scheme" where
  "conference_join cfg w msg src room_id extension caller cid st =
     (case conf_negotiate_offer (m_body msg) of
        Err e \<Rightarrow> (Ok (build (base_response msg 488 ''Not Acceptable Here'')), st)
      | Panic \<Rightarrow> (Panic, st)
      | Ok n \<Rightarrow>
          (case join_room (cw_ports w) (cw_rtp_start w) room_id cid (cn_codec n) (cn_audio_pt n) (cn_telephone_event_pt n) (cs_conf_media st) of
             (Err e, media) \<Rightarrow> (Ok (build (base_response msg 500 ''Internal Server Error'')), st\<lparr>cs_conf_media := media\<rparr>)
           | (Panic, media) \<Rightarrow> (Panic, st\<lparr>cs_conf_media := media\<rparr>)
           | (Ok relay_port, media) \<Rightarrow>
               (let env = cw_env w;
                    session_id = conference_epoch_id env;
                    answer = conf_build_answer (cm_public_ip media) relay_port n session_id;
                    st = upsert_participant env room_id cid caller src relay_port (codec_label (cn_codec n)) (st\<lparr>cs_conf_media := media\<rparr>);
                    to_tag = ''conf-'' @ show_radix 16 (unat session_id);
                    to_with_tag = conf_with_to_tag (case to_header msg of None \<Rightarrow> [] | Some t \<Rightarrow> t) to_tag;
                    st = st\<lparr>cs_conf_calls := hm_put cid \<lparr>cc_room_id = room_id, cc_extension = extension, cc_domain = cfg_sip_domain cfg,
                      cc_caller_account = caller, cc_to_tag = to_tag\<rparr> (cs_conf_calls st)\<rparr>
                in (Ok (build (set_body answer
                     (add_header ''Allow'' ''INVITE, ACK, CANCEL, BYE, INFO''
                     (add_header ''Content-Type'' ''application/sdp''
                     (add_header ''Contact'' (''<sip:'' @ extension @ ''@'' @ cfg_public_ip cfg @ '':'' @ show_uint (cfg_sip_port cfg) @ ''>'')
                     (base_response_with_to msg 200 ''OK'' to_with_tag)))))), st))))"

text \<open>The PIN of the room, when it has one; \<open>None\<close> admits.\<close>

definition pin_refusal :: "voicemail_world \<Rightarrow> string option \<Rightarrow> string \<Rightarrow> string option" where
  "pin_refusal w pin_hash request_uri =
     (case pin_hash of
        None \<Rightarrow> None
      | Some expected_hash \<Rightarrow>
          (case extract_pin_from_uri request_uri of
             Some pin \<Rightarrow> if vw_verify w pin expected_hash then None else Some ''Forbidden - Invalid PIN''
           | None \<Rightarrow> Some ''Forbidden - PIN Required''))"

definition conference_invite ::
  "sip_config \<Rightarrow> call_world \<Rightarrow> sip_message \<Rightarrow> socket_addr \<Rightarrow> u64 \<Rightarrow> u32 \<Rightarrow> 'a call_server_scheme
    \<Rightarrow> (string, string) outcome \<times> 'a call_server_scheme" where
  "conference_invite cfg w msg src room_id max_participants st =
     (let env = cw_env w;
          request_uri = (case m_request_uri msg of None \<Rightarrow> [] | Some u \<Rightarrow> u);
          extension = (case uri_username request_uri of None \<Rightarrow> [] | Some u \<Rightarrow> u);
          caller = (case Option.bind (Option.bind (from_header msg) extract_uri) uri_username of None \<Rightarrow> ''unknown'' | Some u \<Rightarrow> u);
          cid = (case call_id msg of None \<Rightarrow> [] | Some c \<Rightarrow> c)
      in if cid = [] then (Ok (build (base_response msg 400 ''Bad Request'')), st)
         else if caller = ''unknown'' then (Ok (build (base_response msg 403 ''Forbidden'')), st)
         else case caller_account_exists env caller (cfg_sip_domain cfg) st of
                Err e \<Rightarrow> (Err e, st)
              | Panic \<Rightarrow> (Panic, st)
              | Ok False \<Rightarrow> (Ok (build (base_response msg 403 ''Forbidden'')), st)
              | Ok True \<Rightarrow>
                  if ev_fails env SelectRoomPin then (Err db_error, st)
                  else case pin_refusal (cw_vm w) (Option.bind (find (\<lambda>r. cr_id r = room_id) (cs_rooms st)) cr_pin_hash) request_uri of
                         Some reason \<Rightarrow> (Ok (build (base_response msg 403 reason)), st)
                       | None \<Rightarrow>
                           if ev_fails env CountParticipants then (Err db_error, st)
                           else if unat max_participants \<le> active_participants room_id st
                           then (Ok (build (base_response msg 486 ''Busy Here'')), st)
                           else conference_join cfg w msg src room_id extension caller cid st)"

definition participant_left :: "env \<Rightarrow> string \<Rightarrow> 'a call_server_scheme \<Rightarrow> 'a call_server_scheme" where
  "participant_left env cid st =
     (if ev_fails env LeaveParticipant then st
      else st\<lparr>cs_participants := hm_adjust cid (\<lambda>p. if pt_left_at p = None then p\<lparr>pt_left_at := Some (ev_utc env)\<rparr> else p) (cs_participants st)\<rparr>)"

text \<open>\<open>handle_bye\<close>, and \<open>handle_cancel\<close>, which calls it.\<close>

definition conference_bye ::
  "env \<Rightarrow> sip_message \<Rightarrow> 'a call_server_scheme \<Rightarrow> (string, string) outcome \<times> 'a call_server_scheme" where
  "conference_bye env msg st =
     (let cid = (case call_id msg of None \<Rightarrow> [] | Some c \<Rightarrow> c);
          removed = hm_get (cs_conf_calls st) cid;
          st = st\<lparr>cs_conf_calls := hm_del cid (cs_conf_calls st)\<rparr>;
          st = (case removed of
                  None \<Rightarrow> st
                | Some call \<Rightarrow> participant_left env cid (st\<lparr>cs_conf_media := leave_room (cc_room_id call) cid (cs_conf_media st)\<rparr>))
      in (Ok (build (base_response msg 200 ''OK'')), st))"

definition star6_event :: "string \<Rightarrow> u8 option" where
  "star6_event body =
     (case List.map_filter (\<lambda>l. let l = trim l in
             case strip_prefix ''Signal='' l of Some s \<Rightarrow> Some s | None \<Rightarrow> strip_prefix ''signal='' l) (lines body) of
        [] \<Rightarrow> None
      | s # _ \<Rightarrow>
          (case trim s of
             [] \<Rightarrow> None
           | c # _ \<Rightarrow>
               if c = CHR ''*'' then Some 10
               else if c = CHR ''#'' then Some 11
               else if is_ascii_digit c then Some (of_nat (of_char c - 48))
               else None))"

definition parse_dtmf_relay_for_star6 ::
  "nat \<Rightarrow> string \<Rightarrow> u64 \<Rightarrow> string \<Rightarrow> conference_media \<Rightarrow> bool option \<times> conference_media" where
  "parse_dtmf_relay_for_star6 now body room_id cid media =
     (case star6_event body of None \<Rightarrow> (None, media) | Some event \<Rightarrow> record_dtmf_for now room_id cid event media)"

definition conference_info ::
  "env \<Rightarrow> sip_message \<Rightarrow> 'a call_server_scheme \<Rightarrow> (string, string) outcome \<times> 'a call_server_scheme" where
  "conference_info env msg st =
     (let cid = (case call_id msg of None \<Rightarrow> [] | Some c \<Rightarrow> c);
          ctype = to_lower (case header msg ''content-type'' of None \<Rightarrow> [] | Some c \<Rightarrow> c)
      in if \<not> contains_str ''application/dtmf-relay'' ctype \<and> \<not> contains_str ''application/dtmf'' ctype
         then (Ok (build (base_response msg 200 ''OK'')), st)
         else case hm_get (cs_conf_calls st) cid of
                None \<Rightarrow> (Ok (build (base_response msg 481 ''Call/Transaction Does Not Exist'')), st)
              | Some call \<Rightarrow>
                  (let (toggled, media) = parse_dtmf_relay_for_star6 (ev_instant env) (m_body msg) (cc_room_id call) cid (cs_conf_media st);
                       st = st\<lparr>cs_conf_media := media\<rparr>;
                       st = (case toggled of
                               None \<Rightarrow> st
                             | Some now_muted \<Rightarrow>
                                 if ev_fails env MuteParticipant then st
                                 else st\<lparr>cs_participants := hm_adjust cid (\<lambda>p. p\<lparr>pt_muted := now_muted\<rparr>) (cs_participants st)\<rparr>)
                   in (Ok (build (base_response msg 200 ''OK'')), st)))"

definition reconcile_active_on_startup :: "env \<Rightarrow> 'a call_server_scheme \<Rightarrow> (string, unit) outcome \<times> 'a call_server_scheme" where
  "reconcile_active_on_startup env st =
     (if ev_fails env EndParticipants then (Err db_error, st)
      else (Ok (), st\<lparr>cs_participants := map (\<lambda>(c, p). (c, if pt_left_at p = None then p\<lparr>pt_left_at := Some (ev_utc env)\<rparr> else p)) (cs_participants st)\<rparr>))"

section \<open>Who gets into a room\<close>

definition conference_caller :: "sip_message \<Rightarrow> string" where
  "conference_caller msg = (case Option.bind (Option.bind (from_header msg) extract_uri) uri_username of None \<Rightarrow> ''unknown'' | Some u \<Rightarrow> u)"

definition conference_admits ::
  "sip_config \<Rightarrow> call_world \<Rightarrow> sip_message \<Rightarrow> u64 \<Rightarrow> u32 \<Rightarrow> 'a call_server_scheme \<Rightarrow> bool" where
  "conference_admits cfg w msg room_id max_participants st =
     (call_id msg \<noteq> None \<and> call_id msg \<noteq> Some [] \<and> conference_caller msg \<noteq> ''unknown'' \<and>
      caller_account_exists (cw_env w) (conference_caller msg) (cfg_sip_domain cfg) st = Ok True \<and> \<not> ev_fails (cw_env w) SelectRoomPin \<and>
      pin_refusal (cw_vm w) (Option.bind (find (\<lambda>r. cr_id r = room_id) (cs_rooms st)) cr_pin_hash)
        (case m_request_uri msg of None \<Rightarrow> [] | Some u \<Rightarrow> u) = None \<and>
      \<not> ev_fails (cw_env w) CountParticipants \<and> active_participants room_id st < unat max_participants)"

lemma conference_admitted:
  assumes "conference_admits cfg w msg room_id n st" "call_id msg = Some cid"
  shows "conference_invite cfg w msg src room_id n st =
    conference_join cfg w msg src room_id (case uri_username (case m_request_uri msg of None \<Rightarrow> [] | Some u \<Rightarrow> u) of None \<Rightarrow> [] | Some u \<Rightarrow> u)
      (conference_caller msg) cid st"
  using assms unfolding conference_invite_def Let_def conference_caller_def [symmetric] conference_admits_def by simp

lemma conference_refused:
  assumes "\<not> conference_admits cfg w msg room_id n st"
  shows "snd (conference_invite cfg w msg src room_id n st) = st"
proof (cases "caller_account_exists (cw_env w) (conference_caller msg) (cfg_sip_domain cfg) st")
  case (Ok known)
  show ?thesis
  proof (cases known)
    case True
    then have ok: "caller_account_exists (cw_env w) (conference_caller msg) (cfg_sip_domain cfg) st = Ok True" using Ok by simp
    have "call_id msg = None \<or> call_id msg = Some [] \<or> conference_caller msg = ''unknown'' \<or> ev_fails (cw_env w) SelectRoomPin \<or>
        pin_refusal (cw_vm w) (Option.bind (find (\<lambda>r. cr_id r = room_id) (cs_rooms st)) cr_pin_hash)
          (case m_request_uri msg of None \<Rightarrow> [] | Some u \<Rightarrow> u) \<noteq> None \<or>
        ev_fails (cw_env w) CountParticipants \<or> \<not> active_participants room_id st < unat n"
      using assms ok unfolding conference_admits_def by satx
    then show ?thesis
      unfolding conference_invite_def Let_def conference_caller_def [symmetric] Ok outcome.case using True
      by (elim disjE; cases "pin_refusal (cw_vm w) (Option.bind (find (\<lambda>r. cr_id r = room_id) (cs_rooms st)) cr_pin_hash)
          (case m_request_uri msg of None \<Rightarrow> [] | Some u \<Rightarrow> u)"; simp)
  qed (simp only: conference_invite_def Let_def conference_caller_def [symmetric] Ok outcome.case bool.case if_distrib [of snd] snd_conv if_cancel)
qed (simp_all only: conference_invite_def Let_def conference_caller_def [symmetric] outcome.case if_distrib [of snd] snd_conv if_cancel)

text \<open>
  C12: joining a room needs an account, its PIN and a free place. When an INVITE to a conference changes anything, its From names an
  enabled account, the PIN in its URI matches the hash of the room if the room has one, and the room had fewer active participants than its limit.
\<close>

theorem conference_admission:
  assumes "snd (conference_invite cfg w msg src room_id n st) \<noteq> st"
  shows "(\<exists>a. hm_get (sv_accounts st) (conference_caller msg, cfg_sip_domain cfg) = Some a \<and> ac_enabled a = 1) \<and>
    (\<forall>r h. find (\<lambda>r. cr_id r = room_id) (cs_rooms st) = Some r \<longrightarrow> cr_pin_hash r = Some h \<longrightarrow>
       (\<exists>uri pin. m_request_uri msg = Some uri \<and> extract_pin_from_uri uri = Some pin \<and> vw_verify (cw_vm w) pin h)) \<and>
    active_participants room_id st < unat n"
proof -
  have a: "conference_admits cfg w msg room_id n st" using conference_refused assms by blast
  have e: "extract_pin_from_uri [] = None" by code_simp
  have "\<exists>uri pin. m_request_uri msg = Some uri \<and> extract_pin_from_uri uri = Some pin \<and> vw_verify (cw_vm w) pin h"
    if "find (\<lambda>r. cr_id r = room_id) (cs_rooms st) = Some r" "cr_pin_hash r = Some h" for r h
    using a that e unfolding conference_admits_def pin_refusal_def by (cases "m_request_uri msg") (auto split: option.splits if_splits)
  then show ?thesis using a by (auto simp: conference_admits_def caller_account_exists_def split: if_splits option.splits)
qed

section \<open>Calls and participants\<close>

lemma join_room_shape:
  assumes "join_room os rnd k cid codec pt te s = (Ok port, s')"
  shows "part_of k' c s' = (if k' = k \<and> c = cid then Some (cm_next s) else part_of k' c s)"
    "\<exists>p. cm_parts s' = hm_put (cm_next s) p (cm_parts s) \<and> cp_relay_port p = port \<and> cp_codec p = codec \<and> cp_audio_pt p = pt \<and> \<not> cp_muted p \<and> cp_recv_task p"
    "cm_public_ip s' = cm_public_ip s"
  using assms
  by (auto simp: join_room_def part_of_def empty_room_def Let_def hm.get_put split: prod.splits outcome.splits option.splits if_splits)

lemma join_room_failed: "join_room os rnd k cid codec pt te s = (r, s') \<Longrightarrow> \<forall>port. r \<noteq> Ok port \<Longrightarrow> part_of k' c s' = part_of k' c s"
  by (auto simp: join_room_def part_of_def Let_def split: prod.splits outcome.splits)

lemma leave_room_part: "part_of k' c (leave_room k cid s) = (if k' = k \<and> c = cid then None else part_of k' c s)"
proof (cases "hm_get (cm_rooms s) k")
  case None
  then show ?thesis by (simp add: leave_room_def part_of_def)
next
  case (Some room)
  define s1 where "s1 = (case hm_get (rm_participants room) cid of None \<Rightarrow> s | Some i \<Rightarrow> stop_recv i s)"
  have s1: "cm_rooms s1 = cm_rooms s" by (simp add: s1_def stop_recv_def split: option.split)
  show ?thesis
  proof (cases "hm_del cid (rm_participants room) = []")
    case True
    then have "hm_get (rm_participants room) x = (if x = cid then hm_get (rm_participants room) cid else None)" for x
      using hm.get_del [of cid "rm_participants room" x] by auto
    then have "hm_get (rm_participants room) x = None" if "x \<noteq> cid" for x using that by meson
    then show ?thesis using Some True s1 by (auto simp: leave_room_def part_of_def Let_def s1_def [symmetric] hm.get_del split: option.split)
  next
    case False
    then show ?thesis using Some s1 by (auto simp: leave_room_def part_of_def Let_def s1_def [symmetric] hm.get_put hm.get_del split: option.split)
  qed
qed

text \<open>Every conference call is a participant of its room in the mixer.\<close>

definition conf_linked :: "'a call_server_scheme \<Rightarrow> bool" where
  "conf_linked st = (\<forall>cid call. hm_get (cs_conf_calls st) cid = Some call \<longrightarrow> part_of (cc_room_id call) cid (cs_conf_media st) \<noteq> None)"

lemma dtmf_part: "part_of k' c (snd (record_dtmf_for now k cid e s)) = part_of k' c s"
  by (simp add: record_dtmf_for_def part_of_def split: option.split)

lemma upsert_frame [simp]:
  "cs_conf_calls (upsert_participant env k cid a src p c st) = cs_conf_calls st" "cs_conf_media (upsert_participant env k cid a src p c st) = cs_conf_media st"
  by (simp_all add: upsert_participant_def Let_def)

lemma linked_put:
  assumes "conf_linked st" "cs_conf_calls st' = hm_put cid call (cs_conf_calls st)"
    and "\<And>k c. part_of k c (cs_conf_media st') = (if k = cc_room_id call \<and> c = cid then Some i else part_of k c (cs_conf_media st))"
  shows "conf_linked st'"
  using assms by (auto simp: conf_linked_def hm.get_put simp del: map_of_eq_Some_iff split: if_splits)

lemma join_linked:
  assumes "conf_linked st"
  shows "conf_linked (snd (conference_join cfg w msg src k ext caller cid st))"
proof (cases "conf_negotiate_offer (m_body msg)")
  case (Ok n)
  let ?j = "join_room (cw_ports w) (cw_rtp_start w) k cid (cn_codec n) (cn_audio_pt n) (cn_telephone_event_pt n) (cs_conf_media st)"
  obtain r media where j: "?j = (r, media)" by force
  show ?thesis
  proof (cases r)
    case ok: (Ok port)
    have p: "part_of x c media = (if x = k \<and> c = cid then Some (cm_next (cs_conf_media st)) else part_of x c (cs_conf_media st))" for x c
      by (rule join_room_shape(1)) (use j ok in simp)
    show ?thesis
      by (rule linked_put [OF assms, of _ cid "\<lparr>cc_room_id = k, cc_extension = ext, cc_domain = cfg_sip_domain cfg, cc_caller_account = caller,
            cc_to_tag = ''conf-'' @ show_radix 16 (unat (conference_epoch_id (cw_env w)))\<rparr>" "cm_next (cs_conf_media st)"])
        (simp_all add: conference_join_def Ok j ok p Let_def)
  qed (use j Ok assms join_room_failed [OF j] in \<open>simp_all add: conference_join_def conf_linked_def\<close>)
qed (use assms in \<open>simp_all add: conference_join_def\<close>)

lemma invite_linked: "conf_linked st \<Longrightarrow> conf_linked (snd (conference_invite cfg w msg src k n st))"
  by (cases "conference_admits cfg w msg k n st"; cases "call_id msg")
    (auto simp: conference_refused conference_admitted join_linked conference_admits_def)

lemma bye_linked:
  assumes "conf_linked st"
  shows "conf_linked (snd (conference_bye env msg st))"
  using assms
  by (auto simp: conference_bye_def conf_linked_def participant_left_def Let_def hm.get_del leave_room_part simp del: map_of_eq_Some_iff split: option.splits)

lemma info_linked: "conf_linked st \<Longrightarrow> conf_linked (snd (conference_info env msg st))"
  by (auto simp: conference_info_def conf_linked_def parse_dtmf_relay_for_star6_def Let_def dtmf_part split_beta split: option.split)

section \<open>Joining and leaving\<close>

lemma joined_state:
  assumes "conf_negotiate_offer (m_body msg) = Ok n"
    and "join_room (cw_ports w) (cw_rtp_start w) k cid (cn_codec n) (cn_audio_pt n) (cn_telephone_event_pt n) (cs_conf_media st) = (Ok port, media)"
  obtains call hs where "cc_room_id call = k"
    "fst (conference_join cfg w msg src k ext caller cid st) =
       Ok (build (set_body (conf_build_answer (cm_public_ip (cs_conf_media st)) port n (conference_epoch_id (cw_env w))) hs))"
    "cs_conf_media (snd (conference_join cfg w msg src k ext caller cid st)) = media"
    "cs_conf_calls (snd (conference_join cfg w msg src k ext caller cid st)) = hm_put cid call (cs_conf_calls st)"
    "cs_participants (snd (conference_join cfg w msg src k ext caller cid st)) =
       cs_participants (upsert_participant (cw_env w) k cid caller src port (codec_label (cn_codec n)) st)"
proof -
  have "cs_participants (upsert_participant (cw_env w) k cid caller src port c (st\<lparr>cs_conf_media := media\<rparr>)) =
      cs_participants (upsert_participant (cw_env w) k cid caller src port c st)" for c by (simp add: upsert_participant_def)
  then show ?thesis
    using assms join_room_shape(3) [OF assms(2)]
    by (intro that [of "\<lparr>cc_room_id = k, cc_extension = ext, cc_domain = cfg_sip_domain cfg, cc_caller_account = caller,
            cc_to_tag = ''conf-'' @ show_radix 16 (unat (conference_epoch_id (cw_env w)))\<rparr>"]) (simp_all add: conference_join_def Let_def)
qed

text \<open>
  C21: an admitted INVITE with an acceptable offer joins the room. The answer carries the SDP answer with the port of a socket of the mixer; the
  participant behind that socket is in the room under the Call-ID, unmuted, with the negotiated codec and payload type; the table has an
  active row with the port; and the Call-ID is known as a conference call.
\<close>

theorem conference_joined:
  assumes "conference_admits cfg w msg k limit st" "call_id msg = Some cid" "conf_negotiate_offer (m_body msg) = Ok n"
    and "fst (join_room (cw_ports w) (cw_rtp_start w) k cid (cn_codec n) (cn_audio_pt n) (cn_telephone_event_pt n) (cs_conf_media st)) = Ok port"
    and "\<not> ev_fails (cw_env w) UpsertParticipant"
  shows "let (res, st') = conference_invite cfg w msg src k limit st in
    (\<exists>hs. res = Ok (build (set_body (conf_build_answer (cm_public_ip (cs_conf_media st)) port n (conference_epoch_id (cw_env w))) hs))) \<and>
    (\<exists>i p. part_of k cid (cs_conf_media st') = Some i \<and> hm_get (cm_parts (cs_conf_media st')) i = Some p \<and> cp_relay_port p = port \<and>
       cp_codec p = cn_codec n \<and> cp_audio_pt p = cn_audio_pt n \<and> \<not> cp_muted p \<and> cp_recv_task p) \<and>
    (\<exists>row. hm_get (cs_participants st') cid = Some row \<and> pt_account row = conference_caller msg \<and> pt_relay_port row = port \<and> pt_left_at row = None) \<and>
    is_conference_call cid st'"
proof -
  obtain media where j: "join_room (cw_ports w) (cw_rtp_start w) k cid (cn_codec n) (cn_audio_pt n) (cn_telephone_event_pt n) (cs_conf_media st) = (Ok port, media)"
    using assms(4) by (metis prod.collapse)
  let ?ext = "case uri_username (case m_request_uri msg of None \<Rightarrow> [] | Some u \<Rightarrow> u) of None \<Rightarrow> [] | Some u \<Rightarrow> u"
  obtain call hs where f: "fst (conference_join cfg w msg src k ?ext (conference_caller msg) cid st) =
       Ok (build (set_body (conf_build_answer (cm_public_ip (cs_conf_media st)) port n (conference_epoch_id (cw_env w))) hs))"
    "cs_conf_media (snd (conference_join cfg w msg src k ?ext (conference_caller msg) cid st)) = media"
    "cs_conf_calls (snd (conference_join cfg w msg src k ?ext (conference_caller msg) cid st)) = hm_put cid call (cs_conf_calls st)"
    "cs_participants (snd (conference_join cfg w msg src k ?ext (conference_caller msg) cid st)) =
       cs_participants (upsert_participant (cw_env w) k cid (conference_caller msg) src port (codec_label (cn_codec n)) st)"
    by (rule joined_state [OF assms(3) j, of cfg src ?ext "conference_caller msg"]) blast
  obtain p where p: "hm_get (cm_parts media) (cm_next (cs_conf_media st)) = Some p" "cp_relay_port p = port" "cp_codec p = cn_codec n"
      "cp_audio_pt p = cn_audio_pt n" "\<not> cp_muted p" "cp_recv_task p"
    using join_room_shape(2) [OF j] by (auto simp: hm.get_put simp del: map_of_eq_Some_iff)
  show ?thesis
    unfolding conference_admitted [OF assms(1,2)] split_beta Let_def
    using f p assms(5) join_room_shape(1) [OF j, of k cid] by (auto simp: upsert_participant_def is_conference_call_def hm.get_put Let_def)
qed

text \<open>
  A second INVITE in a conference call leaks its first socket. When the caller of an active conference call sends INVITE again with its Call-ID,
  which is admitted and joins a second participant, then BYE takes the call out of the room, but the port of the first socket stays bound.
\<close>

theorem conference_reinvite_leaks:
  assumes "conf_wf (cs_conf_media st)" "part_of k cid (cs_conf_media st) = Some i" "hm_get (cm_parts (cs_conf_media st)) i = Some p" "cp_recv_task p"
    and "conference_admits cfg w msg k limit st" "call_id msg = Some cid" "conf_negotiate_offer (m_body msg) = Ok n"
    and "fst (join_room (cw_ports w) (cw_rtp_start w) k cid (cn_codec n) (cn_audio_pt n) (cn_telephone_event_pt n) (cs_conf_media st)) = Ok port"
    and "call_id bye = Some cid"
  shows "let st' = snd (conference_bye env bye (snd (conference_invite cfg w msg src k limit st))) in
    \<not> is_conference_call cid st' \<and> part_of k cid (cs_conf_media st') = None \<and> cp_relay_port p \<in> set (conf_bound_ports (cs_conf_media st'))"
proof -
  obtain media where j: "join_room (cw_ports w) (cw_rtp_start w) k cid (cn_codec n) (cn_audio_pt n) (cn_telephone_event_pt n) (cs_conf_media st) = (Ok port, media)"
    using assms(8) by (metis prod.collapse)
  define st1 where "st1 = snd (conference_invite cfg w msg src k limit st)"
  obtain call where f: "cc_room_id call = k" "cs_conf_media st1 = media" "cs_conf_calls st1 = hm_put cid call (cs_conf_calls st)"
    unfolding st1_def conference_admitted [OF assms(5,6)] by (rule joined_state [OF assms(7) j]) blast
  have "i < cm_next (cs_conf_media st)"
    using assms(1,3) unfolding conf_wf_def by (auto dest!: map_of_SomeD)
  then have i: "hm_get (cm_parts media) i = Some p" "part_of k cid media = Some (cm_next (cs_conf_media st))" "i \<noteq> cm_next (cs_conf_media st)"
    using join_room_shape(2) [OF j] join_room_shape(1) [OF j, of k cid] assms(3) by (auto simp: hm.get_put simp del: map_of_eq_Some_iff)
  have l: "hm_get (cm_parts (leave_room k cid media)) i = Some p"
    using i by (simp add: leave_room_def part_of_def stop_recv_def Let_def split: option.splits)
  have "(i, p) \<in> set (cm_parts (leave_room k cid media))" using l by (rule map_of_SomeD)
  then have "cp_relay_port p \<in> set (conf_bound_ports (leave_room k cid media))" using assms(4) by (force simp: conf_bound_ports_def)
  moreover have "cs_conf_media (snd (conference_bye env bye st1)) = leave_room k cid media"
    "cs_conf_calls (snd (conference_bye env bye st1)) = hm_del cid (cs_conf_calls st1)"
    using f assms(9) by (simp_all add: conference_bye_def participant_left_def hm.get_put Let_def)
  ultimately show ?thesis unfolding st1_def [symmetric] by (simp add: is_conference_call_def hm.get_del leave_room_part)
qed

section \<open>An example conference\<close>

definition example_conf_invite :: sip_message where
  "example_conf_invite = \<lparr>m_method = Some ''INVITE'', m_request_uri = Some ''sip:900000000@x.org;pin=42'', m_status_code = None,
     m_headers = [(''from'', [''<sip:1001@x.org>;tag=9'']), (''call-id'', [''k1''])], m_body = example_offer, m_raw = []\<rparr>"

definition example_negotiation :: conference_negotiation where
  "example_negotiation = \<lparr>cn_codec = ConfPcma, cn_audio_pt = 8, cn_telephone_event_pt = Some 101\<rparr>"

lemma example_conf_reads:
  "call_id example_conf_invite = Some ''k1''" "conference_caller example_conf_invite = ''1001''" "m_request_uri example_conf_invite = Some ''sip:900000000@x.org;pin=42''"
  "extract_pin_from_uri ''sip:900000000@x.org;pin=42'' = Some ''42''"
  by code_simp+

lemma example_negotiated: "conf_negotiate_offer (m_body example_conf_invite) = Ok example_negotiation"
  by (simp add: example_conf_invite_def example_negotiation_def conf_negotiate_offer_def example_offer_scan resolve_pt_def)

definition example_media_first :: conference_media where
  "example_media_first = snd (join_room (\<lambda>p. True) (0, 0, 0) 1 ''k1'' ConfPcma 8 (Some 101) (conference_media_new ''203.0.113.9'' 20000 20010))"

lemma example_joins:
  "fst (join_room (\<lambda>p. True) (0, 0, 0) 1 ''k1'' ConfPcma 8 (Some 101) (conference_media_new ''203.0.113.9'' 20000 20010)) = Ok 20000"
  "fst (join_room (\<lambda>p. True) (0, 0, 0) 1 ''k1'' ConfPcma 8 (Some 101) example_media_first) = Ok 20001"
  "part_of 1 ''k1'' example_media_first = Some 0"
  "map_option (\<lambda>p. (cp_relay_port p, cp_recv_task p)) (hm_get (cm_parts example_media_first) 0) = Some (20000, True)"
  by code_simp+

lemma example_admits:
  "conference_admits example_config example_call_world example_conf_invite 1 2 (example_calls\<lparr>cs_conf_media := m\<rparr>)"
  by (simp add: conference_admits_def example_conf_reads pin_refusal_def caller_account_exists_def active_participants_def example_room_def)
    (simp add: example_world_def example_env_def example_config_def)

lemma example_world_start [simp]: "cw_rtp_start example_call_world = (0, 0, 0)"
  by (simp add: example_call_world_def)

lemma example_admits_first: "conference_admits example_config example_call_world example_conf_invite 1 2 example_calls"
proof -
  have "example_calls\<lparr>cs_conf_media := cs_conf_media example_calls\<rparr> = example_calls" by (simp del: example_calls_selectors)
  then show ?thesis using example_admits [of "cs_conf_media example_calls"] by (simp only:)
qed

theorem conference_admission_witness:
  "vw_verify (cw_vm example_call_world) ''42'' ''42'' \<and> active_participants 1 example_calls < unat (2 :: u32)"
proof -
  have "\<exists>port media. join_room (cw_ports example_call_world) (cw_rtp_start example_call_world) 1 ''k1'' (cn_codec example_negotiation) (cn_audio_pt example_negotiation)
      (cn_telephone_event_pt example_negotiation) (cs_conf_media example_calls) = (Ok port, media)"
    using example_joins(1) by (simp add: example_negotiation_def) (metis prod.collapse)
  then obtain port media where j: "join_room (cw_ports example_call_world) (cw_rtp_start example_call_world) 1 ''k1'' (cn_codec example_negotiation)
      (cn_audio_pt example_negotiation) (cn_telephone_event_pt example_negotiation) (cs_conf_media example_calls) = (Ok port, media)" by blast
  let ?st = "snd (conference_invite example_config example_call_world example_conf_invite listener_source 1 2 example_calls)"
  obtain call where "cs_conf_calls ?st = hm_put ''k1'' call (cs_conf_calls example_calls)"
    unfolding conference_admitted [OF example_admits_first example_conf_reads(1)] by (rule joined_state [OF example_negotiated j]) blast
  then have "?st \<noteq> example_calls" by auto
  from conference_admission [OF this] show ?thesis by (simp add: example_conf_reads example_room_def)
qed

theorem conference_joined_witness:
  "is_conference_call ''k1'' (snd (conference_invite example_config example_call_world example_conf_invite listener_source 1 2 example_calls))"
proof -
  have "\<not> ev_fails (cw_env example_call_world) UpsertParticipant" by (simp add: example_world_def example_env_def)
  then show ?thesis
    using conference_joined [OF example_admits_first example_conf_reads(1) example_negotiated, of 20000 listener_source] example_joins(1)
    by (simp add: example_negotiation_def split_beta Let_def)
qed

theorem conference_reinvite_leaks_witness:
  "20000 \<in> set (conf_bound_ports (cs_conf_media (snd (conference_bye example_env example_conf_invite
     (snd (conference_invite example_config example_call_world example_conf_invite listener_source 1 2 (example_calls\<lparr>cs_conf_media := example_media_first\<rparr>)))))))"
proof -
  obtain p where p: "hm_get (cm_parts example_media_first) 0 = Some p" "cp_relay_port p = 20000" "cp_recv_task p"
    using example_joins(4) by (cases "hm_get (cm_parts example_media_first) 0") auto
  have "conf_wf example_media_first" unfolding example_media_first_def by (intro join_room_wf conf_wf_new)
  then show ?thesis
    using conference_reinvite_leaks [OF _ _ _ p(3) example_admits [of example_media_first] example_conf_reads(1) example_negotiated, of 0 20001 example_conf_invite example_env listener_source]
      p(1,2) example_joins(2,3) by (simp add: example_negotiation_def example_conf_reads Let_def)
qed

end
