(* ===== verification/Handler.thy ===== *)
theory Handler
  imports Proxy Conference
begin

text \<open>
  The dispatcher, \<open>handler.rs\<close>: one function from a raw message of any transport to the response for its sender.
  Requests go to the voicemail endpoint, the conference endpoint, the registrar, presence or the proxy;
  responses go back to the caller of their call. Handling a message is one step.
\<close>

section \<open>Responses\<close>

definition handle_busy_to_voicemail ::
  "sip_config \<Rightarrow> call_world \<Rightarrow> sip_message \<Rightarrow> 'a call_server_scheme \<Rightarrow> (string, string option) outcome \<times> 'a call_server_scheme" where
  "handle_busy_to_voicemail cfg w msg st =
     (case call_id msg of
        None \<Rightarrow> (Ok None, st)
      | Some cid \<Rightarrow>
          (case Option.bind (Option.bind (to_header msg) extract_uri) uri_username of
             None \<Rightarrow> (Ok None, st)
           | Some callee \<Rightarrow>
               (case lookup_enabled_box (cw_env w) callee (cfg_sip_domain cfg) st of
                  None \<Rightarrow> (Ok None, st)
                | Some _ \<Rightarrow>
                    (case hm_get (cs_invites st) cid of
                       None \<Rightarrow> (Ok None, st)
                     | Some original_invite \<Rightarrow>
                         (let st = st\<lparr>cs_invites := hm_del cid (cs_invites st)\<rparr>;
                              st = snd (cancel_no_answer_timer cid st);
                              st = drop_call cid st
                          in case hm_get (cs_pending st) cid of
                               None \<Rightarrow> (Ok None, st)
                             | Some caller_addr \<Rightarrow>
                                 (case handle_delivery_invite cfg (cw_vm w) original_invite callee st of
                                    (Ok response, st) \<Rightarrow> (Ok (Some response), st)
                                  | (Err e, st) \<Rightarrow> (Ok None, st)
                                  | (Panic, st) \<Rightarrow> (Panic, st)))))))"

definition rewrite_200ok_sdp :: "string \<Rightarrow> string \<Rightarrow> 'a call_server_scheme \<Rightarrow> string option" where
  "rewrite_200ok_sdp cid sdp st =
     map_option (\<lambda>session. rewrite_sdp_media sdp (mr_public_ip (cs_relay st)) (caller_sdp_ports session)) (hm_get (mr_sessions (cs_relay st)) cid)"

text \<open>
  The answer of the callee as the caller gets it, with what the gateway learns from it. Applying the answer
  of a browser changes only the peer connection; its error is logged.
\<close>

definition relayed_answer :: "string \<Rightarrow> sip_message \<Rightarrow> string \<Rightarrow> 'a call_server_scheme \<Rightarrow> string \<times> 'a call_server_scheme" where
  "relayed_answer cid msg relayed st =
     (if \<not> is_invite_200_ok_with_sdp msg then (relayed, st)
      else case get_answer_sdp cid (cs_webrtc st) of
             Some answer_sdp \<Rightarrow>
               (rewrite_content_length relayed answer_sdp,
                (if is_sip_caller_session cid (cs_webrtc st) then st
                 else case sdp_rtp_addr (m_body msg) of
                        Some sip_rtp_addr \<Rightarrow> st\<lparr>cs_webrtc := learn_video_peer cid (m_body msg) (set_sip_peer cid sip_rtp_addr (cs_webrtc st))\<rparr>
                      | None \<Rightarrow> st))
           | None \<Rightarrow>
               (case rewrite_200ok_sdp cid (m_body msg) st of
                  Some new_sdp \<Rightarrow> (rewrite_content_length relayed new_sdp, st)
                | None \<Rightarrow> (relayed, st)))"

definition at_least :: "nat \<Rightarrow> sip_message \<Rightarrow> bool" where
  "at_least n msg = (case m_status_code msg of None \<Rightarrow> False | Some c \<Rightarrow> n \<le> unat c)"

definition relay_to_caller :: "sip_config \<Rightarrow> call_world \<Rightarrow> string \<Rightarrow> sip_message \<Rightarrow> socket_addr \<Rightarrow> 'a call_server_scheme \<Rightarrow> 'a call_server_scheme" where
  "relay_to_caller cfg w cid msg addr st =
     (let (relayed, st) = relayed_answer cid msg (strip_proxy_via (m_raw msg) (cfg_sip_domain cfg)) st;
          st = snd (send_sip (cw_env w) relayed addr st);
          st = (if at_least 200 msg then st\<lparr>cs_pending := hm_del cid (cs_pending st)\<rparr> else st)
      in if at_least 300 msg
         then st\<lparr>cs_relay := remove_session cid (cs_relay st), cs_webrtc := webrtc_remove_session cid (cs_webrtc st)\<rparr>
         else st)"

definition relay_response :: "sip_config \<Rightarrow> call_world \<Rightarrow> sip_message \<Rightarrow> 'a call_server_scheme \<Rightarrow> 'a call_server_scheme" where
  "relay_response cfg w msg st =
     (case call_id msg of
        None \<Rightarrow> st
      | Some cid \<Rightarrow>
          (let (canceled, st) = (if at_least 200 msg then cancel_no_answer_timer cid st else (CancelNotFound, st)) in
           if canceled = CancelAlreadyFired then drop_call cid st
           else case hm_get (cs_pending st) cid of
                  None \<Rightarrow> st
                | Some addr \<Rightarrow> relay_to_caller cfg w cid msg addr st))"

definition handle_response ::
  "sip_config \<Rightarrow> call_world \<Rightarrow> sip_message \<Rightarrow> 'a call_server_scheme \<Rightarrow> (string, string option) outcome \<times> 'a call_server_scheme" where
  "handle_response cfg w msg st =
     (let (busy, st) = (if m_status_code msg \<in> {Some 486, Some 600, Some 603} then handle_busy_to_voicemail cfg w msg st else (Ok None, st))
      in case busy of
           Ok (Some response) \<Rightarrow> (Ok (Some response), st)
         | Ok None \<Rightarrow> (Ok None, relay_response cfg w msg st)
         | Err e \<Rightarrow> (Err e, st)
         | Panic \<Rightarrow> (Panic, st))"

section \<open>Requests\<close>

definition handle_options :: "sip_message \<Rightarrow> (string, string) outcome" where
  "handle_options msg =
     Ok (build (add_header ''Accept'' ''application/sdp, text/plain'' (add_header ''Allow'' SIP_ALLOW_METHODS (base_response msg 200 ''OK''))))"

text \<open>A finished handler: its response with the errors turned into 500.\<close>

definition finished ::
  "sip_message \<Rightarrow> (string, string) outcome \<times> 'a call_server_scheme \<Rightarrow> (string, string option) outcome \<times> 'a call_server_scheme" where
  "finished msg r = (finalize_response msg (fst r), snd r)"

text \<open>The last part of \<open>process_sip_msg\<close>: registrar, presence, proxy.\<close>

definition route_generic ::
  "sip_config \<Rightarrow> call_world \<Rightarrow> string \<Rightarrow> sip_message \<Rightarrow> socket_addr \<Rightarrow> 'a call_server_scheme
    \<Rightarrow> (string, string option) outcome \<times> 'a call_server_scheme" where
  "route_generic cfg w meth msg src st =
     (let env = cw_env w in
      if meth = ''REGISTER'' then finished msg (handle_register (cw_md5 w) cfg env msg src st)
      else if meth = ''INVITE'' then finished msg (proxy_invite cfg w msg src st)
      else if meth = ''OPTIONS'' then finished msg (handle_options msg, st)
      else if meth = ''INFO'' then finished msg (proxy_in_dialog env msg src st)
      else if meth = ''MESSAGE'' then finished msg (proxy_message cfg env msg src st)
      else if meth = ''REFER'' then finished msg (proxy_refer env msg src st)
      else if meth = ''NOTIFY'' then finished msg (proxy_in_dialog env msg src st)
      else if meth = ''SUBSCRIBE'' then finished msg (handle_subscribe cfg env msg src st)
      else if meth = ''ACK'' then (Ok None, proxy_ack cfg env msg st)
      else if meth = ''BYE'' then finished msg (proxy_bye cfg env msg src st)
      else if meth = ''CANCEL'' then finished msg (proxy_cancel cfg w msg st)
      else finished msg (Ok (build (add_header ''Allow'' SIP_ALLOW_METHODS (base_response msg 405 ''Method Not Allowed''))), st))"

definition route_conference ::
  "sip_config \<Rightarrow> call_world \<Rightarrow> string \<Rightarrow> sip_message \<Rightarrow> socket_addr \<Rightarrow> 'a call_server_scheme
    \<Rightarrow> (string, string option) outcome \<times> 'a call_server_scheme" where
  "route_conference cfg w meth msg src st =
     (let env = cw_env w;
          cid = message_call_id msg;
          is_conf = (cid \<noteq> [] \<and> is_conference_call cid st)
      in if meth = ''INVITE'' then
           (case lookup_room env (request_user msg) (cfg_sip_domain cfg) st of
              Some (room_id, max_p) \<Rightarrow> finished msg (conference_invite cfg w msg src room_id max_p st)
            | None \<Rightarrow> route_generic cfg w meth msg src st)
         else if is_conf \<and> meth = ''ACK'' then (Ok None, st)
         else if is_conf \<and> (meth = ''BYE'' \<or> meth = ''CANCEL'') then finished msg (conference_bye env msg st)
         else if is_conf \<and> meth = ''INFO'' then finished msg (conference_info env msg st)
         else route_generic cfg w meth msg src st)"

definition is_voicemail_call :: "string \<Rightarrow> 'a voicemail_server_scheme \<Rightarrow> bool" where
  "is_voicemail_call cid st = (hm_get (vx_active st) cid \<noteq> None)"

definition route_request ::
  "sip_config \<Rightarrow> call_world \<Rightarrow> string \<Rightarrow> sip_message \<Rightarrow> socket_addr \<Rightarrow> 'a call_server_scheme
    \<Rightarrow> (string, string option) outcome \<times> 'a call_server_scheme" where
  "route_request cfg w meth msg src st =
     (let vm = cw_vm w;
          cid = message_call_id msg;
          is_vm = (cid \<noteq> [] \<and> is_voicemail_call cid st)
      in if meth = ''SUBSCRIBE'' \<and> is_message_summary_event (header msg ''event'')
         then finished msg (mwi_handle_subscribe (vw_sha1 vm) cfg (vw_env vm) msg src st)
         else if meth = ''INVITE'' \<and> is_access_invite cfg msg then finished msg (handle_access_invite cfg vm msg src st)
         else if is_vm \<and> meth = ''ACK'' then (Ok None, voicemail_ack msg st)
         else if is_vm \<and> meth = ''BYE'' then finished msg (voicemail_bye msg st)
         else if is_vm \<and> meth = ''CANCEL'' then finished msg (voicemail_cancel msg st)
         else if is_vm \<and> meth = ''INFO'' then finished msg (voicemail_info cfg vm msg st)
         else route_conference cfg w meth msg src st)"

definition process_sip_msg ::
  "sip_config \<Rightarrow> call_world \<Rightarrow> string \<Rightarrow> socket_addr \<Rightarrow> 'a call_server_scheme \<Rightarrow> (string, string option) outcome \<times> 'a call_server_scheme" where
  "process_sip_msg cfg w raw src st =
     (case parse raw of
        Err e \<Rightarrow> (Ok None, st)
      | Panic \<Rightarrow> (Panic, st)
      | Ok msg \<Rightarrow>
          (case m_method msg of
             None \<Rightarrow> handle_response cfg w msg st
           | Some meth \<Rightarrow> route_request cfg w meth msg src st))"

text \<open>The UDP transport: the response is a datagram to the source.\<close>

definition handle_datagram ::
  "sip_config \<Rightarrow> call_world \<Rightarrow> string \<Rightarrow> socket_addr \<Rightarrow> 'a call_server_scheme \<Rightarrow> (string, unit) outcome \<times> 'a call_server_scheme" where
  "handle_datagram cfg w data src st =
     (case process_sip_msg cfg w (from_utf8_lossy data) src st of
        (Ok None, st) \<Rightarrow> (Ok (), st)
      | (Ok (Some resp), st) \<Rightarrow> udp_send (cw_env w) src resp st
      | (Err e, st) \<Rightarrow> (Err e, st)
      | (Panic, st) \<Rightarrow> (Panic, st))"

section \<open>What each handler leaves alone\<close>

lemma notify_watcher_more: "server_state.more (notify_watcher cfg env u d s x st) = server_state.more st"
  by (simp add: notify_watcher_def Let_def frame_simps split: prod.split option.split)

lemma notify_more [frame_simps]: "server_state.more (notify_status_change cfg env u d s st) = server_state.more st"
proof -
  have "server_state.more (fold (notify_watcher cfg env u d s) ws st) = server_state.more st" for ws
    by (induction ws arbitrary: st) (simp_all add: notify_watcher_more)
  then show ?thesis by (simp add: notify_status_change_def)
qed

lemma subscribe_more [frame_simps]: "server_state.more (snd (handle_subscribe cfg env msg src st)) = server_state.more st"
  by (simp add: handle_subscribe_def presence_unsubscribe_def presence_subscribe_def Let_def frame_simps split: option.split)

lemma binding_more [frame_simps]: "server_state.more (snd (register_binding cfg env msg src u st)) = server_state.more st"
  by (simp add: register_binding_def Let_def frame_simps)

lemma auth_failed_more [frame_simps]: "server_state.more (snd (register_auth_failed md5 cfg env msg src u d st)) = server_state.more st"
  by (simp add: register_auth_failed_def Let_def frame_simps split_beta)

lemma register_more [frame_simps]: "server_state.more (snd (handle_register md5 cfg env msg src st)) = server_state.more st"
  by (simp add: handle_register_def register_verify_def Let_def frame_simps split_beta split: option.split outcome.split bool.split)

text \<open>The handlers of the voicemail endpoint touch no call, and only those that cancel a timer touch the timers.\<close>

definition same_timers :: "'a voicemail_server_scheme \<Rightarrow> 'a voicemail_server_scheme \<Rightarrow> bool" where
  "same_timers st st' = (vx_no_answer st' = vx_no_answer st \<and> vx_timers st' = vx_timers st \<and> vx_next_timer st' = vx_next_timer st \<and>
     voicemail_server.more st' = voicemail_server.more st)"

lemma same_timers_refl [simp]: "same_timers st st"
  by (simp add: same_timers_def)

lemma same_timers_trans: "same_timers a b \<Longrightarrow> same_timers b c \<Longrightarrow> same_timers a c"
  by (simp add: same_timers_def)

lemma same_timers_more: "server_state.more st' = server_state.more st \<Longrightarrow> same_timers st st'"
  using voicemail_more [of st' st] by (simp add: same_timers_def)

lemma mwi_notify_timers: "same_timers st (snd (mwi_notify_mailbox c s env u d st))"
  using mwi_notify_shape [of c s env u d st] by (auto simp: same_timers_def)

lemma mwi_notified_timers: "mwi_notify_mailbox c s env u d st1 = (r, st2) \<Longrightarrow> same_timers st st1 \<Longrightarrow> same_timers st st2"
  using mwi_notify_timers [of st1 c s env u d] by (auto intro: same_timers_trans)

lemma mwi_subscribe_timers: "same_timers st (snd (mwi_handle_subscribe sha1 cfg env msg src st))"
proof -
  have "same_timers st (snd (mwi_unsubscribe sha1 env msg u d c ctc st))" "same_timers st (snd (mwi_subscribe sha1 env msg src u d c t ctc p st))" for u d c t ctc p
    by (simp_all add: same_timers_def mwi_unsubscribe_def mwi_subscribe_def Let_def)
  then show ?thesis
    unfolding mwi_handle_subscribe_def Let_def by (simp split: outcome.split bool.split)
qed

lemma access_timers: "same_timers st (snd (handle_access_invite cfg w msg src st))"
  by (simp add: same_timers_def handle_access_invite_def access_admitted_def access_established_def Let_def candidate_defs
      split: option.split outcome.split bool.split prod.split)

lemma delivery_same_timers: "same_timers st (snd (handle_delivery_invite cfg w msg callee st))"
  by (simp add: same_timers_def frame_simps)

lemma play_message_timers: "same_timers st (play_message_at_index cid i st)"
  by (simp add: same_timers_def play_message_at_index_def split: option.split prod.split)

lemma with_playback_timers: "same_timers st (with_playback cid f st)"
  by (simp add: same_timers_def with_playback_def split: option.split voicemail_mode.split)

lemma menu_move_timers: "same_timers st (menu_move cid i st)"
  unfolding menu_move_def by (rule same_timers_trans [OF with_playback_timers play_message_timers])

lemma delete_timers: "same_timers st (snd (delete_message_at_index cfg w cid i st))"
proof -
  have m: "same_timers st (st\<lparr>vx_messages := ms\<rparr>)" for ms by (simp add: same_timers_def)
  have "same_timers st (snd (delete_commit cfg w cid i sel st))" for sel
    using m by (auto simp: delete_commit_def Let_def split: prod.split outcome.split
        intro: mwi_notified_timers same_timers_trans [OF m with_playback_timers])
  then show ?thesis by (simp add: delete_message_at_index_def split: option.split)
qed

lemma save_timers: "same_timers st (snd (save_message_at_index cfg w cid i st))"
proof -
  have m: "same_timers st (st\<lparr>vx_messages := ms\<rparr>)" for ms by (simp add: same_timers_def)
  show ?thesis
    using m by (auto simp: save_message_at_index_def Let_def split: prod.split outcome.split option.split
        intro: mwi_notified_timers same_timers_trans [OF m with_playback_timers])
qed

lemma pin_key_timers: "same_timers st (pin_key w cid box mailbox pin dtmf st)"
  by (simp add: same_timers_def pin_key_def pin_entered_def pin_verified_def with_call_def Let_def split: voicemail_dtmf.split option.split)

lemma playback_key_timers: "same_timers st (snd (playback_key cfg w cid ms i dtmf st))"
  by (simp add: playback_key_def menu_move_timers delete_timers save_timers split: voicemail_dtmf.split)

lemma playback_key_result_timers: "playback_key cfg w cid ms i dtmf st = (r, st') \<Longrightarrow> same_timers st st'"
  using playback_key_timers [of st cfg w cid ms i dtmf] by simp

lemma info_timers: "same_timers st (snd (voicemail_info cfg w msg st))"
proof -
  have "same_timers st (st\<lparr>vx_media := m\<rparr>)" for m by (simp add: same_timers_def)
  then show ?thesis
    using pin_key_timers [of st w]
    by (auto simp: voicemail_info_def Let_def split: option.split voicemail_mode.split prod.split outcome.split
        intro: playback_key_result_timers)
qed

lemma persist_recording_timers: "same_timers st (snd (persist_recording w r key dur st))"
proof -
  obtain res st1 where i: "insert_voicemail (vw_env w) r key dur st = (res, st1)" by force
  then have "same_timers st st1" "same_timers st (remove_audio w key st1)"
    by (auto simp: same_timers_def insert_voicemail_def remove_audio_def split: if_splits)
  then show ?thesis using i
    by (auto simp: persist_recording_def split: prod.split outcome.split intro: mwi_notified_timers)
qed

lemma finished_timers: "same_timers st (snd (recording_finished w r result st))"
proof -
  obtain keep st1 where k: "should_persist_recording (rs_call_id r)
      (st\<lparr>vx_active := hm_del (rs_call_id r) (vx_active st), vx_media := vm_remove (rs_call_id r) (vx_media st)\<rparr>) = (keep, st1)"
    by force
  then have 1: "same_timers st st1" by (auto simp: same_timers_def should_persist_recording_def)
  have 2: "same_timers st (remove_audio w key st1)" for key using 1 by (simp add: same_timers_def remove_audio_def)
  show ?thesis
    using 1 2 same_timers_trans [OF 1 persist_recording_timers]
    by (simp add: recording_finished_def Let_def k split: prod.split outcome.split recording_persistence_decision.split)
qed

section \<open>Answers of the callee\<close>

lemma cancel_stops_ringing: "hm_get (vx_no_answer (snd (cancel_no_answer_timer cid st))) cid \<noteq> Some (Ringing t)"
  by (simp add: cancel_no_answer_timer_def abort_timer_def hm.get_put hm.get_del split: option.split no_answer_entry.split)

lemma cancel_not_fired: "hm_get (vx_no_answer st) cid \<noteq> Some Firing \<Longrightarrow> fst (cancel_no_answer_timer cid st) \<noteq> CancelAlreadyFired"
  by (simp add: cancel_no_answer_timer_def split: option.split no_answer_entry.split)

text \<open>
  C4: the answer of the callee reaches the caller. A 200 to an INVITE with an SDP body, for a relayed call that waits for it, is sent to the caller and to
  nobody else, without the Via of the proxy and with the media addresses replaced by those of the relay; the call waits no longer, its no-answer timer
  does not ring on, and its dialog and relay session are kept.
\<close>

theorem answer_reaches_caller:
  assumes "call_id msg = Some cid" "is_invite_200_ok_with_sdp msg"
    and "hm_get (cs_pending st) cid = Some addr" "hm_get (vx_no_answer st) cid \<noteq> Some Firing" "\<not> ev_send_fails (cw_env w) addr"
    and "hm_get (wg_sessions (cs_webrtc st)) cid = None" "hm_get (mr_sessions (cs_relay st)) cid = Some session"
  shows "let (res, st') = handle_response cfg w msg st;
             relayed = rewrite_content_length (strip_proxy_via (m_raw msg) (cfg_sip_domain cfg))
               (rewrite_sdp_media (m_body msg) (mr_public_ip (cs_relay st)) (caller_sdp_ports session))
    in res = Ok None \<and> (\<forall>a. mail_to a st' = (if a = addr then add_mset relayed (mail_to a st) else mail_to a st)) \<and>
       hm_get (cs_pending st') cid = None \<and> (\<forall>t. hm_get (vx_no_answer st') cid \<noteq> Some (Ringing t)) \<and>
       cs_active st' = cs_active st \<and> cs_relay st' = cs_relay st"
proof -
  let ?relayed = "rewrite_content_length (strip_proxy_via (m_raw msg) (cfg_sip_domain cfg))
               (rewrite_sdp_media (m_body msg) (mr_public_ip (cs_relay st)) (caller_sdp_ports session))"
  obtain c st1 where c: "cancel_no_answer_timer cid st = (c, st1)" by force
  have c': "c \<noteq> CancelAlreadyFired" using cancel_not_fired [OF assms(4)] c by simp
  have m: "voicemail_server.more st1 = voicemail_server.more st" "\<And>a. mail_to a st1 = mail_to a st"
    using proxy_cancel_timer_frame [of cid st] c by (auto intro: mail_to_cong)
  note st1 = call_server_more [OF m(1)]
  have code: "m_status_code msg = Some 200" using assms(2) by (simp add: is_invite_200_ok_with_sdp_def)
  obtain st2 where s: "send_sip (cw_env w) ?relayed addr st1 = (Ok (), st2)" using send_succeeds [OF assms(5)] by blast
  have "relayed_answer cid msg (strip_proxy_via (m_raw msg) (cfg_sip_domain cfg)) st1 = (?relayed, st1)"
    using assms(2,6,7) by (simp add: relayed_answer_def get_answer_sdp_def rewrite_200ok_sdp_def st1)
  then have e: "handle_response cfg w msg st = (Ok None, st2\<lparr>cs_pending := hm_del cid (cs_pending st2)\<rparr>)"
    using assms(1,3) code c c' s
    by (simp add: handle_response_def relay_response_def relay_to_caller_def at_least_def st1)
  have "server_state.more st2 = server_state.more st1" using send_sip_more [of "cw_env w" ?relayed addr st1] s by simp
  then have "cs_active st2 = cs_active st" "cs_relay st2 = cs_relay st" "vx_no_answer st2 = vx_no_answer st1"
    using call_more [of st2 st1] voicemail_more [of st2 st1] st1 by simp_all
  moreover have "mail_to a (st2\<lparr>cs_pending := x\<rparr>) = mail_to a st2" for a x by (rule mail_to_cong) simp_all
  ultimately show ?thesis
    using sent_mail [OF s] m(2) cancel_stops_ringing [of cid st] c by (simp add: e hm.get_del)
qed

text \<open>
  C23: a busy callee loses the call. When the callee has an enabled mailbox and refuses with 486, 600 or 603, the handler removes the address of the caller
  before it reads it: the mailbox does not take the call, the caller is sent neither the refusal nor anything else, and the call is gone.
\<close>

theorem busy_call_is_lost:
  assumes "m_status_code msg = Some 486 \<or> m_status_code msg = Some 600 \<or> m_status_code msg = Some 603"
    and "call_id msg = Some cid" "Option.bind (Option.bind (to_header msg) extract_uri) uri_username = Some callee"
    and "lookup_enabled_box (cw_env w) callee (cfg_sip_domain cfg) st = Some box" "hm_get (cs_invites st) cid = Some invite"
  shows "let (res, st') = handle_response cfg w msg st
    in res = Ok None \<and> (\<forall>a. mail_to a st' = mail_to a st) \<and> call_gone cid st' \<and> hm_get (cs_invites st') cid = None \<and>
       (\<forall>t. hm_get (vx_no_answer st') cid \<noteq> Some (Ringing t)) \<and> vx_active st' = vx_active st"
proof -
  let ?st1 = "drop_call cid (snd (cancel_no_answer_timer cid (st\<lparr>cs_invites := hm_del cid (cs_invites st)\<rparr>)))"
  let ?st2 = "snd (cancel_no_answer_timer cid ?st1)"
  have p: "hm_get (cs_pending ?st1) cid = None" by (simp add: drop_call_def hm.get_del)
  have b: "handle_busy_to_voicemail cfg w msg st = (Ok None, ?st1)"
    using assms(2-5) p unfolding handle_busy_to_voicemail_def Let_def by simp
  have p2: "hm_get (cs_pending ?st2) cid = None" using p call_server_more(2) [OF proxy_cancel_timer_frame(4) [of cid ?st1]] by simp
  have 200: "at_least 200 msg" using assms(1) by (auto simp: at_least_def)
  have e: "handle_response cfg w msg st = (Ok None, ?st2) \<or> handle_response cfg w msg st = (Ok None, drop_call cid ?st2)"
    using assms(1,2) b p2 200 by (auto simp: handle_response_def relay_response_def split_beta)
  have g: "call_gone cid ?st2" using drop_call_gone [of cid] call_server_more [OF proxy_cancel_timer_frame(4) [of cid ?st1]] by (simp add: call_gone_def)
  have m: "mail_to a ?st2 = mail_to a st" "mail_to a (drop_call cid ?st2) = mail_to a st" for a by (rule mail_to_cong; simp)+
  have i: "hm_get (cs_invites ?st2) cid = None" 
    using call_server_more(3) [OF proxy_cancel_timer_frame(4) [of cid ?st1]] call_server_more(3) [OF proxy_cancel_timer_frame(4) [of cid "st\<lparr>cs_invites := hm_del cid (cs_invites st)\<rparr>"]]
    by (simp add: drop_call_def hm.get_del)
  have v: "vx_active ?st2 = vx_active st" by (simp add: candidate_defs frame_simps drop_call_def)
  show ?thesis
    using e
  proof
    assume "handle_response cfg w msg st = (Ok None, ?st2)"
    then show ?thesis using g m i v cancel_stops_ringing [of cid ?st1] by simp
  next
    assume "handle_response cfg w msg st = (Ok None, drop_call cid ?st2)"
    then show ?thesis using m i v cancel_stops_ringing [of cid ?st1] drop_call_gone [of cid ?st2] by (simp add: drop_call_def)
  qed
qed

definition example_answer :: sip_message where
  "example_answer = \<lparr>m_method = None, m_request_uri = None, m_status_code = Some 200,
     m_headers = [(''call-id'', [''c7'']), (''cseq'', [''1 INVITE'']), (''content-type'', [''application/sdp''])], m_body = ''m=audio 4000 RTP/AVP 0'', m_raw = []\<rparr>"

definition example_refusal :: sip_message where
  "example_refusal = \<lparr>m_method = None, m_request_uri = None, m_status_code = Some 486,
     m_headers = [(''call-id'', [''c7'']), (''to'', [''<sip:1001@x.org>''])], m_body = [], m_raw = []\<rparr>"

lemma example_answer_reads:
  "call_id example_answer = Some ''c7''" "is_invite_200_ok_with_sdp example_answer" "call_id example_refusal = Some ''c7''"
  "Option.bind (Option.bind (to_header example_refusal) extract_uri) uri_username = Some ''1001''"
  by code_simp+

definition example_waiting :: call_server where
  "example_waiting = example_calls\<lparr>cs_pending := [(''c7'', listener_source)], cs_invites := [(''c7'', example_call_invite)],
     cs_relay := (media_relay_new ''203.0.113.9'' 10000 10010)\<lparr>mr_sessions := [(''c7'', \<lparr>ms_streams = [], ms_created_at = 0\<rparr>)]\<rparr>\<rparr>"

theorem answer_reaches_caller_witness:
  "let st' = snd (handle_response example_config example_call_world example_answer example_waiting)
   in size (mail_to listener_source st') = 1 \<and> hm_get (cs_pending st') ''c7'' = None"
proof -
  have w: "\<not> ev_send_fails (cw_env example_call_world) listener_source" by (simp add: example_call_world_def example_world_def example_env_def)
  have f: "mail_to listener_source example_waiting = {#}" "hm_get (cs_pending example_waiting) ''c7'' = Some listener_source"
    "hm_get (vx_no_answer example_waiting) ''c7'' \<noteq> Some Firing" "hm_get (wg_sessions (cs_webrtc example_waiting)) ''c7'' = None"
    "hm_get (mr_sessions (cs_relay example_waiting)) ''c7'' = Some \<lparr>ms_streams = [], ms_created_at = 0\<rparr>"
    by (simp_all add: mail_to_def example_waiting_def webrtc_gateway_new_def)
  show ?thesis
    using answer_reaches_caller [OF example_answer_reads(1,2) f(2,3) w f(4,5), of example_config] f(1)
    by (simp add: split_beta Let_def)
qed

theorem busy_call_is_lost_witness:
  "let st' = snd (handle_response example_config example_call_world example_refusal example_waiting)
   in call_gone ''c7'' st' \<and> mail_to listener_source st' = mail_to listener_source example_waiting"
proof -
  have s: "m_status_code example_refusal = Some 486 \<or> m_status_code example_refusal = Some 600 \<or> m_status_code example_refusal = Some 603"
    by (simp add: example_refusal_def)
  have b: "lookup_enabled_box (cw_env example_call_world) ''1001'' (cfg_sip_domain example_config) example_waiting = Some example_box"
    by (simp add: lookup_enabled_box_def example_waiting_def example_call_world_def example_world_def example_env_def example_config_def example_box_def)
  have i: "hm_get (cs_invites example_waiting) ''c7'' = Some example_call_invite" by (simp add: example_waiting_def)
  show ?thesis using busy_call_is_lost [OF s example_answer_reads(3,4) b i] by (simp add: split_beta Let_def)
qed

end
