(* ===== verification/Socket_Ports.thy ===== *)
theory Socket_Ports
  imports Media_Relay Webrtc_Gateway
begin

text \<open>
  The sockets of the media relay and of the WebRTC gateway, which are bound in the same range of ports: what every
  operation of either does to the ports, stated so that two pools can be run side by side.
\<close>

text \<open>What an operation may do to a pool of sockets: it keeps the invariant, and a new port is one the operating system grants.\<close>

definition grows :: "('s \<Rightarrow> bool) \<Rightarrow> ('s \<Rightarrow> u16 list) \<Rightarrow> (u16 \<Rightarrow> bool) \<Rightarrow> 's \<Rightarrow> 's \<Rightarrow> bool" where
  "grows good ports os s s' = (good s \<longrightarrow> good s' \<and> (\<forall>p \<in> set (ports s'). p \<in> set (ports s) \<or> os p))"

lemma grows_refl [simp]: "grows good ports os s s"
  by (simp add: grows_def)

lemma grows_trans: "grows good ports os a b \<Longrightarrow> grows good ports os b c \<Longrightarrow> grows good ports os a c"
  by (auto simp: grows_def)

lemma grows_mono: "grows good ports os s s' \<Longrightarrow> (\<And>p. os p \<Longrightarrow> os' p) \<Longrightarrow> grows good ports os' s s'"
  by (auto simp: grows_def)

section \<open>The gateway\<close>

text \<open>The running channels have distinct ports inside the range, and new channels have new numbers.\<close>

definition gw_wf :: "webrtc_gateway \<Rightarrow> bool" where
  "gw_wf g = (hm_wf (wg_channels g) \<and> (\<forall>i \<in> set (map fst (wg_channels g)). i < wg_next g) \<and> distinct (gw_bound_ports g) \<and>
     (\<forall>p \<in> set (gw_bound_ports g). wg_sip_port_min g \<le> p \<and> p < wg_sip_port_max g))"

lemma gw_wf_new: "gw_wf (webrtc_gateway_new ip mn mx)"
  by (simp add: gw_wf_def webrtc_gateway_new_def gw_bound_ports_def)

text \<open>Changes of channels that keep the port and start no task.\<close>

definition calm_channel :: "(sip_media_channel \<Rightarrow> sip_media_channel) \<Rightarrow> bool" where
  "calm_channel f = (\<forall>c. mc_port (f c) = mc_port c \<and> (mc_rx_task (f c) \<longrightarrow> mc_rx_task c))"

lemma calm_ports:
  assumes "calm_channel f"
  shows "set (gw_bound_ports (g\<lparr>wg_channels := hm_adjust i f (wg_channels g)\<rparr>)) \<subseteq> set (gw_bound_ports g) \<and>
    (distinct (gw_bound_ports g) \<longrightarrow> distinct (gw_bound_ports (g\<lparr>wg_channels := hm_adjust i f (wg_channels g)\<rparr>)))"
proof -
  define ports where "ports = (\<lambda>cs :: (nat, sip_media_channel) hmap. map (\<lambda>(i, c). mc_port c) (filter (\<lambda>(i, c). mc_rx_task c) cs))"
  have ports: "ports [] = []" "ports ((j, c) # cs) = (if mc_rx_task c then mc_port c # ports cs else ports cs)" for j c cs by (simp_all add: ports_def)
  have adj: "hm_adjust i f [] = []" "hm_adjust i f ((j, c) # cs) = (j, if j = i then f c else c) # hm_adjust i f cs" for j c cs by (simp_all add: hm_adjust_def)
  have f: "mc_port (f c) = mc_port c" "\<not> mc_rx_task c \<Longrightarrow> \<not> mc_rx_task (f c)" for c using assms by (auto simp: calm_channel_def)
  have "set (ports (hm_adjust i f cs)) \<subseteq> set (ports cs) \<and> (distinct (ports cs) \<longrightarrow> distinct (ports (hm_adjust i f cs)))" for cs
    by (induction cs) (auto simp: ports adj f split: if_splits)
  then show ?thesis by (simp add: gw_bound_ports_def ports_def)
qed

lemma gw_wf_calm: "calm_channel f \<Longrightarrow> gw_wf g \<Longrightarrow> gw_wf (g\<lparr>wg_channels := hm_adjust i f (wg_channels g)\<rparr>)"
  using calm_ports [of f i g] unfolding gw_wf_def by auto

lemma gw_loop_range:
  assumes "fst (gw_bind_loop k mn (ucast (mx - mn)) n free) = Some p" "mn < mx"
  shows "free p \<and> mn \<le> p \<and> p < mx"
  using assms
proof (induction k mn "ucast (mx - mn) :: u32" n free rule: gw_bind_loop.induct)
  case (2 k mn n free)
  let ?r = "ucast (mx - mn) :: u32"
  have le: "mn \<le> mx" "unat mn < unat mx" using 2(3) by (simp_all add: word_less_nat_alt word_le_nat_alt)
  have r: "unat ?r = unat mx - unat mn"
    using port_range_value [of mn mx] le by (simp add: port_range_def)
  have m: "unat (n mod ?r) < unat mx - unat mn" using r le by (simp add: unat_mod)
  then have "unat (mn + ucast (n mod ?r) :: u16) = unat mn + unat (n mod ?r)" using unat16 [of mx] by (intro port_plus) simp_all
  then have "mn \<le> mn + ucast (n mod ?r) \<and> mn + ucast (n mod ?r) < mx"
    using m by (simp add: word_le_nat_alt word_less_nat_alt)
  then show ?case using 2 by (auto simp: Let_def split: if_splits)
qed simp

lemma bind_ok:
  assumes "bind_sip_port os g = (Ok p, g')"
  shows "os p" "p \<notin> set (gw_bound_ports g)" "wg_sip_port_min g \<le> p" "p < wg_sip_port_max g"
proof -
  let ?rng = "ucast (wg_sip_port_max g - wg_sip_port_min g) :: u32"
  have lt: "wg_sip_port_min g < wg_sip_port_max g"
    using assms by (auto simp: bind_sip_port_def Let_def split: if_splits prod.splits option.splits)
  then have "fst (gw_bind_loop (unat ?rng) (wg_sip_port_min g) ?rng (wg_sip_port_counter g) (\<lambda>p. os p \<and> p \<notin> set (gw_bound_ports g))) = Some p"
    using assms by (auto simp: bind_sip_port_def Let_def split: if_splits prod.splits option.splits)
  from gw_loop_range [OF this lt] show "os p" "p \<notin> set (gw_bound_ports g)" "wg_sip_port_min g \<le> p" "p < wg_sip_port_max g" by blast+
qed

abbreviation gw_grows :: "(u16 \<Rightarrow> bool) \<Rightarrow> webrtc_gateway \<Rightarrow> webrtc_gateway \<Rightarrow> bool" where
  "gw_grows \<equiv> grows gw_wf gw_bound_ports"

lemma gw_grows_same:
  assumes "wg_channels g' = wg_channels g" "wg_next g' = wg_next g" "wg_sip_port_min g' = wg_sip_port_min g" "wg_sip_port_max g' = wg_sip_port_max g"
  shows "gw_grows os g g'"
  using assms by (auto simp: grows_def gw_wf_def gw_bound_ports_def)

lemma gw_grows_calm: "calm_channel f \<Longrightarrow> gw_grows os g (g\<lparr>wg_channels := hm_adjust i f (wg_channels g)\<rparr>)"
  using calm_ports [of f i g] gw_wf_calm [of f g i] by (auto simp: grows_def)

lemma channel_grows:
  assumes "build_media_channel os g = (r, g')"
  shows "gw_grows os g g'"
proof (cases "fst (bind_sip_port os g)")
  case (Ok port)
  obtain n where n: "bind_sip_port os g = (Ok port, g\<lparr>wg_sip_port_counter := n\<rparr>)" using Ok bind_shape [of os g] by (metis prod.collapse)
  note b = bind_ok [OF n]
  have g': "g' = g\<lparr>wg_sip_port_counter := n, wg_channels := hm_put (wg_next g) \<lparr>mc_port = port, mc_sip_peer = None, mc_rx_task = True\<rparr> (wg_channels g),
      wg_next := wg_next g + 1\<rparr>" using assms n by (simp add: build_media_channel_def)
  have "gw_wf g' \<and> (\<forall>p \<in> set (gw_bound_ports g'). p \<in> set (gw_bound_ports g) \<or> os p)" if "gw_wf g"
  proof -
    have fresh: "wg_next g \<notin> fst ` set (wg_channels g)" using that by (auto simp: gw_wf_def)
    then have "gw_bound_ports g' = gw_bound_ports g @ [port]" by (simp add: g' gw_bound_ports_def hm_put_new)
    then show ?thesis using that b fresh by (auto simp: gw_wf_def g' hm_put_new)
  qed
  then show ?thesis by (simp add: grows_def)
qed (use assms bind_shape [of os g] in \<open>auto simp: build_media_channel_def intro: gw_grows_same split: prod.splits\<close>)

lemma prepare_grows:
  assumes "prepare_session rtc os cid video g = (r, g')"
  shows "gw_grows os g g'"
proof -
  obtain r1 g1 where c1: "build_media_channel os g = (r1, g1)" by force
  obtain r2 g2 where c2: "build_media_channel os g1 = (r2, g2)" by force
  show ?thesis
    using assms c1 c2 channel_grows [OF c1] grows_trans [OF channel_grows [OF c1] channel_grows [OF c2]]
    by (auto simp: prepare_session_def split: option.splits if_splits outcome.splits)
qed

lemma insert_grows: "gw_grows os g (insert_session cid flow now chans sdp g)"
  by (rule gw_grows_same) (simp_all add: insert_session_def)

lemma create_grows: "gw_grows os g (snd (create_session rtc os now cid offer video g))"
proof -
  obtain r g' where p: "prepare_session rtc os cid video g = (r, g')" by force
  show ?thesis
    using prepare_grows [OF p] grows_trans [OF prepare_grows [OF p] insert_grows]
    by (simp add: create_session_def p split: outcome.split)
qed

lemma create_for_sip_grows: "gw_grows os g (snd (create_session_for_sip_caller rtc os now epoch cid video g))"
proof -
  obtain r g' where p: "prepare_session rtc os cid video g = (r, g')" by force
  show ?thesis
    using prepare_grows [OF p] grows_trans [OF prepare_grows [OF p] insert_grows]
    by (simp add: create_session_for_sip_caller_def p Let_def split: outcome.split)
qed

lemma stop_channel_grows: "gw_grows os g (stop_channel i g)"
  unfolding stop_channel_def by (rule gw_grows_calm) (simp add: calm_channel_def)

lemma stop_session_grows: "gw_grows os g (stop_session s g)"
  using stop_channel_grows grows_trans [OF stop_channel_grows stop_channel_grows] by (simp add: stop_session_def Let_def split: option.split)

lemma remove_grows: "gw_grows os g (webrtc_remove_session cid g)"
proof (cases "hm_get (wg_sessions g) cid")
  case (Some s)
  have "gw_grows os g (g\<lparr>wg_sessions := hm_del cid (wg_sessions g)\<rparr>)" by (rule gw_grows_same) simp_all
  then show ?thesis using Some grows_trans [OF _ stop_session_grows] by (simp add: webrtc_remove_session_def)
qed (simp add: webrtc_remove_session_def)

lemma cleanup_grows: "gw_grows os g (webrtc_cleanup_stale now age g)"
proof -
  have "gw_grows os g (fold webrtc_remove_session ks g)" for ks
    by (induction ks arbitrary: g) (auto intro: grows_trans [OF remove_grows])
  then show ?thesis by (simp add: webrtc_cleanup_stale_def)
qed

lemma receive_grows: "gw_grows os g (sip_rx i src g)" "gw_grows os g (sip_rx_error i g)"
  unfolding sip_rx_def sip_rx_error_def by (rule gw_grows_calm, simp add: calm_channel_def) (rule stop_channel_grows)

lemma peer_grows: "gw_grows os g (set_sip_media_peer cid kind addr g)"
proof -
  have "gw_grows os g (g\<lparr>wg_channels := hm_adjust i (\<lambda>c. c\<lparr>mc_sip_peer := Some addr\<rparr>) (wg_channels g)\<rparr>)" for i
    by (rule gw_grows_calm) (simp add: calm_channel_def)
  then show ?thesis by (simp add: set_sip_media_peer_def split: option.split sdp_media_kind.split)
qed

section \<open>The relay\<close>

abbreviation relay_grows :: "(u16 \<Rightarrow> bool) \<Rightarrow> media_relay \<Rightarrow> media_relay \<Rightarrow> bool" where
  "relay_grows \<equiv> grows relay_wf bound_ports"

lemma update_grows: "tame f \<Longrightarrow> relay_grows os r (cell_update i f r)"
  using relay_wf_update [of f r i] bound_ports_update(1) [of f i r] by (auto simp: grows_def)

lemma abort_grows: "relay_grows os r (fold stream_abort ss r)"
proof (induction ss arbitrary: r)
  case (Cons s ss)
  have "relay_grows os r (stream_abort s r)" unfolding stream_abort_def by (rule update_grows) (simp add: tame_def)
  then show ?case using Cons by (auto intro: grows_trans)
qed simp

lemma relay_remove_grows: "relay_grows os r (remove_session k r)"
proof (cases "hm_get (mr_sessions r) k")
  case (Some s)
  have "relay_wf r \<longrightarrow> relay_wf (r\<lparr>mr_sessions := hm_del k (mr_sessions r)\<rparr>)"
    by (auto simp: relay_wf_def hm.wf_del hm.get_del bound_ports_def stream_cell_def split: if_splits)
  then have "relay_grows os r (r\<lparr>mr_sessions := hm_del k (mr_sessions r)\<rparr>)" by (simp add: grows_def bound_ports_def)
  then show ?thesis using Some by (auto simp: remove_session_def session_abort_def intro: grows_trans [OF _ abort_grows])
qed (simp add: remove_session_def)

lemma relay_cleanup_grows: "relay_grows os r (cleanup_stale_sessions now age r)"
proof -
  have "relay_grows os r (fold remove_session ks r)" for ks
    by (induction ks arbitrary: r) (auto intro: grows_trans [OF relay_remove_grows])
  then show ?thesis by (simp add: cleanup_stale_sessions_def)
qed

lemma relay_packet_grows: "relay_grows os r (snd (relay_packet p src dg r))" "relay_grows os r (relay_recv_error p r)"
  by (auto simp: relay_packet_def relay_recv_error_def tame_def intro!: update_grows split: option.splits)

lemma allocate_streams_grows: "relay_grows os r (snd (allocate_streams os ds ss r))"
proof (induction ds arbitrary: ss r)
  case (Cons d ds)
  obtain a r1 where a: "allocate_stream os d r = (a, r1)" by force
  show ?case
  proof (cases a)
    case (Ok s)
    have "relay_grows os r r1"
      unfolding grows_def
    proof
      assume wf: "relay_wf r"
      note ok = allocate_stream_Ok [OF a [unfolded Ok] wf]
      then show "relay_wf r1 \<and> (\<forall>p \<in> set (bound_ports r1). p \<in> set (bound_ports r) \<or> os p)"
        by (auto simp: bound_ports_def cell_ports_def split: if_splits)
    qed
    then show ?thesis using Cons a Ok by (auto intro: grows_trans)
  next
    case (Err e)
    then obtain n where "r1 = r\<lparr>mr_port_counter := n\<rparr>" using allocate_stream_Err a by blast
    then have "relay_grows os r r1" by (simp add: grows_def)
    then show ?thesis using a Err by (auto intro: grows_trans [OF _ abort_grows])
  next
    case Panic
    then show ?thesis using a allocate_stream_no_panic [of os d r] by simp
  qed
qed simp

lemma relay_allocate_grows: "relay_grows os r (snd (allocate_session_for_media os now k media r))"
  using relay_wf_allocate [of r os now k media] allocate_streams_grows [of os r "filter md_active media" "[]"]
  by (auto simp: grows_def allocate_session_for_media_def bound_ports_def Let_def split: prod.splits outcome.splits)

end
