(* ===== verification/Handler_Invariant.thy ===== *)
theory Handler_Invariant
  imports Handler Socket_Ports
begin

text \<open>
  What holds between the components of the handler in every state: the sockets of the relay and of the gateway, the rooms of
  the mixer and the conference calls, and the no-answer timers and their tasks. The laws a property needs so that every message
  keeps it are an interface, with the handlers proved once over it; the invariant and the silence of a cancelled call are its instances.
\<close>

section \<open>The parts a property may depend on\<close>

text \<open>
  The two pools of sockets that share a range are well formed and disjoint, the mixer is well formed, every conference call
  is in its room, and every ringing entry names a sleeping task.
\<close>

definition server_inv :: "'a call_server_scheme \<Rightarrow> bool" where
  "server_inv st =
     (relay_wf (cs_relay st) \<and> gw_wf (cs_webrtc st) \<and> set (bound_ports (cs_relay st)) \<inter> set (gw_bound_ports (cs_webrtc st)) = {} \<and>
      conf_wf (cs_conf_media st) \<and> conf_linked st \<and> timers_wf st)"

definition same_core :: "'a call_server_scheme \<Rightarrow> 'a call_server_scheme \<Rightarrow> bool" where
  "same_core st st' = (cs_relay st' = cs_relay st \<and> cs_webrtc st' = cs_webrtc st \<and> cs_conf_media st' = cs_conf_media st \<and>
     cs_conf_calls st' = cs_conf_calls st \<and> vx_no_answer st' = vx_no_answer st \<and> vx_timers st' = vx_timers st \<and> vx_next_timer st' = vx_next_timer st)"

lemma core_refl [simp]: "same_core st st"
  by (simp add: same_core_def)

lemma same_timers_core: "same_timers st st' \<Longrightarrow> same_core st st'"
  using call_server_more [of st' st] by (simp add: same_timers_def same_core_def)

lemma more_core: "server_state.more st' = server_state.more st \<Longrightarrow> same_core st st'"
  by (rule same_timers_core [OF same_timers_more])

lemma caller_cancel_more: "voicemail_server.more (snd (cancel_no_answer_timer_for_caller_cancel cid st)) = voicemail_server.more st"
  by (simp add: cancel_no_answer_timer_for_caller_cancel_def abort_timer_def mark_fired_no_answer_timer_canceled_def split: option.split no_answer_entry.split prod.split)

lemma send_core: "same_core st (snd (send_sip env m a st))"
  by (rule more_core) (simp add: frame_simps)

lemma learn_grows: "gw_grows os g (learn_video_peer cid sdp g)"
  by (simp add: learn_video_peer_def set_sip_video_peer_def peer_grows split: option.split)

lemma gateway_os_weak: "gw_grows (gateway_os w st) g g' \<Longrightarrow> gw_grows (\<lambda>p. p \<notin> set (bound_ports (cs_relay st))) g g'"
  by (erule grows_mono) (simp add: gateway_os_def)

lemma relay_os_weak: "relay_grows (relay_os w st) r r' \<Longrightarrow> relay_grows (\<lambda>p. p \<notin> set (gw_bound_ports (cs_webrtc st))) r r'"
  by (erule grows_mono) (simp add: relay_os_def)

lemma reject_core: "same_core st (snd (reject_invalid_invite cfg env msg src u d st))"
  by (simp add: same_core_def reject_invalid_invite_def Let_def split_beta persist_security_event_def persist_ban_def)

lemma update_call_core: "same_core st (update_call env cid f st)"
  by (simp add: same_core_def update_call_def)

lemma persist_message_core: "same_core st (persist_message env msg a b s ip st)"
  by (simp add: same_core_def persist_message_def)

lemma upsert_core_frame [simp]:
  "cs_relay (upsert_participant env k cid a src p c st) = cs_relay st" "cs_webrtc (upsert_participant env k cid a src p c st) = cs_webrtc st"
  "vx_no_answer (upsert_participant env k cid a src p c st) = vx_no_answer st" "vx_timers (upsert_participant env k cid a src p c st) = vx_timers st"
  "vx_next_timer (upsert_participant env k cid a src p c st) = vx_next_timer st"
  by (simp_all add: upsert_participant_def Let_def)

lemma snd_finished [simp]: "snd (finished msg r) = snd r"
  by (simp add: finished_def)

lemma relayed_answer_shape: "\<exists>g. gw_grows (\<lambda>p. False) (cs_webrtc st) g \<and> snd (relayed_answer cid msg relayed st) = st\<lparr>cs_webrtc := g\<rparr>"
proof -
  have st: "st = st\<lparr>cs_webrtc := cs_webrtc st\<rparr>" by simp
  have "gw_grows (\<lambda>p. False) (cs_webrtc st) (learn_video_peer cid b (set_sip_peer cid a (cs_webrtc st)))" for a b
    by (rule grows_trans [OF _ learn_grows]) (simp add: set_sip_peer_def peer_grows)
  moreover have "snd (relayed_answer cid msg relayed st) = st \<or>
      (\<exists>a. snd (relayed_answer cid msg relayed st) = st\<lparr>cs_webrtc := learn_video_peer cid (m_body msg) (set_sip_peer cid a (cs_webrtc st))\<rparr>)"
    by (auto simp: relayed_answer_def split: option.split)
  ultimately show ?thesis using grows_refl st by metis
qed

lemma timer_step_more:
  obtains "voicemail_server.more (timer_step cfg w t st) = voicemail_server.more st"
  | cid where "voicemail_server.more (timer_step cfg w t st) = voicemail_server.more (drop_call cid st)"
proof -
  have send: "voicemail_server.more (snd (send_sip env m a st)) = voicemail_server.more st" for env m a
    using voicemail_more(9) [OF send_sip_more [of env m a st]] .
  have "voicemail_server.more (timer_at cfg w t task st) \<in> {voicemail_server.more st, voicemail_server.more (drop_call (tt_call_id task) st)}" for task
  proof (cases "tt_place task")
    case Delivering
    obtain r st1 where d: "handle_delivery_invite cfg (cw_vm w) (tt_msg task) (tt_callee task) st = (r, st1)" by force
    then have "voicemail_server.more st1 = voicemail_server.more st" using delivery_timers(4) [of cfg "cw_vm w" "tt_msg task" "tt_callee task" st] by simp
    then show ?thesis using Delivering d by (simp add: timer_at_def timer_goto_def abort_timer_def split: outcome.split)
  qed (simp_all add: timer_at_def timer_goto_def abort_timer_def send finish_no_answer_timer_def cleanup_suppressed_no_answer_delivery_def
      mark_recording_canceled_def Let_def claim_no_answer_timer_to_fire_def split: option.split no_answer_entry.split)
  then show ?thesis using that unfolding timer_step_def by (cases "hm_get (vx_timers st) t") auto
qed

text \<open>Whether an INVITE in a raw message satisfies a condition.\<close>

definition harmless :: "(sip_message \<Rightarrow> bool) \<Rightarrow> string \<Rightarrow> bool" where
  "harmless ok raw = (\<forall>msg. parse raw = Ok msg \<longrightarrow> m_method msg = Some ''INVITE'' \<longrightarrow> ok msg)"

section \<open>What every handler keeps\<close>

text \<open>
  A property that depends only on these parts, allows the pools to grow by ports the other does not have, the mixer to change, and
  the timers to be cancelled, started for calls that are \<open>ok\<close> and stepped.
\<close>

locale handler_property =
  fixes P :: "'a call_server_scheme \<Rightarrow> bool" and ok :: "sip_message \<Rightarrow> bool"
  assumes core: "same_core st st' \<Longrightarrow> P st \<Longrightarrow> P st'"
    and relay: "P st \<Longrightarrow> relay_grows (\<lambda>p. p \<notin> set (gw_bound_ports (cs_webrtc st))) (cs_relay st) r \<Longrightarrow> P (st\<lparr>cs_relay := r\<rparr>)"
    and gateway: "P st \<Longrightarrow> gw_grows (\<lambda>p. p \<notin> set (bound_ports (cs_relay st))) (cs_webrtc st) g \<Longrightarrow> P (st\<lparr>cs_webrtc := g\<rparr>)"
    and conference: "P st \<Longrightarrow> (conf_linked st \<Longrightarrow> conf_linked st') \<Longrightarrow> (conf_wf (cs_conf_media st) \<Longrightarrow> conf_wf (cs_conf_media st')) \<Longrightarrow>
      cs_relay st' = cs_relay st \<Longrightarrow> cs_webrtc st' = cs_webrtc st \<Longrightarrow> vx_no_answer st' = vx_no_answer st \<Longrightarrow> vx_timers st' = vx_timers st \<Longrightarrow>
      vx_next_timer st' = vx_next_timer st \<Longrightarrow> P st'"
    and cancel: "P st \<Longrightarrow> P (snd (cancel_no_answer_timer cid st))"
    and caller_cancel: "P st \<Longrightarrow> P (snd (cancel_no_answer_timer_for_caller_cancel cid st))"
    and start: "P st \<Longrightarrow> ok msg \<Longrightarrow> P (start_no_answer_timer env msg src a uri callee n st)"
    and timer: "P st \<Longrightarrow> P (timer_step cfg w t st)"
begin

lemma inv_drop: "P st \<Longrightarrow> P (drop_call cid st)"
proof -
  assume "P st"
  then have "P (st\<lparr>cs_pending := hm_del cid (cs_pending st), cs_active := hm_del cid (cs_active st)\<rparr>)"
    by (rule core [rotated]) (simp add: same_core_def)
  from gateway [OF relay [OF this relay_remove_grows] remove_grows, of cid cid] show ?thesis by (simp add: drop_call_def)
qed

lemma inv_send: "P st \<Longrightarrow> P (snd (send_sip env m a st))"
  by (rule core [OF send_core])

lemma inv_browser_bridge:
  assumes "P st"
  shows "P (snd (browser_bridge cfg w cid body st))"
proof -
  obtain r g where c: "create_session (cw_rtc w) (gateway_os w st) (ev_instant (cw_env w)) cid body (has_video body) (cs_webrtc st) = (r, g)" by force
  have "gw_grows (gateway_os w st) (cs_webrtc st) g"
    using create_grows [of "gateway_os w st" "cs_webrtc st" "cw_rtc w" "ev_instant (cw_env w)" cid body "has_video body"] c by simp
  then have "P (st\<lparr>cs_webrtc := g\<rparr>)" by (intro gateway [OF assms] gateway_os_weak)
  then show ?thesis by (simp add: browser_bridge_def c split: outcome.split prod.split)
qed

lemma inv_reverse_bridge:
  assumes "P st"
  shows "P (snd (reverse_bridge w cid body st))"
proof -
  obtain r g where c: "create_session_for_sip_caller (cw_rtc w) (gateway_os w st) (ev_instant (cw_env w)) (ev_utc (cw_env w)) cid (has_video body) (cs_webrtc st) = (r, g)"
    by force
  have g: "gw_grows (gateway_os w st) (cs_webrtc st) g"
    using create_for_sip_grows [of "gateway_os w st" "cs_webrtc st" "cw_rtc w" "ev_instant (cw_env w)" "ev_utc (cw_env w)" cid "has_video body"] c by simp
  have "gw_grows (gateway_os w st) (cs_webrtc st) (learn_video_peer cid body (case sdp_rtp_addr body of Some a \<Rightarrow> set_sip_peer cid a g | None \<Rightarrow> g))"
    by (rule grows_trans [OF grows_trans [OF g] learn_grows]) (simp add: set_sip_peer_def peer_grows split: option.split)
  then have "P (st\<lparr>cs_webrtc := learn_video_peer cid body (case sdp_rtp_addr body of Some a \<Rightarrow> set_sip_peer cid a g | None \<Rightarrow> g)\<rparr>)"
    "P (st\<lparr>cs_webrtc := g\<rparr>)" using g by (auto intro!: gateway [OF assms] intro: gateway_os_weak)
  then show ?thesis unfolding reverse_bridge_def c Let_def by (simp split: outcome.split prod.split)
qed

lemma inv_plain_relay:
  assumes "P st"
  shows "P (snd (plain_relay w cid body st))"
proof -
  obtain r m where c: "allocate_session_for_media (relay_os w st) (ev_instant (cw_env w)) cid (parse_sdp_media_sections body) (cs_relay st) = (r, m)" by force
  have "relay_grows (relay_os w st) (cs_relay st) m"
    using relay_allocate_grows [of "relay_os w st" "cs_relay st" "ev_instant (cw_env w)" cid "parse_sdp_media_sections body"] c by simp
  then have "P (st\<lparr>cs_relay := m\<rparr>)" by (intro relay [OF assms] relay_os_weak)
  then show ?thesis using assms by (simp add: plain_relay_def c Let_def split: outcome.split)
qed

lemma inv_media: "P st \<Longrightarrow> P (snd (invite_media cfg w cid uri stream body st))"
  by (simp add: invite_media_def inv_browser_bridge inv_reverse_bridge inv_plain_relay)

lemma inv_invite_target: "ok msg \<Longrightarrow> P st \<Longrightarrow> P (snd (invite_target cfg w msg src caller callee cid n mailbox uri a st))"
proof -
  assume ok: "ok msg" and inv: "P st"
  have "same_core st (open_dialog cid msg src a (record_call (cw_env w) cid x y st))" for x y
    by (simp add: same_core_def open_dialog_def record_call_def)
  then have 1: "P (open_dialog cid msg src a (record_call (cw_env w) cid x y st))" for x y using core inv by blast
  define st1 where "st1 = open_dialog cid msg src a (record_call (cw_env w) cid (caller @ ''@'' @ cfg_sip_domain cfg) (callee @ ''@'' @ cfg_sip_domain cfg) st)"
  obtain r st2 where m: "invite_media cfg w cid uri (transport_contains a st) (m_body msg) st1 = (r, st2)" by force
  have i2: "P st2" using inv_media [of st1 cfg w cid uri "transport_contains a st" "m_body msg"] 1 m by (simp add: st1_def)
  have send: "P st3" if "send_sip env f a st2 = (x, st3)" for env f x st3 using inv_send [OF i2, of env f a] that by simp
  show ?thesis
    unfolding invite_target_def Let_def st1_def [symmetric] m using i2 send
    by (auto split: outcome.split prod.split option.split intro!: start [OF _ ok])
qed

lemma inv_invite_callee: "ok msg \<Longrightarrow> P st \<Longrightarrow> P (snd (invite_callee cfg w msg src caller callee cid n st))"
  using core [OF same_timers_core [OF delivery_same_timers], of st cfg "cw_vm w" msg callee]
  by (simp add: invite_callee_def inv_invite_target Let_def split: option.split)

lemma inv_proxy_invite:
  assumes "P st" "ok msg"
  shows "P (snd (proxy_invite cfg w msg src st))"
proof -
  have c: "P (st\<lparr>cs_invite_guard := g\<rparr>)" for g using assms(1) by (rule core [rotated]) (simp add: same_core_def)
  show ?thesis
  proof (cases "invite_admitted cfg (cw_env w) msg src st")
    case True
    obtain r st1 where f: "refresh_sender_registration_source (cw_env w) (invite_caller msg) (cfg_sip_domain cfg) src (invite_checked (cw_env w) src st) = (r, st1)" by force
    have "same_core (invite_checked (cw_env w) src st) st1"
      using refresh_more [of "cw_env w" "invite_caller msg" "cfg_sip_domain cfg" src "invite_checked (cw_env w) src st"] f by (intro more_core) simp
    then have "P st1" using core c unfolding invite_checked_def by blast
    then show ?thesis unfolding admitted_invite [OF True] f by (simp add: inv_invite_callee assms(2) split: outcome.split)
  next
    case False
    have r: "P (snd (reject_invalid_invite cfg env msg src u d (st\<lparr>cs_invite_guard := g\<rparr>)))" for env u d g
      by (rule core [OF reject_core c])
    show ?thesis
    proof (cases "caller_account_exists (cw_env w) (invite_caller msg) (cfg_sip_domain cfg) st")
      case (Ok known)
      then show ?thesis using False assms(1) c r unfolding proxy_invite_def invite_admitted_def Let_def by (cases known) (auto simp: split_beta)
    qed (use assms(1) c r in \<open>simp_all add: proxy_invite_def Let_def split_beta\<close>)
  qed
qed

lemma inv_update_call: "P st \<Longrightarrow> P (update_call env cid f st)"
  by (rule core [OF update_call_core])

lemma inv_forward_by_uri: "P st \<Longrightarrow> P (forward_by_uri cfg env msg st)"
  by (simp add: forward_by_uri_def inv_send Let_def split: option.split)

lemma inv_proxy_dialog:
  assumes "P st"
  shows "P (proxy_ack cfg env msg st)" "P (snd (proxy_bye cfg env msg src st))" "P (snd (proxy_cancel cfg w msg st))"
    "P (snd (proxy_refer env msg src st))" "P (snd (proxy_in_dialog env msg src st))"
  using assms
  by (simp_all add: proxy_ack_def proxy_bye_def proxy_cancel_def proxy_refer_def proxy_in_dialog_def inv_update_call cancel caller_cancel
      inv_drop inv_send inv_forward_by_uri Let_def split: option.split)

lemma inv_persist_message: "P st \<Longrightarrow> P (persist_message env msg a b s ip st)"
  by (rule core [OF persist_message_core])

lemma inv_message_from: "P st \<Longrightarrow> P (snd (message_from cfg env msg src sender st))"
proof -
  assume inv: "P st"
  have send: "P st3" if "send_sip e f a st = (x, st3)" for e f a x st3 using inv_send [OF inv, of e f a] that by simp
  show ?thesis using inv send
    by (auto simp: message_from_def Let_def split: option.split prod.split outcome.split intro!: inv_persist_message)
qed

lemma inv_message:
  assumes "P st"
  shows "P (snd (proxy_message cfg env msg src st))"
proof -
  obtain r st1 where f: "refresh_sender_registration_source env (message_sender msg) (cfg_sip_domain cfg) src st = (r, st1)" by force
  have "same_core st st1" using refresh_more [of env "message_sender msg" "cfg_sip_domain cfg" src st] f by (intro more_core) simp
  then have "P st1" using core assms by blast
  then show ?thesis
    unfolding proxy_message_def Let_def message_sender_def [symmetric] f using assms by (simp add: inv_message_from split: outcome.split bool.split)
qed

lemma inv_conference_join: "P st \<Longrightarrow> P (snd (conference_join cfg w msg src k ext caller cid st))"
proof (erule conference)
  assume wf: "conf_wf (cs_conf_media st)"
  have "conf_wf media" if "join_room (cw_ports w) (cw_rtp_start w) k cid c pt te (cs_conf_media st) = (r, media)" for c pt te r media
    using join_room_wf [OF wf, of "cw_ports w" "cw_rtp_start w" k cid c pt te] that by simp
  then show "conf_wf (cs_conf_media (snd (conference_join cfg w msg src k ext caller cid st)))"
    using wf by (simp add: conference_join_def Let_def split: outcome.split prod.split)
qed (simp_all add: join_linked, simp_all add: conference_join_def Let_def split: outcome.split prod.split)

lemma inv_conference_invite: "P st \<Longrightarrow> P (snd (conference_invite cfg w msg src k n st))"
  by (cases "conference_admits cfg w msg k n st"; cases "call_id msg")
    (auto simp: conference_refused conference_admitted inv_conference_join conference_admits_def)

lemma inv_conference_bye: "P st \<Longrightarrow> P (snd (conference_bye env msg st))"
proof (erule conference)
  assume "conf_wf (cs_conf_media st)"
  then show "conf_wf (cs_conf_media (snd (conference_bye env msg st)))"
    by (simp add: conference_bye_def participant_left_def leave_room_wf Let_def split: option.split)
qed (simp_all add: bye_linked, simp_all add: conference_bye_def participant_left_def Let_def split: option.split)

lemma inv_conference_info: "P st \<Longrightarrow> P (snd (conference_info env msg st))"
proof (erule conference)
  assume "conf_wf (cs_conf_media st)"
  then show "conf_wf (cs_conf_media (snd (conference_info env msg st)))"
    by (simp add: conference_info_def parse_dtmf_relay_for_star6_def record_dtmf_for_wf Let_def split_beta split: option.split)
qed (simp_all add: info_linked, simp_all add: conference_info_def Let_def split_beta split: option.split)

lemma inv_voicemail_field:
  assumes "P st"
  shows "P (st\<lparr>vx_active := a\<rparr>)" "P (st\<lparr>vx_media := m\<rparr>)" "P (st\<lparr>vx_canceled := c\<rparr>)"
  using assms by (auto intro!: core [of st] simp: same_core_def)

lemma inv_voicemail_dialog:
  assumes "P st"
  shows "P (voicemail_ack msg st)" "P (snd (voicemail_bye msg st))" "P (snd (voicemail_cancel msg st))"
  using assms
  by (simp_all add: voicemail_ack_def voicemail_bye_def voicemail_cancel_def mark_recording_canceled_def Let_def cancel inv_voicemail_field)

lemma inv_voicemail_requests:
  assumes "P st"
  shows "P (snd (voicemail_info cfg w msg st))" "P (snd (handle_access_invite cfg w msg src st))"
    "P (snd (mwi_handle_subscribe sha1 cfg env msg src st))" "P (snd (handle_delivery_invite cfg w msg callee st))"
  by (rule core [OF same_timers_core [OF info_timers] assms] core [OF same_timers_core [OF access_timers] assms]
      core [OF same_timers_core [OF mwi_subscribe_timers] assms] core [OF same_timers_core [OF delivery_same_timers] assms])+

lemma inv_generic: "(meth = ''INVITE'' \<Longrightarrow> ok msg) \<Longrightarrow> P st \<Longrightarrow> P (snd (route_generic cfg w meth msg src st))"
proof -
  assume ok: "meth = ''INVITE'' \<Longrightarrow> ok msg" and inv: "P st"
  have "P (snd (handle_register md5 cfg env msg src st))" "P (snd (handle_subscribe cfg env msg src st))" for md5 env
    by (rule core [OF more_core inv]; simp add: frame_simps)+
  then show ?thesis using inv ok by (simp add: route_generic_def Let_def inv_proxy_invite inv_message inv_proxy_dialog)
qed

lemma inv_route: "(meth = ''INVITE'' \<Longrightarrow> ok msg) \<Longrightarrow> P st \<Longrightarrow> P (snd (route_request cfg w meth msg src st))"
  unfolding route_request_def route_conference_def Let_def
  by (auto simp: inv_generic inv_conference_invite inv_conference_bye inv_conference_info inv_voicemail_dialog inv_voicemail_requests split: option.split)

lemma inv_relay_to_caller:
  assumes "P st"
  shows "P (relay_to_caller cfg w cid msg addr st)"
proof -
  obtain g where g: "gw_grows (\<lambda>p. False) (cs_webrtc st) g" "snd (relayed_answer cid msg (strip_proxy_via (m_raw msg) (cfg_sip_domain cfg)) st) = st\<lparr>cs_webrtc := g\<rparr>"
    using relayed_answer_shape by blast
  have 1: "P (st\<lparr>cs_webrtc := g\<rparr>)" by (rule gateway [OF assms grows_mono [OF g(1)]]) simp
  have p: "P (st\<lparr>cs_pending := x\<rparr>)" if "P st" for x and st :: "'a call_server_scheme" using that by (rule core [rotated]) (simp add: same_core_def)
  have d: "P (st\<lparr>cs_relay := remove_session cid (cs_relay st), cs_webrtc := webrtc_remove_session cid (cs_webrtc st)\<rparr>)" if "P st" for st :: "'a call_server_scheme"
    using gateway [OF relay [OF that relay_remove_grows] remove_grows, of cid cid] by simp
  show ?thesis unfolding relay_to_caller_def Let_def split_beta g(2) using inv_send [OF 1] p d by simp
qed

lemma inv_relay_response:
  assumes "P st"
  shows "P (relay_response cfg w msg st)"
  using assms cancel [OF assms] by (simp add: relay_response_def Let_def split_beta inv_drop inv_relay_to_caller split: option.split)

lemma inv_busy: "P st \<Longrightarrow> P (snd (handle_busy_to_voicemail cfg w msg st))"
proof -
  assume inv: "P st"
  have "P (st\<lparr>cs_invites := x\<rparr>)" for x using inv by (rule core [rotated]) (simp add: same_core_def)
  then have "P (drop_call cid (snd (cancel_no_answer_timer cid (st\<lparr>cs_invites := x\<rparr>))))" for cid x by (intro inv_drop cancel)
  then show ?thesis
    using inv by (simp add: handle_busy_to_voicemail_def Let_def drop_call_def hm.get_del split: option.split)
qed

lemma inv_response: "P st \<Longrightarrow> P (snd (handle_response cfg w msg st))"
proof -
  assume inv: "P st"
  obtain b st1 where b: "handle_busy_to_voicemail cfg w msg st = (b, st1)" by force
  have "P st1" using inv_busy [OF inv, of cfg w msg] b by simp
  then show ?thesis using inv by (simp add: handle_response_def b inv_relay_response Let_def split: outcome.split option.split)
qed

lemma inv_process:
  assumes "harmless ok raw" "P st"
  shows "P (snd (process_sip_msg cfg w raw src st))"
  using assms
  by (simp add: process_sip_msg_def harmless_def inv_response inv_route split: outcome.split option.split)

lemma inv_datagram:
  assumes "harmless ok (from_utf8_lossy data)" "P st"
  shows "P (snd (handle_datagram cfg w data src st))"
proof -
  obtain r st1 where p: "process_sip_msg cfg w (from_utf8_lossy data) src st = (r, st1)" by force
  have "P st1" using inv_process [OF assms, of cfg w src] p by simp
  moreover have "P (snd (udp_send env a m st1))" if "P st1" for env a m
    by (rule core [OF more_core that]) (simp add: frame_simps)
  ultimately show ?thesis by (simp add: handle_datagram_def p split: outcome.split option.split)
qed

end

section \<open>The invariant of the handler\<close>

lemma inv_timers:
  assumes "server_inv st" "timers_wf st'" "voicemail_server.more st' = voicemail_server.more st"
  shows "server_inv st'"
  using assms call_server_more [OF assms(3)] by (simp add: server_inv_def conf_linked_def)

lemma inv_dropped: "server_inv st \<Longrightarrow> server_inv (drop_call cid st)"
  using relay_remove_grows [where os = "\<lambda>p. False" and r = "cs_relay st" and k = cid] remove_grows [where os = "\<lambda>p. False" and g = "cs_webrtc st" and cid = cid]
  by (auto simp: server_inv_def drop_call_def grows_def conf_linked_def timers_wf_def)

interpretation inv_handled: handler_property server_inv "\<lambda>msg. True"
proof
  fix st st' :: "'a call_server_scheme" and cid cfg w t
  show "same_core st st' \<Longrightarrow> server_inv st \<Longrightarrow> server_inv st'"
    by (simp add: same_core_def server_inv_def conf_linked_def timers_wf_def)
  show "server_inv (st\<lparr>cs_relay := r\<rparr>)" if "server_inv st" "relay_grows (\<lambda>p. p \<notin> set (gw_bound_ports (cs_webrtc st))) (cs_relay st) r" for r
    using that by (auto simp: server_inv_def grows_def conf_linked_def timers_wf_def)
  show "server_inv (st\<lparr>cs_webrtc := g\<rparr>)" if "server_inv st" "gw_grows (\<lambda>p. p \<notin> set (bound_ports (cs_relay st))) (cs_webrtc st) g" for g
    using that by (auto simp: server_inv_def grows_def conf_linked_def timers_wf_def)
  show "server_inv (snd (cancel_no_answer_timer cid st))" if "server_inv st"
    by (rule inv_timers [OF that]) (use that in \<open>auto simp: server_inv_def intro: cancel_timers_wf\<close>)
  show "server_inv (snd (cancel_no_answer_timer_for_caller_cancel cid st))" if "server_inv st"
    by (rule inv_timers [OF that]) (use that in \<open>auto simp: server_inv_def caller_cancel_more intro: caller_cancel_timers_wf\<close>)
  show "server_inv (start_no_answer_timer env msg src a uri callee n st)" if "server_inv st" for env msg src a uri callee n
    by (rule inv_timers [OF that]) (use that in \<open>auto simp: server_inv_def intro: start_timers_wf\<close>)
  show "server_inv (timer_step cfg w t st)" if "server_inv st"
  proof -
    have t: "timers_wf (timer_step cfg w t st)" using that by (simp add: server_inv_def timer_step_wf)
    show ?thesis
      by (rule timer_step_more [of cfg w t st]) (use inv_timers [OF that t] inv_timers [OF inv_dropped [OF that] t] in simp_all)
  qed
qed (simp add: server_inv_def timers_wf_def)

section \<open>Calls the caller gave up\<close>

interpretation quiet_handled: handler_property "timer_quiet cid" "\<lambda>msg. call_id msg \<noteq> Some cid" for cid
proof
  fix st st' :: "'a call_server_scheme"
  show "timer_quiet cid st'" if "same_core st st'" "timer_quiet cid st"
    by (rule quiet_same [OF that(2)]) (use that(1) in \<open>simp_all add: same_core_def\<close>)
  show "timer_quiet cid st'" if "timer_quiet cid st" "vx_no_answer st' = vx_no_answer st" "vx_timers st' = vx_timers st"
    by (rule quiet_same [OF that])
qed (simp_all add: cancel_quiet caller_cancel_quiet start_quiet timer_step_quiet, simp_all add: timer_quiet_def)

end
