(* ===== verification/Server.thy ===== *)
theory Server
  imports Handler_Invariant Acl
begin

text \<open>
  The server, \<open>server.rs\<close> with \<open>call_cleanup.rs\<close>: the start, the loop that admits datagrams and hands each to a task, and the background
  tasks. The admission of a datagram and its handling are separate steps, so that datagrams, stream messages, timers, media packets
  and clean-ups interleave in any order. An interval of a background task is left out: its body can run at any time.
\<close>

section \<open>Clean-up of the tables\<close>

definition is_open_call :: "sip_call \<Rightarrow> bool" where
  "is_open_call c = (sc_ended_at c = None \<and> sc_status c \<in> {CallTrying, CallAnswered})"

text \<open>\<open>DATE_SUB\<close> in seconds; the parameter is \<open>NULL\<close> or a number of hours.\<close>

definition stale_call :: "env \<Rightarrow> int option \<Rightarrow> sip_call \<Rightarrow> bool" where
  "stale_call env older_than_hours c =
     (is_open_call c \<and> (case older_than_hours of None \<Rightarrow> True | Some h \<Rightarrow> int (sc_started_at c) < int (ev_utc env) - 3600 * h))"

definition mark_stale_calls_ended :: "env \<Rightarrow> int option \<Rightarrow> 'a call_server_scheme \<Rightarrow> (string, nat) outcome \<times> 'a call_server_scheme" where
  "mark_stale_calls_ended env older_than_hours st =
     (if ev_fails env EndStaleCalls then (Err db_error, st)
      else (Ok (length (filter (\<lambda>(_, c). stale_call env older_than_hours c) (cs_calls st))),
            st\<lparr>cs_calls := map (\<lambda>(k, c). (k, if stale_call env older_than_hours c
              then c\<lparr>sc_status := CallEnded, sc_ended_at := Some (ev_utc env)\<rparr> else c)) (cs_calls st)\<rparr>))"

definition archived_call :: "env \<Rightarrow> int \<Rightarrow> sip_call \<Rightarrow> bool" where
  "archived_call env older_than_days c =
     (case sc_ended_at c of None \<Rightarrow> False | Some t \<Rightarrow> int t < int (ev_utc env) - 86400 * older_than_days)"

definition purge_old_cdr_records :: "env \<Rightarrow> int \<Rightarrow> 'a call_server_scheme \<Rightarrow> (string, nat) outcome \<times> 'a call_server_scheme" where
  "purge_old_cdr_records env older_than_days st =
     (if ev_fails env PurgeCalls then (Err db_error, st)
      else (Ok (length (filter (\<lambda>(_, c). archived_call env older_than_days c) (cs_calls st))),
            st\<lparr>cs_calls := filter (\<lambda>(_, c). \<not> archived_call env older_than_days c) (cs_calls st)\<rparr>))"

definition purge_registrations :: "env \<Rightarrow> 'a server_state_scheme \<Rightarrow> 'a server_state_scheme" where
  "purge_registrations env st =
     (if ev_fails env PurgeRegistrations then st
      else st\<lparr>sv_registrations := filter (\<lambda>(_, r). \<not> rg_expires_at r < ev_utc env) (sv_registrations st)\<rparr>)"

definition purge_subscriptions :: "env \<Rightarrow> 'a server_state_scheme \<Rightarrow> 'a server_state_scheme" where
  "purge_subscriptions env st =
     (if ev_fails env PurgeSubscriptions then st
      else st\<lparr>sv_subscriptions := filter (\<lambda>(_, s). \<not> sb_expires_at s < ev_utc env) (sv_subscriptions st)\<rparr>)"

section \<open>The process\<close>

record cleanup_config =
  cl_max_concurrent_tasks :: nat
  cl_udp_buffer_size :: nat
  cl_media_session_max_age_secs :: u64
  cl_stale_call_age_hours :: int
  cl_cdr_archive_days :: int

text \<open>The state of the process: that of the handler, the ACL in use, and the admitted datagrams whose tasks have not run.\<close>

record 'net server_process =
  sp_calls :: call_server
  sp_acl :: "'net acl_checker"
  sp_tasks :: "(string \<times> socket_addr) list"

text \<open>A new handler over the same database and storage: all maps are empty, and nothing is bound.\<close>

definition with_socket :: "sip_config \<Rightarrow> 'a call_server_scheme \<Rightarrow> 'a call_server_scheme" where
  "with_socket cfg st =
     st\<lparr>sv_guard := guard_new \<lparr>window_secs = unat (cfg_window_secs cfg), ip_fail_threshold = unat (cfg_sip_ip_fail_threshold cfg),
          user_ip_fail_threshold = unat (cfg_sip_user_ip_fail_threshold cfg), block_secs = unat (cfg_block_secs cfg)\<rparr>,
        sv_streams := [],
        vx_media := voicemail_media_new (cfg_public_ip cfg) (cfg_voicemail_rtp_port_min cfg) (cfg_voicemail_rtp_port_max cfg),
        vx_active := [], vx_no_answer := [], vx_timers := [], vx_next_timer := 0, vx_recording := {}, vx_canceled := {},
        vx_access_pending := {}, vx_spawned := [],
        cs_invite_guard := guard_new \<lparr>window_secs = unat (cfg_window_secs cfg), ip_fail_threshold = unat (cfg_sip_invite_ip_fail_threshold cfg),
          user_ip_fail_threshold = unat (cfg_sip_invite_user_ip_fail_threshold cfg), block_secs = unat (cfg_block_secs cfg)\<rparr>,
        cs_pending := [], cs_invites := [], cs_active := [],
        cs_relay := media_relay_new (cfg_public_ip cfg) (cfg_rtp_port_min cfg) (cfg_rtp_port_max cfg),
        cs_webrtc := webrtc_gateway_new (cfg_public_ip cfg) (cfg_rtp_port_min cfg) (cfg_rtp_port_max cfg),
        cs_conf_calls := [],
        cs_conf_media := conference_media_new (cfg_public_ip cfg) (cfg_conference_rtp_port_min cfg) (cfg_conference_rtp_port_max cfg)\<rparr>"

definition load_acl :: "'net ipnet \<Rightarrow> sip_config \<Rightarrow> env \<Rightarrow> 'a server_state_scheme \<Rightarrow> (string, 'net acl_checker) outcome" where
  "load_acl N cfg env st =
     load_from_db N (if ev_fails env LoadAcl then Some db_error else None) (sv_acl st) (from_config (cfg_acl_default_policy cfg))"

text \<open>\<open>run\<close> up to its loop; \<open>fails\<close> says which temporary files cannot be deleted.\<close>

definition server_start :: "'net ipnet \<Rightarrow> sip_config \<Rightarrow> env \<Rightarrow> (string \<Rightarrow> bool) \<Rightarrow> call_server \<Rightarrow> 'net server_process" where
  "server_start N cfg env fails st =
     (let st = snd (mark_stale_calls_ended env None st);
          st = with_socket cfg st;
          st = snd (reconcile_active_on_startup env st);
          st = snd (reconcile_on_startup env fails st)
      in \<lparr>sp_calls = st,
          sp_acl = (case load_acl N cfg env st of Ok acl \<Rightarrow> acl | _ \<Rightarrow> checker_new (from_config (cfg_acl_default_policy cfg))),
          sp_tasks = []\<rparr>)"

definition refresh_acl :: "'net ipnet \<Rightarrow> sip_config \<Rightarrow> env \<Rightarrow> 'net server_process \<Rightarrow> 'net server_process" where
  "refresh_acl N cfg env s = (case load_acl N cfg env (sp_calls s) of Ok acl \<Rightarrow> s\<lparr>sp_acl := acl\<rparr> | _ \<Rightarrow> s)"

text \<open>The body of the loop: the datagram is cut to the buffer, checked, and given to a task if a permit is free.\<close>

definition receive_datagram :: "'net ipnet \<Rightarrow> cleanup_config \<Rightarrow> string \<Rightarrow> socket_addr \<Rightarrow> 'net server_process \<Rightarrow> 'net server_process" where
  "receive_datagram N cl data src s =
     (if \<not> is_allowed N (sp_acl s) (sa_ip src) then s
      else if cl_max_concurrent_tasks cl \<le> length (sp_tasks s) then s
      else s\<lparr>sp_tasks := sp_tasks s @ [(take (cl_udp_buffer_size cl) data, src)]\<rparr>)"

definition run_task :: "sip_config \<Rightarrow> call_world \<Rightarrow> nat \<Rightarrow> 'net server_process \<Rightarrow> 'net server_process" where
  "run_task cfg w i s =
     (if length (sp_tasks s) \<le> i then s
      else let (data, src) = sp_tasks s ! i
           in s\<lparr>sp_tasks := take i (sp_tasks s) @ drop (Suc i) (sp_tasks s), sp_calls := snd (handle_datagram cfg w data src (sp_calls s))\<rparr>)"

section \<open>WebSocket connections\<close>

text \<open>
  The loop of \<open>process_ws\<close>: one frame, the end or an error of the stream, or one queued message. The handshake and the framing belong to
  the library; \<open>sink_fails\<close> says whether a write to the peer fails. The result is what was written and whether the loop goes on. A task
  that panics does not reach \<open>unregister_stream\<close>, but its receiver is dropped.
\<close>

datatype ws_frame = WsText string | WsBinary string | WsPing string | WsClose | WsOther

datatype ws_output = WsOutText string | WsOutPong string

datatype ws_turn = WsGoesOn | WsBreaks | WsDies

definition ws_write :: "bool \<Rightarrow> string \<Rightarrow> ws_turn \<times> ws_output list" where
  "ws_write sink_fails m = (if sink_fails then (WsBreaks, []) else (WsGoesOn, [WsOutText m]))"

definition ws_text ::
  "sip_config \<Rightarrow> call_world \<Rightarrow> bool \<Rightarrow> string \<Rightarrow> socket_addr \<Rightarrow> 'a call_server_scheme \<Rightarrow> (ws_turn \<times> ws_output list) \<times> 'a call_server_scheme" where
  "ws_text cfg w sink_fails text src st =
     (case process_sip_msg cfg w text src st of
        (Ok (Some resp), st) \<Rightarrow> (ws_write sink_fails resp, st)
      | (Panic, st) \<Rightarrow> ((WsDies, []), st)
      | (_, st) \<Rightarrow> ((WsGoesOn, []), st))"

fun ws_inbound ::
  "sip_config \<Rightarrow> call_world \<Rightarrow> bool \<Rightarrow> ws_frame option \<Rightarrow> socket_addr \<Rightarrow> 'a call_server_scheme \<Rightarrow> (ws_turn \<times> ws_output list) \<times> 'a call_server_scheme" where
  "ws_inbound cfg w sink_fails None src st = ((WsBreaks, []), st)"
| "ws_inbound cfg w sink_fails (Some (WsText t)) src st = ws_text cfg w sink_fails t src st"
| "ws_inbound cfg w sink_fails (Some (WsBinary b)) src st = (if utf8_valid b then ws_text cfg w sink_fails b src st else ((WsGoesOn, []), st))"
| "ws_inbound cfg w sink_fails (Some (WsPing d)) src st = ((WsGoesOn, if sink_fails then [] else [WsOutPong d]), st)"
| "ws_inbound cfg w sink_fails (Some WsClose) src st = ((WsBreaks, []), st)"
| "ws_inbound cfg w sink_fails (Some WsOther) src st = ((WsGoesOn, []), st)"

definition stream_dequeue :: "socket_addr \<Rightarrow> 'a server_state_scheme \<Rightarrow> string option \<times> 'a server_state_scheme" where
  "stream_dequeue src st =
     (case hm_get (sv_streams st) src of
        Some (Some (m # queue)) \<Rightarrow> (Some m, st\<lparr>sv_streams := hm_put src (Some queue) (sv_streams st)\<rparr>)
      | _ \<Rightarrow> (None, st))"

definition ws_outbound :: "bool \<Rightarrow> socket_addr \<Rightarrow> 'a server_state_scheme \<Rightarrow> (ws_turn \<times> ws_output list) \<times> 'a server_state_scheme" where
  "ws_outbound sink_fails src st =
     (case stream_dequeue src st of (Some m, st) \<Rightarrow> (ws_write sink_fails m, st) | (None, st) \<Rightarrow> ((WsGoesOn, []), st))"

definition ws_after :: "socket_addr \<Rightarrow> (ws_turn \<times> ws_output list) \<times> 'a server_state_scheme \<Rightarrow> ws_output list \<times> 'a server_state_scheme" where
  "ws_after src r =
     (snd (fst r), case fst (fst r) of
        WsGoesOn \<Rightarrow> snd r
      | WsBreaks \<Rightarrow> transport_unregister src (snd r)
      | WsDies \<Rightarrow> (snd r)\<lparr>sv_streams := hm_adjust src (\<lambda>_. None) (sv_streams (snd r))\<rparr>)"

section \<open>Runs\<close>

text \<open>What the HTTP interface and its workers can change: rows of tables, and the stored audio.\<close>

record tables =
  tb_accounts :: "(string \<times> string, account) hmap"
  tb_registrations :: "(string \<times> string, registration) hmap"
  tb_acl :: acl_table
  tb_webhooks :: "webhook list"
  tb_deliveries :: "delivery list"
  tb_boxes :: "mailbox_settings list"
  tb_messages :: "voicemail_message list"
  tb_storage :: voicemail_storage
  tb_calls :: "(string, sip_call) hmap"
  tb_rooms :: "conference_room list"

text \<open>
  Everything that can happen next to the state of the handler, apart from the tasks. A message that was read off a TLS stream is
  handled by the same dispatcher. \<open>Administered\<close> stands for the HTTP interface.
\<close>

datatype call_event =
    StreamMessage call_world string socket_addr
  | StreamOpens socket_addr
  | StreamCloses socket_addr
  | StreamWrites socket_addr
  | WsFrame call_world bool "ws_frame option" socket_addr
  | WsQueued bool socket_addr
  | TimerStep call_world nat
  | RecordingBegins recording_start
  | RecordingEnds voicemail_world write_fault "nat \<Rightarrow> string" nat "iteration list" nat vm_session recording_start
  | RelayRtp u16 socket_addr "u8 list"
  | RelayError u16
  | GatewayRtp nat socket_addr
  | GatewayError nat
  | ConferenceRtp nat u16 socket_addr "u8 list"
  | MixerTick bool "nat \<Rightarrow> bool" u64
  | CleanRelay nat
  | CleanGateway nat
  | CloseStaleCalls env
  | PurgeCdr env
  | PurgeBindings env
  | PurgeWatchers env
  | Administered tables

fun call_step :: "sip_config \<Rightarrow> cleanup_config \<Rightarrow> call_event \<Rightarrow> 'a call_server_scheme \<Rightarrow> 'a call_server_scheme" where
  "call_step cfg cl (StreamMessage w raw src) st = snd (process_sip_msg cfg w raw src st)"
| "call_step cfg cl (StreamOpens src) st = transport_register src st"
| "call_step cfg cl (StreamCloses src) st = transport_unregister src st"
| "call_step cfg cl (StreamWrites src) st = snd (stream_dequeue src st)"
| "call_step cfg cl (WsFrame w sink_fails frame src) st = snd (ws_after src (ws_inbound cfg w sink_fails frame src st))"
| "call_step cfg cl (WsQueued sink_fails src) st = snd (ws_after src (ws_outbound sink_fails src st))"
| "call_step cfg cl (TimerStep w t) st = timer_step cfg w t st"
| "call_step cfg cl (RecordingBegins r) st = snd (recording_begins r st)"
| "call_step cfg cl (RecordingEnds w fault uuids started its i session r) st =
     (case recording_ends cfg w fault uuids started its i session r st of None \<Rightarrow> st | Some (_, st') \<Rightarrow> st')"
| "call_step cfg cl (RelayRtp port src dg) st = st\<lparr>cs_relay := snd (relay_packet port src dg (cs_relay st))\<rparr>"
| "call_step cfg cl (RelayError port) st = st\<lparr>cs_relay := relay_recv_error port (cs_relay st)\<rparr>"
| "call_step cfg cl (GatewayRtp i src) st = st\<lparr>cs_webrtc := sip_rx i src (cs_webrtc st)\<rparr>"
| "call_step cfg cl (GatewayError i) st = st\<lparr>cs_webrtc := sip_rx_error i (cs_webrtc st)\<rparr>"
| "call_step cfg cl (ConferenceRtp now port src dg) st = st\<lparr>cs_conf_media := receive_on now port src dg (cs_conf_media st)\<rparr>"
| "call_step cfg cl (MixerTick checks locked room) st = st\<lparr>cs_conf_media := snd (mixer_tick checks locked room (cs_conf_media st))\<rparr>"
| "call_step cfg cl (CleanRelay now) st = st\<lparr>cs_relay := cleanup_stale_sessions now (cl_media_session_max_age_secs cl) (cs_relay st)\<rparr>"
| "call_step cfg cl (CleanGateway now) st = st\<lparr>cs_webrtc := webrtc_cleanup_stale now (cl_media_session_max_age_secs cl) (cs_webrtc st)\<rparr>"
| "call_step cfg cl (CloseStaleCalls env) st = snd (mark_stale_calls_ended env (Some (cl_stale_call_age_hours cl)) st)"
| "call_step cfg cl (PurgeCdr env) st =
     (if 0 < cl_cdr_archive_days cl then snd (purge_old_cdr_records env (cl_cdr_archive_days cl) st) else st)"
| "call_step cfg cl (PurgeBindings env) st = purge_registrations env st"
| "call_step cfg cl (PurgeWatchers env) st = purge_subscriptions env st"
| "call_step cfg cl (Administered ts) st =
     st\<lparr>sv_accounts := tb_accounts ts, sv_registrations := tb_registrations ts, sv_acl := tb_acl ts, sv_webhooks := tb_webhooks ts,
        sv_deliveries := tb_deliveries ts, vx_boxes := tb_boxes ts, vx_messages := tb_messages ts, vx_storage := tb_storage ts,
        cs_calls := tb_calls ts, cs_rooms := tb_rooms ts\<rparr>"

datatype server_event = Arrives string socket_addr | RunTask call_world nat | RefreshAcl env | Calls call_event

fun server_step :: "'net ipnet \<Rightarrow> sip_config \<Rightarrow> cleanup_config \<Rightarrow> server_event \<Rightarrow> 'net server_process \<Rightarrow> 'net server_process" where
  "server_step N cfg cl (Arrives data src) s = receive_datagram N cl data src s"
| "server_step N cfg cl (RunTask w i) s = run_task cfg w i s"
| "server_step N cfg cl (RefreshAcl env) s = refresh_acl N cfg env s"
| "server_step N cfg cl (Calls ev) s = s\<lparr>sp_calls := call_step cfg cl ev (sp_calls s)\<rparr>"

definition server_run :: "'net ipnet \<Rightarrow> sip_config \<Rightarrow> cleanup_config \<Rightarrow> server_event list \<Rightarrow> 'net server_process \<Rightarrow> 'net server_process" where
  "server_run N cfg cl = fold (server_step N cfg cl)"

section \<open>What every step keeps\<close>

lemma cleanup_core:
  "same_core st (snd (mark_stale_calls_ended env h st))" "same_core st (snd (purge_old_cdr_records env d st))"
  "same_core st (purge_registrations env st)" "same_core st (purge_subscriptions env st)"
  by (simp_all add: same_core_def mark_stale_calls_ended_def purge_old_cdr_records_def purge_registrations_def purge_subscriptions_def)

lemma transport_core: "same_core st (transport_register src st)" "same_core st (transport_unregister src st)" "same_core st (snd (stream_dequeue src st))"
  by (simp_all add: same_core_def transport_register_def transport_unregister_def stream_dequeue_def split: option.split list.split)

lemma core_trans: "same_core a b \<Longrightarrow> same_core b c \<Longrightarrow> same_core a c"
  by (simp add: same_core_def)

lemma ws_after_core: "same_core (snd r) (snd (ws_after src r))"
  by (simp add: ws_after_def transport_core same_core_def transport_unregister_def split: ws_turn.split)

lemma ws_outbound_core: "same_core st (snd (ws_outbound f src st))"
  using transport_core(3) [of st src] by (auto simp: ws_outbound_def split: prod.split option.split)

lemma recording_core:
  "same_core st (snd (recording_begins r st))"
  "recording_ends cfg w fault uuids started its i session r st = Some (x, st') \<Longrightarrow> same_core st st'"
proof -
  show "same_core st (snd (recording_begins r st))" by (simp add: recording_begins_def same_core_def split: outcome.split)
  have 1: "same_core st (st\<lparr>vx_storage := a, vx_media := b\<rparr>)" for a b by (simp add: same_core_def)
  have 2: "same_core st y" if "recording_finished w r res (st\<lparr>vx_storage := a, vx_media := b\<rparr>) = (x, y)" for a b res x y
    using core_trans [OF 1 [of b a] same_timers_core [OF finished_timers [of _ w r res]]] that by simp
  show "same_core st st'" if "recording_ends cfg w fault uuids started its i session r st = Some (x, st')"
    using that 1 by (auto simp: recording_ends_def Let_def split: option.splits outcome.splits dest: 2)
qed

lemma mixer_parts: "part_of k cid (receive_on now port src dg s) = part_of k cid s" "part_of k cid (snd (mixer_tick checks locked room s)) = part_of k cid s"
  by (auto simp: part_of_def receive_on_def mixer_tick_def hm.get_put Let_def split: option.split prod.split)

text \<open>Whether the INVITEs an event brings into the server satisfy a condition.\<close>

definition call_event_ok :: "(sip_message \<Rightarrow> bool) \<Rightarrow> call_event \<Rightarrow> bool" where
  "call_event_ok ok ev =
     (case ev of
        StreamMessage w raw src \<Rightarrow> harmless ok raw
      | WsFrame w sink_fails (Some (WsText t)) src \<Rightarrow> harmless ok t
      | WsFrame w sink_fails (Some (WsBinary b)) src \<Rightarrow> harmless ok b
      | _ \<Rightarrow> True)"

definition event_ok :: "cleanup_config \<Rightarrow> (sip_message \<Rightarrow> bool) \<Rightarrow> server_event \<Rightarrow> bool" where
  "event_ok cl ok ev =
     (case ev of Arrives data src \<Rightarrow> harmless ok (from_utf8_lossy (take (cl_udp_buffer_size cl) data)) | Calls e \<Rightarrow> call_event_ok ok e | _ \<Rightarrow> True)"

definition tasks_ok :: "(sip_message \<Rightarrow> bool) \<Rightarrow> 'net server_process \<Rightarrow> bool" where
  "tasks_ok ok s = list_all (\<lambda>(data, src). harmless ok (from_utf8_lossy data)) (sp_tasks s)"

context handler_property
begin

lemma inv_ws_text: "harmless ok t \<Longrightarrow> P st \<Longrightarrow> P (snd (ws_text cfg w f t src st))"
  using inv_process [of t st cfg w src] by (auto simp: ws_text_def split: outcome.split option.split prod.split)

lemma inv_ws:
  assumes "call_event_ok ok (WsFrame w f frame src)" "P st"
  shows "P (snd (ws_after src (ws_inbound cfg w f frame src st)))"
proof (rule core [OF ws_after_core])
  show "P (snd (ws_inbound cfg w f frame src st))"
    using assms by (cases "(cfg, w, f, frame, src, st)" rule: ws_inbound.cases) (auto simp: call_event_ok_def inv_ws_text)
qed

lemma inv_mixer:
  assumes "P st" "\<And>k cid. part_of k cid m = part_of k cid (cs_conf_media st)" "conf_wf (cs_conf_media st) \<Longrightarrow> conf_wf m"
  shows "P (st\<lparr>cs_conf_media := m\<rparr>)"
  by (rule conference [OF assms(1)]) (use assms(2,3) in \<open>simp_all add: conf_linked_def\<close>)

lemma inv_call_step:
  assumes "call_event_ok ok ev" "P st"
  shows "P (call_step cfg cl ev st)"
proof (cases ev)
  case (WsFrame w f frame src)
  then show ?thesis using inv_ws [of w f frame src st cfg] assms by simp
next
  case (WsQueued f src)
  then show ?thesis using core [OF ws_after_core core [OF ws_outbound_core assms(2)]] by simp
next
  case (RecordingEnds w fault uuids started its i session r)
  then show ?thesis using core [OF recording_core(2) assms(2)] assms(2) by (auto split: option.split)
next
  case (Administered ts)
  show ?thesis unfolding Administered by (rule core [OF _ assms(2)]) (simp add: same_core_def)
qed (use assms in \<open>simp_all add: call_event_ok_def inv_process timer core [OF recording_core(1)] core [OF transport_core(1)]
       core [OF transport_core(2)] core [OF transport_core(3)] core [OF cleanup_core(1)] core [OF cleanup_core(2)] core [OF cleanup_core(3)]
       core [OF cleanup_core(4)] relay relay_packet_grows relay_cleanup_grows gateway receive_grows cleanup_grows inv_mixer mixer_parts receive_on_wf mixer_tick_wf\<close>)

end

section \<open>Any run of the server\<close>

lemma handled_step:
  fixes s :: "'net server_process"
  assumes "handler_property P ok" "event_ok cl ok ev" "tasks_ok ok s" "P (sp_calls s)"
  shows "P (sp_calls (server_step N cfg cl ev s)) \<and> tasks_ok ok (server_step N cfg cl ev s)"
proof (cases ev)
  case (Arrives data src)
  then show ?thesis using assms by (simp add: receive_datagram_def tasks_ok_def event_ok_def)
next
  case (RunTask w i)
  obtain data src where t: "sp_tasks s ! i = (data, src)" by force
  have "harmless ok (from_utf8_lossy data)" if "i < length (sp_tasks s)"
    using assms(3) that t by (fastforce simp: tasks_ok_def list_all_length)
  moreover have "list_all Q (take i xs @ drop (Suc i) xs)" if "list_all Q xs" for Q and xs :: "(string \<times> socket_addr) list"
    using that by (auto simp: list_all_iff dest: in_set_takeD in_set_dropD)
  ultimately show ?thesis
    using assms handler_property.inv_datagram [OF assms(1)] t by (simp add: RunTask run_task_def tasks_ok_def Let_def)
next
  case (RefreshAcl env)
  then show ?thesis using assms by (simp add: refresh_acl_def tasks_ok_def split: outcome.split)
next
  case (Calls e)
  then show ?thesis using assms handler_property.inv_call_step [OF assms(1)] by (simp add: event_ok_def tasks_ok_def)
qed

lemma handled_run:
  fixes s :: "'net server_process"
  assumes "handler_property P ok" "list_all (event_ok cl ok) evs" "tasks_ok ok s" "P (sp_calls s)"
  shows "P (sp_calls (server_run N cfg cl evs s)) \<and> tasks_ok ok (server_run N cfg cl evs s)"
  using assms(2-4)
proof (induction evs arbitrary: s)
  case (Cons ev evs)
  then show ?case using handled_step [OF assms(1), of cl ev s N cfg] by (simp add: server_run_def)
qed (simp add: server_run_def)

lemma reconcile_core: "same_core st (snd (reconcile_active_on_startup env st))" "same_core st (snd (reconcile_on_startup env fails st))"
  by (simp_all add: same_core_def reconcile_active_on_startup_def reconcile_on_startup_def)

lemma start_inv: "server_inv (sp_calls (server_start N cfg env fails st))"
proof -
  have "server_inv (with_socket cfg st)" for st :: call_server
    by (simp add: server_inv_def with_socket_def relay_wf_new gw_wf_new conf_wf_new conf_linked_def timers_wf_def)
      (simp add: bound_ports_def media_relay_new_def)
  then show ?thesis
    by (simp add: server_start_def Let_def inv_handled.core [OF core_trans [OF reconcile_core(1) reconcile_core(2)]])
qed

lemma always_ok: "event_ok cl (\<lambda>msg. True) ev"
  by (simp add: event_ok_def call_event_ok_def harmless_def split: server_event.split call_event.split option.split ws_frame.split)

lemma tasks_bound: "length (sp_tasks s) \<le> cl_max_concurrent_tasks cl \<Longrightarrow> length (sp_tasks (server_step N cfg cl ev s)) \<le> cl_max_concurrent_tasks cl"
  by (cases ev) (auto simp: receive_datagram_def run_task_def refresh_acl_def Let_def split: prod.split outcome.split)

interpretation tasks_kept: kept_invariant "server_step N cfg cl" "\<lambda>s. length (sp_tasks s) \<le> cl_max_concurrent_tasks cl" for N cfg cl
  by unfold_locales (rule tasks_bound)

text \<open>
  C1: From the start of the server over any sequence of datagrams, messages of streams, timers, media packets, clean-ups and administrative
  changes: no port of the shared range is bound twice, by the relay or by the gateway, every call in a conference has its participant in
  the mixer, every ringing call its sleeping timer task, and at most the configured number of tasks is waiting.
\<close>

theorem server_run_invariant:
  "let s = server_run N cfg cl evs (server_start N cfg env fails st)
   in distinct (bound_ports (cs_relay (sp_calls s)) @ gw_bound_ports (cs_webrtc (sp_calls s))) \<and> conf_linked (sp_calls s) \<and>
      conf_wf (cs_conf_media (sp_calls s)) \<and> timers_wf (sp_calls s) \<and> length (sp_tasks s) \<le> cl_max_concurrent_tasks cl"
proof -
  let ?s = "server_run N cfg cl evs (server_start N cfg env fails st)"
  have "tasks_ok (\<lambda>msg. True) (server_start N cfg env fails st)" by (simp add: tasks_ok_def harmless_def list_all_iff split_beta)
  then have "server_inv (sp_calls ?s)"
    using handled_run [OF inv_handled.handler_property_axioms, of cl evs "server_start N cfg env fails st" N cfg]
    by (simp add: always_ok list_all_iff start_inv)
  moreover have "length (sp_tasks ?s) \<le> cl_max_concurrent_tasks cl"
    unfolding server_run_def by (rule tasks_kept.run_inv) (simp add: server_start_def Let_def)
  ultimately show ?thesis by (auto simp: server_inv_def relay_wf_def ports_ok_def gw_wf_def)
qed

section \<open>Addresses the rules refuse\<close>

definition arrives_from :: "ip_addr \<Rightarrow> server_event \<Rightarrow> bool" where
  "arrives_from ip ev = (case ev of Arrives data src \<Rightarrow> sa_ip src = ip | _ \<Rightarrow> False)"

definition reloads_acl :: "server_event \<Rightarrow> bool" where
  "reloads_acl ev = (case ev of RefreshAcl env \<Rightarrow> True | _ \<Rightarrow> False)"

lemma step_acl: "\<not> reloads_acl ev \<Longrightarrow> sp_acl (server_step N cfg cl ev s) = sp_acl s"
  by (cases ev) (auto simp: reloads_acl_def receive_datagram_def run_task_def Let_def split: prod.split)

text \<open>
  C19: While the rules in use refuse an address, its datagrams have no effect at all: leaving them out of what happens gives the same state.
\<close>

theorem refused_address_has_no_effect:
  assumes "\<not> is_allowed N (sp_acl s) ip" "list_all (\<lambda>ev. \<not> reloads_acl ev) evs"
  shows "server_run N cfg cl evs s = server_run N cfg cl (filter (\<lambda>ev. \<not> arrives_from ip ev) evs) s"
  using assms
proof (induction evs arbitrary: s)
  case (Cons ev evs)
  have "server_step N cfg cl ev s = s" if "arrives_from ip ev"
    using that Cons.prems(1) by (cases ev) (simp_all add: arrives_from_def receive_datagram_def)
  then show ?case using Cons step_acl [of ev N cfg cl s] by (simp add: server_run_def)
qed (simp add: server_run_def)

definition example_cleanup :: cleanup_config where
  "example_cleanup = \<lparr>cl_max_concurrent_tasks = 2, cl_udp_buffer_size = 65535, cl_media_session_max_age_secs = 3600,
     cl_stale_call_age_hours = 4, cl_cdr_archive_days = 90\<rparr>"

theorem refused_address_has_no_effect_witness:
  "let s = \<lparr>sp_calls = example_calls, sp_acl = checker_new PolicyDeny, sp_tasks = []\<rparr>
   in server_run host_only example_config example_cleanup [Arrives ''x'' listener_source, Calls (StreamOpens listener_source)] s =
      server_run host_only example_config example_cleanup [Calls (StreamOpens listener_source)] s"
  using refused_address_has_no_effect [of host_only "\<lparr>sp_calls = example_calls, sp_acl = checker_new PolicyDeny, sp_tasks = []\<rparr>"
      "sa_ip listener_source" "[Arrives ''x'' listener_source, Calls (StreamOpens listener_source)]" example_config example_cleanup]
  by (simp add: is_allowed_def checker_new_def reloads_acl_def arrives_from_def policy_is_allowed_def Let_def)

section \<open>Calls the caller gave up\<close>

lemma timer_mail:
  fixes st :: "'a call_server_scheme"
  assumes "hm_get (vx_timers st) t = Some task" "\<And>r. tt_place task \<noteq> Sending r" "a \<noteq> tt_target_addr task"
  shows "mail_to a (timer_step cfg w t st) = mail_to a st"
proof (cases "tt_place task")
  case Claimed
  have "mail_to a (snd (send_sip e m (tt_target_addr task) st)) = mail_to a st" for e m
    using assms(3) by (auto simp: mail_to_def send_sip_def transport_send_def udp_send_def hm.get_put split: option.split)
  then show ?thesis using assms(1) Claimed by (simp add: timer_step_def timer_at_def timer_goto_def mail_to_def)
next
  case Sleeping
  obtain fires timers where "claim_no_answer_timer_to_fire (tt_call_id task) (vx_no_answer st) = (fires, timers)" by force
  then show ?thesis
    using assms(1) Sleeping by (cases fires) (auto simp: timer_step_def timer_at_def timer_goto_def abort_timer_def intro!: mail_to_cong)
next
  case Delivering
  obtain r st1 where d: "handle_delivery_invite cfg (cw_vm w) (tt_msg task) (tt_callee task) st = (r, st1)" by force
  then have "sv_outbox st1 = sv_outbox st" "sv_streams st1 = sv_streams st"
    using delivery_timers(5,6) [of cfg "cw_vm w" "tt_msg task" "tt_callee task" st] by simp_all
  then show ?thesis
    using assms(1) Delivering d by (auto simp: timer_step_def timer_at_def timer_goto_def abort_timer_def intro!: mail_to_cong split: outcome.split)
qed (use assms in \<open>auto simp: timer_step_def timer_at_def timer_goto_def abort_timer_def finish_no_answer_timer_def drop_call_def
      cleanup_suppressed_no_answer_delivery_def mark_recording_canceled_def Let_def intro!: mail_to_cong split: prod.split option.split no_answer_entry.split\<close>)

lemma cancel_routed:
  assumes "parse raw = Ok msg" "m_method msg = Some ''CANCEL''" "call_id msg = Some cid" "\<not> is_voicemail_call cid st" "\<not> is_conference_call cid st"
  shows "snd (process_sip_msg cfg w raw src st) = snd (proxy_cancel cfg w msg st)"
  using assms by (simp add: process_sip_msg_def route_request_def route_conference_def route_generic_def message_call_id_def Let_def)

lemma cancel_is_quiet:
  assumes "parse raw = Ok msg" "m_method msg = Some ''CANCEL''" "call_id msg = Some cid" "\<not> is_voicemail_call cid st" "\<not> is_conference_call cid st"
    and "\<And>t task r. hm_get (vx_timers st) t = Some task \<Longrightarrow> tt_call_id task = cid \<Longrightarrow> tt_place task \<noteq> Sending r"
  shows "timer_quiet cid (snd (process_sip_msg cfg w raw src st))"
  unfolding cancel_routed [OF assms(1-5)]
  using caller_cancel_starts_quiet [of st cid] assms(3,6)
  by (simp add: proxy_cancel_def message_call_id_def Let_def quiet_handled.inv_update_call quiet_handled.inv_send quiet_handled.inv_drop split: option.split)

text \<open>
  C10: After the CANCEL of a proxied call has been handled, the call is not answered by voicemail: unless a timer task of the call had passed its
  last check, then, whatever else the server does without a new INVITE of that Call-ID, no step of a task of the call sends anything to an
  address other than that of the callee, which gets the CANCEL.
\<close>

theorem canceled_call_not_answered:
  fixes s :: "'net server_process"
  assumes "parse raw = Ok msg" "m_method msg = Some ''CANCEL''" "call_id msg = Some cid"
    and "\<not> is_voicemail_call cid (sp_calls s)" "\<not> is_conference_call cid (sp_calls s)"
    and "\<And>t task r. hm_get (vx_timers (sp_calls s)) t = Some task \<Longrightarrow> tt_call_id task = cid \<Longrightarrow> tt_place task \<noteq> Sending r"
    and "tasks_ok (\<lambda>m. call_id m \<noteq> Some cid) s" "list_all (event_ok cl (\<lambda>m. call_id m \<noteq> Some cid)) evs"
    and "s' = server_run N cfg cl (Calls (StreamMessage w raw src) # evs) s"
    and "hm_get (vx_timers (sp_calls s')) t = Some task" "tt_call_id task = cid" "a \<noteq> tt_target_addr task"
  shows "mail_to a (timer_step cfg' w' t (sp_calls s')) = mail_to a (sp_calls s')"
proof -
  let ?s = "s\<lparr>sp_calls := snd (process_sip_msg cfg w raw src (sp_calls s))\<rparr>"
  have "timer_quiet cid (sp_calls ?s)" using cancel_is_quiet [OF assms(1-6)] by simp
  moreover have "tasks_ok (\<lambda>m. call_id m \<noteq> Some cid) ?s" using assms(7) by (simp add: tasks_ok_def)
  moreover have "s' = server_run N cfg cl evs ?s" using assms(9) by (simp add: server_run_def)
  ultimately have "timer_quiet cid (sp_calls s')"
    using handled_run [OF quiet_handled.handler_property_axioms assms(8), of ?s N cfg] by simp
  then show ?thesis using timer_mail [OF assms(10) _ assms(12)] assms(10,11) by (auto simp: timer_quiet_def)
qed

definition example_cancel :: string where
  "example_cancel = ''CANCEL sip:1001@x.org SIP/2.0'' @ crlf @ ''Call-ID: c2'' @ crlf @ crlf"

definition example_fired :: call_server where
  "example_fired = example_calls\<lparr>vx_timers := [(0, example_task\<lparr>tt_place := Claimed\<rparr>)], vx_no_answer := [(''c2'', Firing)]\<rparr>"

theorem canceled_call_not_answered_witness:
  "let s = server_run host_only example_config example_cleanup [Calls (StreamMessage example_call_world example_cancel listener_source)]
         \<lparr>sp_calls = example_fired, sp_acl = checker_new PolicyAllow, sp_tasks = []\<rparr>
   in hm_get (vx_timers (sp_calls s)) 0 = Some (example_task\<lparr>tt_place := Claimed\<rparr>) \<and>
      mail_to (tt_src example_task) (timer_step example_config example_call_world 0 (sp_calls s)) = mail_to (tt_src example_task) (sp_calls s)"
proof -
  obtain msg where msg: "parse example_cancel = Ok msg" "m_method msg = Some ''CANCEL''" "call_id msg = Some ''c2''"
  proof -
    have "(case parse example_cancel of Ok m \<Rightarrow> m_method m = Some ''CANCEL'' \<and> call_id m = Some ''c2'' | _ \<Rightarrow> False)" by code_simp
    then show ?thesis using that by (cases "parse example_cancel") auto
  qed
  let ?s = "\<lparr>sp_calls = example_fired, sp_acl = checker_new PolicyAllow, sp_tasks = []\<rparr>"
  let ?s' = "server_run host_only example_config example_cleanup [Calls (StreamMessage example_call_world example_cancel listener_source)] ?s"
  have "vx_timers (sp_calls ?s') = vx_timers example_fired"
    using cancel_routed [OF msg, of example_fired example_config example_call_world listener_source] msg(3)
    by (simp add: server_run_def is_voicemail_call_def is_conference_call_def example_fired_def proxy_cancel_def message_call_id_def update_call_def
        drop_call_def cancel_no_answer_timer_for_caller_cancel_def mark_fired_no_answer_timer_canceled_def Let_def)
  then have t: "hm_get (vx_timers (sp_calls ?s')) 0 = Some (example_task\<lparr>tt_place := Claimed\<rparr>)" by (simp add: example_fired_def)
  have "mail_to (tt_src example_task) (timer_step example_config example_call_world 0 (sp_calls ?s')) = mail_to (tt_src example_task) (sp_calls ?s')"
    by (rule canceled_call_not_answered [OF msg, of ?s example_cleanup "[]" _ host_only example_config example_call_world listener_source, OF _ _ _ _ _ refl t])
      (auto simp: example_fired_def tasks_ok_def is_voicemail_call_def is_conference_call_def example_task_def listener_source_def split: if_splits)
  then show ?thesis using t by (simp add: Let_def)
qed

section \<open>The clean baseline of a start\<close>


definition example_crashed :: call_server where
  "example_crashed = example_calls\<lparr>cs_calls := [(''c1'', \<lparr>sc_caller = ''a'', sc_callee = ''b'', sc_status = CallAnswered, sc_started_at = 10,
     sc_answered_at = Some 12, sc_ended_at = None\<rparr>)]\<rparr>"


end
