(* ===== verification/Spec2Isabelle.thy ===== *)
theory Spec2Isabelle
  imports Registrar Media_Relay Stream_Framing Server
begin

text \<open>
  A verification development for the server of the \<open>sip3\<close> repository: a SIP registrar and proxy with an
  RTP relay, conference rooms and voicemail, written in Rust under \<open>src/backend/src\<close>.

  \<^bold>\<open>The program and its parts.\<close>  Datagrams and stream messages are parsed by \<open>sip/message.rs\<close>; handlers answer with
  messages built by \<open>sip/response.rs\<close>.  \<open>sip/registrar.rs\<close> authenticates REGISTER requests by digest, counts failures in the
  guard of \<open>security_guard.rs\<close> (which also feeds the address rules of \<open>acl.rs\<close>), stores bindings and makes
  \<open>sip/presence.rs\<close> notify watchers.  Calls get ports from the relay of \<open>sip/media.rs\<close>, which rewrites the SDP of both
  sides; conference rooms (\<open>sip/conference_media.rs\<close>) and voicemail terminate RTP themselves after the negotiation of
  \<open>sip/conference_sdp.rs\<close> and \<open>sip/voicemail_sdp.rs\<close>, with the codecs of \<open>sip/g711.rs\<close>; recordings go to \<open>storage/voicemail.rs\<close>.
  \<open>sip/server.rs\<close> admits datagrams and starts the background tasks; \<open>sip/handler.rs\<close> sends every message to the endpoint that
  answers it: registrar, presence, the voicemail endpoint (\<open>sip/voicemail.rs\<close>), the conference endpoint (\<open>sip/conference.rs\<close>) or
  the proxy (\<open>sip/proxy.rs\<close>), which routes calls between phones and, through \<open>sip/webrtc_gateway.rs\<close>, browsers.

  \<^bold>\<open>How the code is represented.\<close>  A \<open>str\<close> is its bytes (a HOL \<open>string\<close>); integers are words of their width; a
  \<open>HashMap\<close> is an association list with distinct keys used through the operations \<open>hm_get\<close>, \<open>hm_put\<close>, \<open>hm_del\<close>, whose laws
  are the locale \<open>keyed_store\<close>; a \<open>Result\<close> is an \<open>outcome\<close> with a third value for panics.  An \<open>async\<close> handler is a function of
  the state it starts in: the operations on the guard, the tables and the registry are atomic and follow each other in the
  order of the source, so a handler is one step; the tasks it starts (no-answer timers, recordings) are steps of their own between
  two awaits.  The equality of strings in SQL is that of the bytes.  Objects shared through \<open>Arc\<close> live in a store keyed by identity, because
  dropping a \<open>JoinHandle\<close> leaves its task running.  Code outside the repository is an argument: the digest function, the
  network parser of the \<open>ipnet\<close> crate, failing statements and sends, random numbers, clocks, ports the system grants.

  \<^bold>\<open>The theories.\<close>
  \<^item> \<open>Sip_Prelude\<close>, \<open>Rust_Str\<close>, \<open>Rust_Num\<close>, \<open>Net_Addr\<close>: outcomes, hash maps, the locale \<open>kept_invariant\<close> for runs of
    operations; \<open>str\<close> methods; parsing and printing of integers; addresses with their text forms and round trips.
  \<^item> \<open>Sip_Message\<close>, \<open>Sip_Response\<close> (\<open>message.rs\<close>, \<open>response.rs\<close>): parser, header access, digest parameters, Via handling,
    response builder.  Shown: a response parses back to what was put in; digest parameters and challenges round trip; the
    parameter parser panics only on a trailing backslash; \<open>strip_proxy_via\<close> removes exactly one line.
  \<^item> \<open>Security_Guard\<close> (\<open>security_guard.rs\<close>, \<open>api/rate_limit.rs\<close>): failure windows, blocks and the request limiter, both
    instances of the locale \<open>sliding_window\<close>.  Shown: the decision is the count over the whole history, a block lasts
    exactly its duration, and no window holds more accepted requests than the limit.
  \<^item> \<open>Acl\<close> (\<open>acl.rs\<close>, \<open>api/acl.rs\<close>, the ban of \<open>security_guard.rs\<close>): rules and administration.  Shown: the checker is the first
    match over the ordered table, and the effect of a ban on every address.
  \<^item> \<open>Server_State\<close>, \<open>Presence\<close>, \<open>Registrar\<close> (\<open>transport.rs\<close>, \<open>presence.rs\<close>, \<open>registrar.rs\<close>, \<open>enqueue\<close> of
    \<open>webhook_dispatcher.rs\<close>): the state the SIP handlers share and the handlers themselves.  Shown: a registration changes
    only with valid credentials of its own account, what a granted REGISTER stores, the lifetime of nonces, the lockout
    after repeated failures through the guard's history, and that live subscribers are notified.
  \<^item> \<open>G711\<close>, \<open>Rtp\<close>, \<open>Sdp_Negotiation\<close> (\<open>g711.rs\<close>, the packet functions of \<open>conference_media.rs\<close> and \<open>voicemail_media.rs\<close>,
    \<open>conference_sdp.rs\<close>, \<open>voicemail_sdp.rs\<close>): round trips and error bounds of both laws through the locale \<open>companding\<close>,
    agreement of the two packet readers, and answers that negotiate to themselves through the locale \<open>sdp_endpoint\<close>.
  \<^item> \<open>Media_Sdp\<close>, \<open>Port_Alloc\<close>, \<open>Media_Relay\<close> (\<open>media.rs\<close>): SDP sections and rewriting, the three port allocators as
    instances of the locale \<open>port_allocator\<close>, relay sessions and forwarding.  Shown: rewriting refines an edit of the
    sections, allocation finds a free port exactly when there is one, running streams never share a port, media is forwarded
    symmetrically, and removing a new call restores the ports, while allocating again under the same Call-ID leaks them.
  \<^item> \<open>Voicemail_Storage\<close>, \<open>Conference_Media\<close> (\<open>storage/voicemail.rs\<close>, \<open>conference_media.rs\<close>): recordings read back as
    written under keys inside the root; rooms, mixing without one's own voice, muting by star six, one packet per tick.

  \<^item> \<open>Utf8\<close>, \<open>Stream_Framing\<close> (\<open>tcp_server.rs\<close>): lossy decoding, and the reading of messages off a stream.  Shown: the loops
    return on every finite stream, the cutting into segments does not matter, well-formed streams are cut at the message
    boundaries, and a queued message that is written while another is being read loses what was read.
  \<^item> \<open>Voicemail_Media\<close>, \<open>Voicemail_State\<close>, \<open>Voicemail_Mwi\<close>, \<open>Voicemail\<close> (\<open>voicemail_media.rs\<close>, \<open>voicemail_mwi.rs\<close>, \<open>voicemail.rs\<close>):
    recording of RTP, message waiting notifications, and the endpoint for leaving and hearing messages.  Shown: a stored file holds the
    audio of the first valid sender, only the owner of a mailbox hears it, a recording is kept exactly when the call was
    not cancelled, the subscribers are told of it, and the menu keeps its state well formed.
  \<^item> \<open>Webrtc_Gateway\<close>, \<open>Socket_Ports\<close> (\<open>webrtc_gateway.rs\<close>): sessions of browsers and their sockets on the side of the phone, and what every
    operation of gateway and relay does to the ports of the range they share.
  \<^item> \<open>Proxy_Messages\<close>, \<open>Call_State\<close>, \<open>No_Answer\<close>, \<open>Proxy\<close> (\<open>proxy.rs\<close>, the timer of \<open>voicemail.rs\<close>): the forwarded requests, the maps of
    calls, the no-answer task at each of its awaits, and the request handlers.  Shown: forwarded requests parse back to what was received, an INVITE
    moves something only for a known account and then reaches the registered callee, BYE ends a call for both sides, every
    MESSAGE is accounted for, the lockout of failing callers, and the way of an unanswered call to voicemail.
  \<^item> \<open>Conference\<close> (\<open>conference.rs\<close>): joining with account, PIN and limit, leaving, muting.  Shown: who gets in, and what an admitted
    caller finds in the mixer.
  \<^item> \<open>Handler\<close>, \<open>Handler_Invariant\<close> (\<open>handler.rs\<close>): the dispatcher for requests and responses.  Shown: the answer of a callee
    reaches the caller with the addresses of the relay, and a refused call of a callee with a mailbox is lost.  The locale
    \<open>handler_property\<close> states which laws make every message keep a property, and has the handlers proved once over them; its two interpretations are
    the invariant of the components together and the silence of a cancelled call.
  \<^item> \<open>Server\<close> (\<open>server.rs\<close>, \<open>call_cleanup.rs\<close>, the loop of \<open>ws_server.rs\<close>): the process, with all its tasks interleaved in any order.  Shown: the
    invariant from the start over every run, that a cancelled call stays unanswered over every run, that refused addresses
    have no effect, and the clean baseline of a start.

  \<^bold>\<open>Bounds.\<close>  No definition uses fuel: loops over ports run as often as the range has ports, the loop of \<open>write_message\<close> over the
  eight names of the source, the recording loop over the packets and timeouts that happen, and every other recursion is over its data.
  Times are natural numbers of nanoseconds for \<open>Instant\<close> and of seconds for \<open>Utc\<close>; seconds since 1970 fit 32 bits where a nonce
  prints them, a hypothesis of the theorem.  Two requests that are handled at the same time are two steps, one after the other; the
  interleaving of their awaits is not modelled, except for the timer and recording tasks.

  \<^bold>\<open>Not modelled.\<close>  Accepting connections, TLS and WebSocket handshakes, the peer connections of the \<open>webrtc\<close> crate, the HTTP interface except the
  address rules and the limiter (a run of the server allows it to change any table between two steps), the delivery of webhooks and mail,
  metrics, configuration loading and the test client.  Logging and metrics have no effect on the state.
\<close>

end
